(* ===== verification/Prelude.thy ===== *)
theory Prelude
  imports Main "HOL-Library.Word" "HOL-Library.Sublist"
begin

text \<open>
  Shared vocabulary of the development: Python exceptions as values, programs as functions from a
  state to an outcome and a new state, the control structures the scripts use (sequencing, loops
  over lists, \<open>try/except\<close>, \<open>try/finally\<close>), Python's string and path operations, and byte lists.

  Python behaviour that is modelled here:
  \<^item> a statement runs on a state and either returns a value (\<open>Inr\<close>) or raises (\<open>Inl\<close>); the effects
    made before an exception stay in the state, as they do in the scripts;
  \<^item> \<open>except Exception\<close> catches every exception but \<open>SystemExit\<close>;
  \<^item> strings are lists of ASCII characters, \<open>bytes\<close> are lists of 8-bit words.
\<close>

section \<open>Exceptions and programs\<close>

datatype exn =
    CalledProcessError
  | FileNotFoundError
  | FileExistsError
  | IsADirectoryError
  | NotADirectoryError
  | OSError
  | KeyError string
  | IndexError
  | ValueError
  | TypeError
  | AttributeError string
  | UnboundLocalError string
  | StructError
  | TIMEOUT
  | EOF
  | SystemExit int

definition is_Exception :: "exn \<Rightarrow> bool" where
  "is_Exception e = (case e of SystemExit _ \<Rightarrow> False | _ \<Rightarrow> True)"

type_synonym ('w, 'a) prog = "'w \<Rightarrow> (exn + 'a) \<times> 'w"

named_theorems prog_simps "unfolding rules of the program combinators"
named_theorems preserve "programs that keep a state predicate"

definition ret :: "'a \<Rightarrow> ('w, 'a) prog" where
  "ret x w = (Inr x, w)"

definition raise :: "exn \<Rightarrow> ('w, 'a) prog" where
  "raise e w = (Inl e, w)"

definition getE :: "('w \<Rightarrow> 'a) \<Rightarrow> ('w, 'a) prog" where
  "getE f w = (Inr (f w), w)"

definition modE :: "('w \<Rightarrow> 'w) \<Rightarrow> ('w, unit) prog" where
  "modE f w = (Inr (), f w)"

definition liftE :: "exn + 'a \<Rightarrow> ('w, 'a) prog" where
  "liftE r w = (r, w)"

definition bindE :: "('w, 'a) prog \<Rightarrow> ('a \<Rightarrow> ('w, 'b) prog) \<Rightarrow> ('w, 'b) prog" where
  "bindE m f w = (case m w of (Inl e, w') \<Rightarrow> (Inl e, w') | (Inr x, w') \<Rightarrow> f x w')"

definition seqE :: "('w, 'a) prog \<Rightarrow> ('w, 'b) prog \<Rightarrow> ('w, 'b) prog" where
  "seqE m n = bindE m (\<lambda>_. n)"

definition whenE :: "bool \<Rightarrow> ('w, unit) prog \<Rightarrow> ('w, unit) prog" where
  "whenE b m = (if b then m else ret ())"

definition tryE :: "('w, 'a) prog \<Rightarrow> (exn \<Rightarrow> bool) \<Rightarrow> (exn \<Rightarrow> ('w, 'a) prog) \<Rightarrow> ('w, 'a) prog" where
  "tryE m catches h w =
     (case m w of
        (Inl e, w') \<Rightarrow> if catches e then h e w' else (Inl e, w')
      | (Inr x, w') \<Rightarrow> (Inr x, w'))"

text \<open>\<open>finally\<close>: the cleanup always runs, and an exception of its own replaces the outcome.\<close>

definition finallyE :: "('w, 'a) prog \<Rightarrow> ('w, unit) prog \<Rightarrow> ('w, 'a) prog" where
  "finallyE m c w =
     (case m w of (r, w') \<Rightarrow>
        (case c w' of (Inl e, w'') \<Rightarrow> (Inl e, w'') | (Inr _, w'') \<Rightarrow> (r, w'')))"

text \<open>A block of statements, and a \<open>for\<close> loop over a list.\<close>

primrec seqs :: "('w, unit) prog list \<Rightarrow> ('w, unit) prog" where
  "seqs [] = ret ()"
| "seqs (m # ms) = seqE m (seqs ms)"

primrec forE :: "'a list \<Rightarrow> ('a \<Rightarrow> ('w, unit) prog) \<Rightarrow> ('w, unit) prog" where
  "forE [] f = ret ()"
| "forE (x # xs) f = seqE (f x) (forE xs f)"

lemmas prog_defs = ret_def raise_def getE_def modE_def liftE_def bindE_def seqE_def whenE_def
  tryE_def finallyE_def

declare ret_def [prog_simps] raise_def [prog_simps] getE_def [prog_simps] modE_def [prog_simps]
  liftE_def [prog_simps] bindE_def [prog_simps] seqE_def [prog_simps] whenE_def [prog_simps]
  tryE_def [prog_simps] finallyE_def [prog_simps]

lemma seqE_Inr: "m w = (Inr x, w') \<Longrightarrow> seqE m n w = n w'"
  by (simp add: prog_defs)

lemma seqE_Inl: "m w = (Inl e, w') \<Longrightarrow> seqE m n w = (Inl e, w')"
  by (simp add: prog_defs)

lemma bindE_Inr: "m w = (Inr x, w') \<Longrightarrow> bindE m f w = f x w'"
  by (simp add: prog_defs)

lemma bindE_Inl: "m w = (Inl e, w') \<Longrightarrow> bindE m f w = (Inl e, w')"
  by (simp add: prog_defs)

lemma forE_append: "forE (xs @ ys) f w = seqE (forE xs f) (forE ys f) w"
  by (induction xs arbitrary: w) (auto simp: prog_defs split: prod.splits sum.splits)

subsection \<open>State predicates a program keeps\<close>

text \<open>
  \<open>keeps P m\<close>: whether \<open>m\<close> returns or raises, it keeps the state predicate \<open>P\<close>. A frame property
  ("this field is not written") is \<open>keeps\<close> for every predicate on the field.
\<close>

definition keeps :: "('w \<Rightarrow> bool) \<Rightarrow> ('w, 'a) prog \<Rightarrow> bool" where
  "keeps P m \<longleftrightarrow> (\<forall>w. P w \<longrightarrow> P (snd (m w)))"

lemma keepsI: "(\<And>w. P w \<Longrightarrow> P (snd (m w))) \<Longrightarrow> keeps P m"
  by (simp add: keeps_def)

lemma keepsD: "keeps P m \<Longrightarrow> P w \<Longrightarrow> P (snd (m w))"
  by (simp add: keeps_def)

lemma keeps_outcome: "keeps P m \<Longrightarrow> P w \<Longrightarrow> m w = (r, w') \<Longrightarrow> P w'"
  using keepsD [of P m w] by simp

lemma keeps_ret [preserve]: "keeps P (ret x)"
  by (simp add: keeps_def prog_defs)

lemma keeps_raise [preserve]: "keeps P (raise e)"
  by (simp add: keeps_def prog_defs)

lemma keeps_getE [preserve]: "keeps P (getE f)"
  by (simp add: keeps_def prog_defs)

lemma keeps_liftE [preserve]: "keeps P (liftE r)"
  by (simp add: keeps_def prog_defs)

lemma keeps_bindE [preserve]:
  assumes "keeps P m" and "\<And>x. keeps P (f x)"
  shows "keeps P (bindE m f)"
proof (rule keepsI)
  fix w assume "P w"
  with assms(1) have "P (snd (m w))" by (rule keepsD)
  with assms(2) show "P (snd (bindE m f w))"
    by (cases "m w") (auto simp: prog_defs keeps_def split: sum.splits)
qed

lemma keeps_seqE [preserve]: "keeps P m \<Longrightarrow> keeps P n \<Longrightarrow> keeps P (seqE m n)"
  by (simp add: seqE_def keeps_bindE)

lemma keeps_whenE [preserve]: "(b \<Longrightarrow> keeps P m) \<Longrightarrow> keeps P (whenE b m)"
  by (simp add: whenE_def keeps_ret)

lemma keeps_if [preserve]:
  "(b \<Longrightarrow> keeps P m) \<Longrightarrow> (\<not> b \<Longrightarrow> keeps P n) \<Longrightarrow> keeps P (if b then m else n)"
  by simp

lemma keeps_tryE [preserve]:
  assumes "keeps P m" and "\<And>e. keeps P (h e)"
  shows "keeps P (tryE m c h)"
proof (rule keepsI)
  fix w assume "P w"
  with assms(1) have "P (snd (m w))" by (rule keepsD)
  with assms(2) show "P (snd (tryE m c h w))"
    by (cases "m w") (auto simp: prog_defs keeps_def split: sum.splits)
qed

lemma keeps_finallyE [preserve]:
  assumes "keeps P m" and "keeps P c"
  shows "keeps P (finallyE m c)"
proof (rule keepsI)
  fix w assume "P w"
  with assms(1) have "P (snd (m w))" by (rule keepsD)
  with assms(2) have "P (snd (c (snd (m w))))" by (rule keepsD)
  then show "P (snd (finallyE m c w))"
    by (auto simp: prog_defs split: prod.splits sum.splits)
qed

lemma keeps_seqs [preserve]: "(\<And>m. m \<in> set ms \<Longrightarrow> keeps P m) \<Longrightarrow> keeps P (seqs ms)"
  by (induction ms) (simp_all add: keeps_ret keeps_seqE)

lemma keeps_forE [preserve]: "(\<And>x. x \<in> set xs \<Longrightarrow> keeps P (f x)) \<Longrightarrow> keeps P (forE xs f)"
  by (induction xs) (simp_all add: keeps_ret keeps_seqE)

subsection \<open>The exceptions a program may raise\<close>

definition throws :: "(exn \<Rightarrow> bool) \<Rightarrow> ('w, 'a) prog \<Rightarrow> bool" where
  "throws E m \<longleftrightarrow> (\<forall>w e. fst (m w) = Inl e \<longrightarrow> E e)"

named_theorems raising "the exceptions of programs"

lemma throwsI: "(\<And>w e. fst (m w) = Inl e \<Longrightarrow> E e) \<Longrightarrow> throws E m"
  by (simp add: throws_def)

lemma throwsD: "throws E m \<Longrightarrow> m w = (Inl e, w') \<Longrightarrow> E e"
  unfolding throws_def by (metis fst_conv)

text \<open>A program that raises nothing returns.\<close>

lemma throws_returns: "throws (\<lambda>_. False) m \<Longrightarrow> \<exists>x w'. m w = (Inr x, w')"
  by (cases "m w"; cases "fst (m w)") (auto dest: throwsD)

lemma throws_ret [raising]: "throws E (ret x)" and throws_getE [raising]: "throws E (getE f)"
  and throws_modE [raising]: "throws E (modE g)"
  by (simp_all add: throws_def prog_simps)

lemma throws_raise: "E e \<Longrightarrow> throws E (raise e)"
  by (simp add: throws_def prog_simps)

lemma throws_bindE [raising]: "throws E m \<Longrightarrow> (\<And>x. throws E (f x)) \<Longrightarrow> throws E (bindE m f)"
  by (auto simp: throws_def prog_simps split: prod.splits sum.splits) (metis fst_conv)+

lemma throws_seqE [raising]: "throws E m \<Longrightarrow> throws E n \<Longrightarrow> throws E (seqE m n)"
  by (simp add: seqE_def throws_bindE)

lemma throws_whenE [raising]: "(b \<Longrightarrow> throws E m) \<Longrightarrow> throws E (whenE b m)"
  by (simp add: whenE_def throws_ret)

lemma throws_if [raising]: "(b \<Longrightarrow> throws E m) \<Longrightarrow> (\<not> b \<Longrightarrow> throws E n) \<Longrightarrow> throws E (if b then m else n)"
  by simp

lemma throws_seqs [raising]: "(\<And>m. m \<in> set ms \<Longrightarrow> throws E m) \<Longrightarrow> throws E (seqs ms)"
  by (induction ms) (simp_all add: throws_ret throws_seqE)

lemma throws_forE [raising]: "(\<And>x. x \<in> set xs \<Longrightarrow> throws E (f x)) \<Longrightarrow> throws E (forE xs f)"
  by (induction xs) (simp_all add: throws_ret throws_seqE)

lemma throws_tryE:
  assumes m: "throws E m" and h: "\<And>e. E e \<Longrightarrow> c e \<Longrightarrow> throws F (h e)" and rest: "\<And>e. E e \<Longrightarrow> \<not> c e \<Longrightarrow> F e"
  shows "throws F (tryE m c h)"
proof (rule throwsI)
  fix w e assume fail: "fst (tryE m c h w) = Inl e"
  obtain r w1 where mw: "m w = (r, w1)" by (cases "m w")
  with fail obtain e' where e': "r = Inl e'"
    by (cases r) (auto simp: prog_simps)
  have "E e'" using throwsD [OF m] mw e' by simp
  then show "F e"
    using fail mw e' h [of e'] rest [of e'] by (auto simp: prog_simps throws_def split: if_splits)
qed

lemma throws_finallyE [raising]: "throws E m \<Longrightarrow> throws E c \<Longrightarrow> throws E (finallyE m c)"
  by (auto simp: throws_def prog_simps split: prod.splits sum.splits) (metis fst_conv)+

lemma throws_mono: "throws E m \<Longrightarrow> (\<And>e. E e \<Longrightarrow> F e) \<Longrightarrow> throws F m"
  by (auto simp: throws_def)

subsection \<open>What a program leaves behind\<close>

text \<open>\<open>leaves P m\<close>: whatever the state before, and whether \<open>m\<close> returns or raises, \<open>P\<close> holds after it.\<close>

definition leaves :: "('w \<Rightarrow> bool) \<Rightarrow> ('w, 'a) prog \<Rightarrow> bool" where
  "leaves P m \<longleftrightarrow> (\<forall>w. P (snd (m w)))"

lemma leavesI: "(\<And>w. P (snd (m w))) \<Longrightarrow> leaves P m"
  by (simp add: leaves_def)

lemma leavesD: "leaves P m \<Longrightarrow> P (snd (m w))"
  by (simp add: leaves_def)

lemma leaves_then: "leaves P m \<Longrightarrow> keeps P n \<Longrightarrow> leaves P (seqE m n)"
  by (auto simp: leaves_def keeps_def prog_simps split: prod.splits sum.splits) (metis snd_conv)+

lemma leaves_after: "throws (\<lambda>_. False) m \<Longrightarrow> leaves P n \<Longrightarrow> leaves P (seqE m n)"
  by (auto simp: leaves_def throws_def prog_simps split: prod.splits sum.splits) (metis fst_conv)+

lemma leaves_bind: "throws (\<lambda>_. False) m \<Longrightarrow> (\<And>x. leaves P (f x)) \<Longrightarrow> leaves P (bindE m f)"
  by (auto simp: leaves_def throws_def prog_simps split: prod.splits sum.splits) (metis fst_conv)+

lemma leaves_try: "leaves P m \<Longrightarrow> (\<And>e. keeps P (h e)) \<Longrightarrow> leaves P (tryE m c h)"
  by (auto simp: leaves_def keeps_def prog_simps split: prod.splits sum.splits) (metis snd_conv)+

lemma leaves_finally: "leaves P c \<Longrightarrow> leaves P (finallyE m c)"
  by (auto simp: leaves_def prog_simps split: prod.splits sum.splits) (metis snd_conv)+

section \<open>Strings\<close>

text \<open>
  \<open>raw\<close> writes a Python literal that holds backslashes or single quotes: an exclamation mark stands
  for a backslash and a backquote for a single quote (no literal of the program holds either).
\<close>

definition raw :: "string \<Rightarrow> string" where
  "raw s = map (\<lambda>c. if c = CHR ''!'' then CHR 0x5C else if c = CHR 0x60 then CHR 0x27 else c) s"

definition newline :: string where
  "newline = [CHR 0x0A]"

text \<open>\<open>sep.join(parts)\<close>.\<close>

fun join :: "string \<Rightarrow> string list \<Rightarrow> string" where
  "join sep [] = []"
| "join sep [x] = x"
| "join sep (x # y # ys) = x @ sep @ join sep (y # ys)"

text \<open>\<open>s.split(c)\<close> for a one-character separator: never empty, \<open>n\<close> separators give \<open>n + 1\<close> parts.\<close>

fun split_on :: "char \<Rightarrow> string \<Rightarrow> string list" where
  "split_on c [] = [[]]"
| "split_on c (x # xs) =
     (if x = c then [] # split_on c xs
      else (case split_on c xs of [] \<Rightarrow> [[x]] | p # ps \<Rightarrow> (x # p) # ps))"

lemma split_on_ne [simp]: "split_on c s \<noteq> []"
  by (induction s) (auto split: list.splits)

text \<open>A piece between two separators is one of the parts.\<close>

lemma split_on_app: "split_on c (a @ c # b) = split_on c a @ split_on c b"
  by (induction a) (auto split: list.splits)

lemma split_on_whole: "c \<notin> set s \<Longrightarrow> split_on c s = [s]"
  by (induction s) auto

lemma split_on_piece: "c \<notin> set l \<Longrightarrow> l \<in> set (split_on c (a @ c # l @ c # b))"
  by (simp add: split_on_app split_on_whole)

lemma join_split_on: "join [c] (split_on c s) = s"
proof (induction s)
  case Nil
  then show ?case by simp
next
  case (Cons x xs)
  then show ?case by (cases "split_on c xs"; cases "tl (split_on c xs)") auto
qed

text \<open>\<open>p in s\<close>, and \<open>s.splitlines()\<close>: a carriage return and line feed count once, nothing after the last.\<close>

fun contains :: "string \<Rightarrow> string \<Rightarrow> bool" where
  "contains p [] = (p = [])"
| "contains p (c # cs) = (prefix p (c # cs) \<or> contains p cs)"

lemma contains_prefix: "prefix p s \<Longrightarrow> contains p s"
  by (cases s) auto

lemma contains_later: "contains p s \<Longrightarrow> contains p (a @ s)"
  by (induction a) auto

lemma contains_mid: "contains p (a @ p @ b)"
  by (intro contains_later contains_prefix) simp

definition is_line_end :: "char \<Rightarrow> bool" where
  "is_line_end c = (let n = of_char c :: nat in (10 \<le> n \<and> n \<le> 13) \<or> (28 \<le> n \<and> n \<le> 30))"

fun splitlines_from :: "string \<Rightarrow> string \<Rightarrow> string list" where
  "splitlines_from acc [] = (if acc = [] then [] else [rev acc])"
| "splitlines_from acc (c # cs) =
     (if c = CHR 0x0D then
        (case cs of
           d # ds \<Rightarrow> if d = CHR 0x0A then rev acc # splitlines_from [] ds else rev acc # splitlines_from [] cs
         | [] \<Rightarrow> [rev acc])
      else if is_line_end c then rev acc # splitlines_from [] cs
      else splitlines_from (c # acc) cs)"

definition splitlines :: "string \<Rightarrow> string list" where
  "splitlines s = splitlines_from [] s"

text \<open>The whitespace \<open>str.strip\<close> removes, and the decimal digits of \<open>str.isdigit\<close>, in ASCII.\<close>

definition is_space :: "char \<Rightarrow> bool" where
  "is_space c = (let n = of_char c :: nat in n = 32 \<or> (9 \<le> n \<and> n \<le> 13) \<or> (28 \<le> n \<and> n \<le> 31))"

definition strip :: "string \<Rightarrow> string" where
  "strip s = rev (dropWhile is_space (rev (dropWhile is_space s)))"

definition is_digit :: "char \<Rightarrow> bool" where
  "is_digit c = (let n = of_char c :: nat in 48 \<le> n \<and> n \<le> 57)"

definition str_isdigit :: "string \<Rightarrow> bool" where
  "str_isdigit s = (s \<noteq> [] \<and> list_all is_digit s)"

definition digit_val :: "char \<Rightarrow> nat" where
  "digit_val c = of_char c - 48"

text \<open>\<open>int(s)\<close> of a string of digits.\<close>

definition int_of_digits :: "string \<Rightarrow> nat" where
  "int_of_digits s = foldl (\<lambda>a c. 10 * a + digit_val c) 0 s"

text \<open>\<open>str(n)\<close> for a natural number.\<close>

definition digit_char :: "nat \<Rightarrow> char" where
  "digit_char d = char_of (48 + d)"

fun show_nat :: "nat \<Rightarrow> string" where
  "show_nat n = (if n < 10 then [digit_char n] else show_nat (n div 10) @ [digit_char (n mod 10)])"

declare show_nat.simps [simp del]

lemma digit_val_char: "d < 10 \<Longrightarrow> digit_val (digit_char d) = d"
  by (simp add: digit_val_def digit_char_def)

lemma is_digit_char: "d < 10 \<Longrightarrow> is_digit (digit_char d)"
  by (simp add: is_digit_def digit_char_def Let_def)

lemma int_of_digits_snoc: "int_of_digits (s @ [c]) = 10 * int_of_digits s + digit_val c"
  by (simp add: int_of_digits_def)

lemma int_of_show_nat: "int_of_digits (show_nat n) = n"
proof (induction n rule: show_nat.induct)
  case (1 n)
  show ?case
  proof (cases "n < 10")
    case True
    then show ?thesis
      by (subst show_nat.simps) (simp add: int_of_digits_def digit_val_char)
  next
    case False
    with 1 have "int_of_digits (show_nat (n div 10)) = n div 10" by simp
    with False show ?thesis
      by (subst show_nat.simps) (simp add: int_of_digits_snoc digit_val_char)
  qed
qed

lemma show_nat_digits: "list_all is_digit (show_nat n)"
proof (induction n rule: show_nat.induct)
  case (1 n)
  then show ?case
    by (subst show_nat.simps) (simp add: is_digit_char)
qed

text \<open>\<open>s.split(sep)\<close> for a separator that is not empty.\<close>

function split_str_from :: "string \<Rightarrow> string \<Rightarrow> string \<Rightarrow> string list" where
  "split_str_from sep acc [] = [rev acc]"
| "split_str_from sep acc (c # cs) =
     (if prefix sep (c # cs) then rev acc # split_str_from sep [] (drop (length sep - 1) cs)
      else split_str_from sep (c # acc) cs)"
  by pat_completeness auto
termination by (relation "measure (\<lambda>(sep, acc, s). length s)") auto

definition split_str :: "string \<Rightarrow> string \<Rightarrow> string list" where
  "split_str sep s = split_str_from sep [] s"

definition lstrip :: "char \<Rightarrow> string \<Rightarrow> string" where
  "lstrip c s = dropWhile (\<lambda>x. x = c) s"

text \<open>\<open>int(s)\<close>: spaces around, a sign, and underscores between digits are allowed.\<close>

definition unsigned_int :: "string \<Rightarrow> exn + int" where
  "unsigned_int d =
     (let parts = split_on (CHR ''_'') d
      in if list_all str_isdigit parts then Inr (int (int_of_digits (concat parts))) else Inl ValueError)"

definition py_int :: "string \<Rightarrow> exn + int" where
  "py_int s =
     (case strip s of
        [] \<Rightarrow> Inl ValueError
      | c # cs \<Rightarrow>
          if c = CHR ''-'' then map_sum id uminus (unsigned_int cs)
          else if c = CHR ''+'' then unsigned_int cs
          else unsigned_int (c # cs))"

text \<open>\<open>a or b\<close> of optional strings: \<open>None\<close> and the empty string are false.\<close>

definition str_or :: "string option \<Rightarrow> string option \<Rightarrow> string option" where
  "str_or a b = (case a of Some (c # cs) \<Rightarrow> a | _ \<Rightarrow> b)"

definition truthy :: "string option \<Rightarrow> bool" where
  "truthy a = (case a of Some (c # cs) \<Rightarrow> True | _ \<Rightarrow> False)"

lemma str_or_truthy: "str_or a b = (if truthy a then a else b)"
  by (simp add: str_or_def truthy_def split: option.splits list.splits)

section \<open>Paths\<close>

text \<open>\<open>os.path.join(a, b)\<close> and \<open>os.path.basename\<close> of the POSIX path module.\<close>

definition path_join :: "string \<Rightarrow> string \<Rightarrow> string" where
  "path_join a b =
     (if prefix ''/'' b then b
      else if a = [] \<or> suffix ''/'' a then a @ b
      else a @ ''/'' @ b)"

definition basename :: "string \<Rightarrow> string" where
  "basename p = last (split_on (CHR ''/'') p)"

end
