(* ===== verification/Byte_Codec.thy ===== *)
theory Byte_Codec
  imports Prelude
begin

text \<open>
  Byte layouts: little-endian integers as Python's \<open>struct\<close> module and \<open>ctypes\<close> lay them out on the
  x86-64 hosts the scripts run on, and the interface \<open>codec\<close> of a self-delimiting byte format, whose
  client lemma reads back any sequence of records written one after the other.
\<close>

type_synonym byte = "8 word"

section \<open>Little-endian integers\<close>

fun le_bytes :: "nat \<Rightarrow> nat \<Rightarrow> byte list" where
  "le_bytes 0 x = []"
| "le_bytes (Suc n) x = word_of_nat (x mod 256) # le_bytes n (x div 256)"

fun le_nat :: "byte list \<Rightarrow> nat" where
  "le_nat [] = 0"
| "le_nat (b # bs) = unat b + 256 * le_nat bs"

lemma length_le_bytes [simp]: "length (le_bytes n x) = n"
  by (induction n arbitrary: x) auto

lemma unat_byte_mod: "unat (word_of_nat (x mod 256) :: byte) = x mod 256"
  by (simp add: unat_of_nat)

lemma unat_byte_less [simp]: "unat (b :: byte) < 256"
  using unsigned_less [of b, where ?'a = nat] by simp

lemma le_nat_bytes: "le_nat (le_bytes n x) = x mod 256 ^ n"
proof (induction n arbitrary: x)
  case 0
  then show ?case by simp
next
  case (Suc n)
  have "x mod 256 + 256 * (x div 256 mod 256 ^ n) = x mod (256 * 256 ^ n)"
    by (simp add: mod_mult2_eq)
  with Suc show ?case by (simp add: unat_byte_mod)
qed

lemma le_nat_bytes_id: "x < 256 ^ n \<Longrightarrow> le_nat (le_bytes n x) = x"
  by (simp add: le_nat_bytes)

lemma le_bytes_nat: "le_bytes (length bs) (le_nat bs) = bs"
proof (induction bs)
  case Nil
  then show ?case by simp
next
  case (Cons b bs)
  have "(unat b + 256 * le_nat bs) mod 256 = unat b" by simp
  moreover have "(unat b + 256 * le_nat bs) div 256 = le_nat bs" by simp
  ultimately show ?case using Cons by simp
qed

lemma le_nat_inject: "length xs = length ys \<Longrightarrow> le_nat xs = le_nat ys \<longleftrightarrow> xs = ys"
  by (metis le_bytes_nat)

lemma le_nat_less: "le_nat bs < 256 ^ length bs"
proof (induction bs)
  case Nil
  then show ?case by simp
next
  case (Cons b bs)
  have "unat b + 256 * le_nat bs < 256 * (1 + le_nat bs)"
    using unat_byte_less [of b] by (simp only: distrib_left)
  also have "\<dots> \<le> 256 * 256 ^ length bs"
    using Cons by (simp only: mult_le_mono2 Suc_leI plus_1_eq_Suc)
  finally show ?case by simp
qed

text \<open>Cutting a fixed-width field off the front of a byte list.\<close>

definition cut :: "nat \<Rightarrow> byte list \<Rightarrow> (byte list \<times> byte list) option" where
  "cut n bs = (if length bs < n then None else Some (take n bs, drop n bs))"

lemma cut_append [simp]: "length xs = n \<Longrightarrow> cut n (xs @ ys) = Some (xs, ys)"
  by (simp add: cut_def)

definition cut_le :: "nat \<Rightarrow> byte list \<Rightarrow> (nat \<times> byte list) option" where
  "cut_le n bs = map_option (\<lambda>(x, r). (le_nat x, r)) (cut n bs)"

lemma cut_le_append [simp]: "x < 256 ^ n \<Longrightarrow> cut_le n (le_bytes n x @ ys) = Some (x, ys)"
  by (simp add: cut_le_def le_nat_bytes)

section \<open>Self-delimiting formats\<close>

text \<open>Reading records until the input is used up; the fuel bounds the number of records.\<close>

fun read_all :: "nat \<Rightarrow> (byte list \<Rightarrow> ('a \<times> byte list) option) \<Rightarrow> byte list \<Rightarrow> 'a list option" where
  "read_all fuel dec [] = Some []"
| "read_all 0 dec (b # bs) = None"
| "read_all (Suc fuel) dec (b # bs) =
     (case dec (b # bs) of
        None \<Rightarrow> None
      | Some (x, rest) \<Rightarrow> map_option ((#) x) (read_all fuel dec rest))"

locale codec =
  fixes enc :: "'a \<Rightarrow> byte list"
    and dec :: "byte list \<Rightarrow> ('a \<times> byte list) option"
    and ok :: "'a \<Rightarrow> bool"
  assumes dec_enc: "ok x \<Longrightarrow> dec (enc x @ rest) = Some (x, rest)"
    and enc_ne: "ok x \<Longrightarrow> enc x \<noteq> []"
begin

lemma enc_inject: "ok x \<Longrightarrow> ok y \<Longrightarrow> enc x = enc y \<Longrightarrow> x = y"
  by (metis dec_enc option.inject prod.inject)

text \<open>The format is prefix-free, so a stream of records has one reading only.\<close>

lemma stream_unique: "ok x \<Longrightarrow> ok y \<Longrightarrow> enc x @ r = enc y @ s \<Longrightarrow> x = y \<and> r = s"
  by (metis dec_enc option.inject prod.inject)

lemma read_all_stream:
  "list_all ok xs \<Longrightarrow> length xs \<le> fuel \<Longrightarrow> read_all fuel dec (concat (map enc xs)) = Some xs"
proof (induction xs arbitrary: fuel)
  case Nil
  then show ?case by simp
next
  case (Cons x xs)
  then obtain f where fuel: "fuel = Suc f" by (cases fuel) auto
  obtain b bs where ne: "enc x @ concat (map enc xs) = b # bs"
    using enc_ne Cons.prems(1) by (cases "enc x") auto
  have "dec (enc x @ concat (map enc xs)) = Some (x, concat (map enc xs))"
    using Cons.prems(1) by (simp add: dec_enc)
  then show ?case
    using Cons fuel ne by simp
qed

lemma length_stream: "list_all ok xs \<Longrightarrow> length xs \<le> length (concat (map enc xs))"
proof (induction xs)
  case Nil
  then show ?case by simp
next
  case (Cons x xs)
  then have "Suc 0 \<le> length (enc x)" using enc_ne [of x] by (simp add: Suc_le_eq)
  with Cons show ?case by simp
qed

text \<open>As many steps as there are bytes are always enough.\<close>

lemma read_stream:
  "list_all ok xs \<Longrightarrow>
   read_all (length (concat (map enc xs))) dec (concat (map enc xs)) = Some xs"
  by (simp add: read_all_stream length_stream)

end

text \<open>A fixed-width little-endian integer is such a format.\<close>

interpretation le32: codec "le_bytes 4" "cut_le 4" "\<lambda>x. x < 2 ^ 32"
  by unfold_locales (auto dest: arg_cong [where f = length])

interpretation le64: codec "le_bytes 8" "cut_le 8" "\<lambda>x. x < 2 ^ 64"
  by unfold_locales (auto dest: arg_cong [where f = length])

end
