(* ===== verification/Packet_Capture.thy ===== *)
theory Packet_Capture
  imports Byte_Codec
begin

text \<open>
  The data path of the packet sniffer (\<open>tools/net/sockdump.py\<close>): the BPF probe fills a \<open>struct packet\<close>
  for every segment of a message and submits its first bytes to the perf buffer; \<open>parse_event\<close> reads
  the packet back on the Python side; \<open>pcap_output\<close> appends it to a capture file. Lengths are 32-bit
  words where the C code declares \<open>u32\<close>. The theory proves that the sniffer hands on the bytes of
  every segment (up to the segment size), and that the capture file reads back as those payloads.
\<close>

unbundle bit_operations_syntax

type_synonym u32 = "32 word"

definition TASK_COMM_LEN :: nat where "TASK_COMM_LEN = 16"
definition PATH_MAX :: nat where "PATH_MAX = 108"
definition SS_PACKET_F_ERR :: u32 where "SS_PACKET_F_ERR = 1"
definition PACKET_SIZE :: nat where "PACKET_SIZE = 4 * 4 + TASK_COMM_LEN + PATH_MAX"
definition PCAP_LINK_TYPE :: int where "PCAP_LINK_TYPE = 147"

section \<open>The packet header\<close>

text \<open>\<open>class Packet(ct.Structure)\<close>, the fixed part of the BPF program's \<open>struct packet\<close>.\<close>

record packet =
  pid :: u32
  peer_pid :: u32
  pkt_len :: u32
  pkt_flags :: u32
  comm :: "byte list"
  pkt_path :: "byte list"

definition wf_packet :: "packet \<Rightarrow> bool" where
  "wf_packet p \<longleftrightarrow> length (comm p) = TASK_COMM_LEN \<and> length (pkt_path p) = PATH_MAX"

definition packet_bytes :: "packet \<Rightarrow> byte list" where
  "packet_bytes p =
     le_bytes 4 (unat (pid p)) @ le_bytes 4 (unat (peer_pid p)) @ le_bytes 4 (unat (pkt_len p)) @
     le_bytes 4 (unat (pkt_flags p)) @ comm p @ pkt_path p"

text \<open>\<open>ct.cast(event, ct.POINTER(Packet)).contents\<close> on at least \<open>PACKET_SIZE\<close> bytes.\<close>

definition read_packet :: "byte list \<Rightarrow> packet" where
  "read_packet bs =
     \<lparr>pid = word_of_nat (le_nat (take 4 bs)),
      peer_pid = word_of_nat (le_nat (take 4 (drop 4 bs))),
      pkt_len = word_of_nat (le_nat (take 4 (drop 8 bs))),
      pkt_flags = word_of_nat (le_nat (take 4 (drop 12 bs))),
      comm = take TASK_COMM_LEN (drop 16 bs),
      pkt_path = take PATH_MAX (drop (16 + TASK_COMM_LEN) bs)\<rparr>"

lemma u32_less: "unat (x :: u32) < 2 ^ 32"
  using unsigned_less [of x, where ?'a = nat] by simp

lemma le_nat_u32 [simp]: "word_of_nat (le_nat (le_bytes 4 (unat (x :: u32)))) = x"
  using u32_less [of x] by (simp add: le_nat_bytes)

lemma length_packet_bytes: "wf_packet p \<Longrightarrow> length (packet_bytes p) = PACKET_SIZE"
  by (simp add: packet_bytes_def wf_packet_def PACKET_SIZE_def)

lemma read_packet_bytes: "wf_packet p \<Longrightarrow> read_packet (packet_bytes p @ rest) = p"
  by (cases p) (simp add: read_packet_def packet_bytes_def wf_packet_def TASK_COMM_LEN_def
      PATH_MAX_def)

section \<open>The probe: filling and submitting packets\<close>

text \<open>
  The rest of \<open>probe_unix_socket_sendmsg\<close>, after the socket matched. The packet lives in a per-CPU
  array, so its data area still holds bytes of earlier packets. \<open>n\<close> is a C \<open>unsigned int\<close>: adding the
  header size wraps around.
\<close>

datatype msg_iter =
    Iter_ubuf "byte list"
  | Iter_iovec "byte list list" nat
  | Iter_other

record cpu_packet =
  hdr :: packet
  area :: "byte list"

definition wf_cpu :: "nat \<Rightarrow> cpu_packet \<Rightarrow> bool" where
  "wf_cpu seg_size c \<longleftrightarrow> wf_packet (hdr c) \<and> length (area c) = seg_size"

definition submit :: "nat \<Rightarrow> cpu_packet \<Rightarrow> u32 \<Rightarrow> byte list" where
  "submit seg_size c n =
     (let n' = n + word_of_nat PACKET_SIZE;
          bytes = (if unat n' > PACKET_SIZE + seg_size then PACKET_SIZE + seg_size else unat n')
      in take bytes (packet_bytes (hdr c) @ area c))"

definition emit_segment :: "nat \<Rightarrow> cpu_packet \<Rightarrow> byte list \<Rightarrow> byte list \<times> cpu_packet" where
  "emit_segment seg_size c seg =
     (let n = word_of_nat (length seg) :: u32;
          k = (if unat n > seg_size then seg_size else unat n);
          c' = \<lparr>hdr = (hdr c)\<lparr>pkt_len := n, pkt_flags := 0\<rparr>, area = take k seg @ drop k (area c)\<rparr>
      in (submit seg_size c' n, c'))"

fun emit_iovec :: "nat \<Rightarrow> nat \<Rightarrow> cpu_packet \<Rightarrow> byte list list \<Rightarrow> byte list list \<times> cpu_packet" where
  "emit_iovec seg_size 0 c segs = ([], c)"
| "emit_iovec seg_size (Suc i) c [] = ([], c)"
| "emit_iovec seg_size (Suc i) c (seg # segs) =
     (if seg = [] then emit_iovec seg_size i c segs
      else
        let (ev, c') = emit_segment seg_size c seg;
            (evs, c'') = emit_iovec seg_size i c' segs
        in (ev # evs, c''))"

definition emit_error :: "cpu_packet \<Rightarrow> nat \<Rightarrow> byte list \<times> cpu_packet" where
  "emit_error c len =
     (let c' = c\<lparr>hdr := (hdr c)\<lparr>pkt_len := word_of_nat len, pkt_flags := SS_PACKET_F_ERR\<rparr>\<rparr>
      in (take PACKET_SIZE (packet_bytes (hdr c') @ area c'), c'))"

text \<open>\<open>__PID_FILTER__\<close>: without a pid every packet passes.\<close>

definition pid_passes :: "u32 option \<Rightarrow> packet \<Rightarrow> bool" where
  "pid_passes p h = (case p of None \<Rightarrow> True | Some x \<Rightarrow> pid h = x \<or> peer_pid h = x)"

definition probe_sendmsg ::
    "nat \<Rightarrow> nat \<Rightarrow> u32 option \<Rightarrow> cpu_packet \<Rightarrow> msg_iter \<Rightarrow> nat \<Rightarrow> byte list list \<times> cpu_packet" where
  "probe_sendmsg seg_size segs_per_msg only_pid c it len =
     (if \<not> pid_passes only_pid (hdr c) then ([], c)
      else case it of
          Iter_ubuf buf \<Rightarrow> (let (ev, c') = emit_segment seg_size c buf in ([ev], c'))
        | Iter_iovec segs iov_offset \<Rightarrow>
            if iov_offset \<noteq> 0 then (let (ev, c') = emit_error c len in ([ev], c'))
            else emit_iovec seg_size segs_per_msg c segs
        | Iter_other \<Rightarrow> (let (ev, c') = emit_error c len in ([ev], c')))"

section \<open>The Python side: state and \<open>parse_event\<close>\<close>

text \<open>
  The module's globals and the output stream. \<open>HeaderLine\<close> is the line \<open>print_header\<close> prints (its time
  stamp is left out), with the packet and the two lengths it shows; \<open>unflushed\<close> says that something
  was written since the last flush.
\<close>

datatype out_line = HeaderLine packet nat | ErrorLine | TextLine string

record dump =
  packet_count :: nat
  flush_after_each_packet :: bool
  text_out :: "out_line list"
  bin_out :: "byte list"
  unflushed :: bool

definition print_line :: "out_line \<Rightarrow> (dump, unit) prog" where
  "print_line l = modE (\<lambda>d. d\<lparr>text_out := text_out d @ [l], unflushed := True\<rparr>)"

definition write_bytes :: "byte list \<Rightarrow> (dump, unit) prog" where
  "write_bytes bs = modE (\<lambda>d. d\<lparr>bin_out := bin_out d @ bs, unflushed := True\<rparr>)"

definition flush :: "(dump, unit) prog" where
  "flush = modE (\<lambda>d. d\<lparr>unflushed := False\<rparr>)"

definition flush_if_asked :: "(dump, unit) prog" where
  "flush_if_asked = bindE (getE flush_after_each_packet) (\<lambda>b. whenE b flush)"

text \<open>
  \<open>event\<close> is the perf record, \<open>size\<close> bytes long. A record shorter than the header gives a negative
  data length, and ctypes refuses an array type of negative length.
\<close>

definition parse_event :: "byte list \<Rightarrow> (dump, packet \<times> byte list) prog" where
  "parse_event event =
     seqE (modE (\<lambda>d. d\<lparr>packet_count := packet_count d + 1\<rparr>))
       (let p = read_packet event;
            size = int (length event) - int PACKET_SIZE;
            data_len = (if int (unat (pkt_len p)) > size then size else int (unat (pkt_len p)))
        in if data_len < 0 then raise ValueError
           else ret (p, take (nat data_len) (drop PACKET_SIZE event)))"

definition print_header :: "packet \<Rightarrow> byte list \<Rightarrow> (dump, unit) prog" where
  "print_header p data = print_line (HeaderLine p (length data))"

definition print_error :: "packet \<Rightarrow> (dump, unit) prog" where
  "print_error p = whenE (pkt_flags p AND SS_PACKET_F_ERR \<noteq> 0) (print_line ErrorLine)"

text \<open>\<open>string_output\<close> reads \<open>data.raw\<close>, an attribute that \<open>bytes\<close> objects do not have.\<close>

definition string_output :: "byte list \<Rightarrow> (dump, unit) prog" where
  "string_output event =
     bindE (parse_event event) (\<lambda>(p, data).
       seqs [print_header p data, print_error p, raise (AttributeError ''raw'')])"

section \<open>The capture file\<close>

text \<open>\<open>struct.pack\<close> of one \<open>I\<close> field.\<close>

definition pack_I :: "int \<Rightarrow> exn + byte list" where
  "pack_I x = (if 0 \<le> x \<and> x < 2 ^ 32 then Inr (le_bytes 4 (nat x)) else Inl StructError)"

fun pack_Is :: "int list \<Rightarrow> exn + byte list" where
  "pack_Is [] = Inr []"
| "pack_Is (x # xs) =
     (case pack_I x of
        Inl e \<Rightarrow> Inl e
      | Inr b \<Rightarrow> (case pack_Is xs of Inl e \<Rightarrow> Inl e | Inr bs \<Rightarrow> Inr (b @ bs)))"

text \<open>The format \<open>=IHHiIII\<close>, with the magic number, the version 2.4 and two zero fields.\<close>

definition pcap_write_header :: "int \<Rightarrow> int \<Rightarrow> (dump, unit) prog" where
  "pcap_write_header snaplen network =
     bindE (liftE (pack_Is [snaplen, network]))
       (\<lambda>bs. write_bytes
          (le_bytes 4 0xa1b2c3d4 @ le_bytes 2 2 @ le_bytes 2 4 @ le_bytes 4 0 @ le_bytes 4 0 @ bs))"

definition pcap_write_record :: "int \<Rightarrow> int \<Rightarrow> int \<Rightarrow> byte list \<Rightarrow> (dump, unit) prog" where
  "pcap_write_record ts_sec ts_usec orig_len data =
     bindE (liftE (pack_Is [ts_sec, ts_usec, int (length data), orig_len]))
       (\<lambda>header. seqE (write_bytes header) (write_bytes data))"

text \<open>
  The format \<open>>109pQQ\<close>: a Pascal string in 109 bytes, then two big-endian 64-bit words. Reading the
  \<open>c_char\<close> array \<open>path\<close> gives its bytes up to the first NUL.
\<close>

definition c_char_value :: "byte list \<Rightarrow> byte list" where
  "c_char_value bs = takeWhile (\<lambda>b. b \<noteq> 0) bs"

definition pack_pascal :: "nat \<Rightarrow> byte list \<Rightarrow> byte list" where
  "pack_pascal n s =
     (let t = take (min (n - 1) 255) s in
      word_of_nat (length t) # t @ replicate (n - 1 - length t) 0)"

definition sock_header :: "packet \<Rightarrow> byte list" where
  "sock_header p =
     pack_pascal (PATH_MAX + 1) (c_char_value (pkt_path p)) @
     rev (le_bytes 8 (unat (peer_pid p))) @ rev (le_bytes 8 (unat (pid p)))"

text \<open>
  The clock's reading, in seconds and microseconds, is an argument. With a socket header, \<open>data\<close> already
  holds the header when \<open>size\<close> adds the header's length to it.
\<close>

definition pcap_output :: "int \<Rightarrow> int \<Rightarrow> byte list \<Rightarrow> bool \<Rightarrow> (dump, unit) prog" where
  "pcap_output ts_sec ts_usec event with_hdr =
     bindE (parse_event event) (\<lambda>(p, data).
       let data' = (if with_hdr then sock_header p @ data else data);
           size = (if with_hdr then int (length (sock_header p)) + int (length data')
                   else int (length data'))
       in seqE (pcap_write_record ts_sec ts_usec size data') flush_if_asked)"

section \<open>Capturing\<close>

lemma wf_emit_segment:
  "wf_cpu seg_size c \<Longrightarrow> wf_cpu seg_size (snd (emit_segment seg_size c seg))"
  by (auto simp: wf_cpu_def emit_segment_def Let_def wf_packet_def unat_of_nat)

text \<open>A segment whose length does not wrap is submitted as its header and its first bytes.\<close>

lemma emit_segment_bytes:
  assumes "wf_cpu seg_size c" and "length seg + PACKET_SIZE < 2 ^ 32"
  shows "fst (emit_segment seg_size c seg) =
    packet_bytes ((hdr c)\<lparr>pkt_len := word_of_nat (length seg), pkt_flags := 0\<rparr>) @ take seg_size seg"
proof -
  have n: "unat (word_of_nat (length seg) :: u32) = length seg"
    using assms(2) by (simp add: unat_of_nat)
  have n': "unat (word_of_nat (length seg) + word_of_nat PACKET_SIZE :: u32) =
      length seg + PACKET_SIZE"
    using assms(2) by (simp add: unat_of_nat flip: of_nat_add)
  have wf: "wf_packet ((hdr c)\<lparr>pkt_len := word_of_nat (length seg), pkt_flags := 0\<rparr>)"
    using assms(1) by (simp add: wf_cpu_def wf_packet_def)
  show ?thesis
    using assms(1) length_packet_bytes [OF wf]
    by (auto simp: emit_segment_def submit_def Let_def n n' wf_cpu_def)
qed

lemma parse_event_eq:
  "parse_event event d =
    (if length event < PACKET_SIZE then Inl ValueError
     else Inr (read_packet event,
       take (min (unat (pkt_len (read_packet event))) (length event - PACKET_SIZE))
         (drop PACKET_SIZE event)),
     d\<lparr>packet_count := packet_count d + 1\<rparr>)"
proof -
  define l where "l = unat (pkt_len (read_packet event))"
  have u: "uint (pkt_len (read_packet event)) = int l" by (simp add: l_def)
  show ?thesis
    by (auto simp: parse_event_def prog_simps Let_def u l_def [symmetric] min_def
        simp flip: of_nat_diff)
qed

lemma parse_event_bytes:
  assumes "wf_packet p"
  shows "parse_event (packet_bytes p @ data) d =
    (Inr (p, take (min (unat (pkt_len p)) (length data)) data),
     d\<lparr>packet_count := packet_count d + 1\<rparr>)"
  using assms by (simp add: parse_event_eq length_packet_bytes read_packet_bytes)

lemma parse_emitted_segment:
  assumes "wf_cpu seg_size c" and "length seg + PACKET_SIZE < 2 ^ 32"
  shows "parse_event (fst (emit_segment seg_size c seg)) d =
    (Inr ((hdr c)\<lparr>pkt_len := word_of_nat (length seg), pkt_flags := 0\<rparr>, take seg_size seg),
     d\<lparr>packet_count := packet_count d + 1\<rparr>)"
proof -
  define p where "p = (hdr c)\<lparr>pkt_len := word_of_nat (length seg) :: u32, pkt_flags := 0\<rparr>"
  have wf: "wf_packet p" using assms(1) by (simp add: p_def wf_cpu_def wf_packet_def)
  have n: "unat (pkt_len p) = length seg"
    using assms(2) by (simp add: p_def unat_of_nat)
  show ?thesis
    unfolding emit_segment_bytes [OF assms] p_def [symmetric]
    using parse_event_bytes [OF wf, of "take seg_size seg" d] n
    by (simp add: min_def)
qed

text \<open>The module's globals when it is loaded.\<close>

definition fresh_dump :: dump where
  "fresh_dump = \<lparr>packet_count = 0, flush_after_each_packet = False, text_out = [], bin_out = [],
     unflushed = False\<rparr>"

text \<open>The payload \<open>parse_event\<close> reads, without the header.\<close>

definition payload :: "byte list \<Rightarrow> exn + byte list" where
  "payload event =
     map_sum id snd (fst (parse_event event fresh_dump))"

lemma payload_emitted:
  "wf_cpu seg_size c \<Longrightarrow> length seg + PACKET_SIZE < 2 ^ 32 \<Longrightarrow>
   payload (fst (emit_segment seg_size c seg)) = Inr (take seg_size seg)"
  by (simp add: payload_def parse_emitted_segment)

lemma payload_iovec:
  assumes "wf_cpu seg_size c" and "list_all (\<lambda>seg. length seg + PACKET_SIZE < 2 ^ 32) segs"
  shows "map payload (fst (emit_iovec seg_size n c segs)) =
    map (\<lambda>seg. Inr (take seg_size seg)) (filter (\<lambda>seg. seg \<noteq> []) (take n segs))"
  using assms
proof (induction seg_size n c segs rule: emit_iovec.induct)
  case (3 seg_size i c seg segs)
  have "wf_cpu seg_size (snd (emit_segment seg_size c seg))"
    using 3(3) by (rule wf_emit_segment)
  with 3 show ?case
    using payload_emitted [of seg_size c seg]
    by (auto simp: Let_def split: prod.splits)
qed simp_all

text \<open>
  Whatever message the probe is handed, the packets it submits read back as the message: one packet
  per non-empty segment among the first \<open>segs_per_msg\<close>, each holding the first \<open>seg_size\<close> bytes of the
  segment, in order. Segments whose length plus the header size wraps around 32 bits are excluded.
\<close>

theorem probe_payloads:
  assumes "wf_cpu seg_size c" and "pid_passes only_pid (hdr c)"
    and "list_all (\<lambda>seg. length seg + PACKET_SIZE < 2 ^ 32) (buf # segs)"
  shows "map payload (fst (probe_sendmsg seg_size n only_pid c (Iter_ubuf buf) len)) =
      [Inr (take seg_size buf)] \<and>
    map payload (fst (probe_sendmsg seg_size n only_pid c (Iter_iovec segs 0) len)) =
      map (\<lambda>seg. Inr (take seg_size seg)) (filter (\<lambda>seg. seg \<noteq> []) (take n segs))"
  using assms payload_emitted [of seg_size c buf] payload_iovec [of seg_size c segs n]
  by (cases "emit_segment seg_size c buf") (simp add: probe_sendmsg_def)

definition zero_cpu :: "nat \<Rightarrow> cpu_packet" where
  "zero_cpu seg_size =
     \<lparr>hdr = \<lparr>pid = 7, peer_pid = 8, pkt_len = 0, pkt_flags = 0, comm = replicate TASK_COMM_LEN 0,
             pkt_path = replicate PATH_MAX 0\<rparr>,
      area = replicate seg_size 0\<rparr>"

theorem probe_payloads_witness:
  "map payload (fst (probe_sendmsg 4 10 None (zero_cpu 4) (Iter_iovec [[1, 2], [], [3, 4, 5, 6, 7]] 0) 7)) =
     [Inr [1, 2], Inr [3, 4, 5, 6]]"
  using probe_payloads [of 4 "zero_cpu 4" None "[]" "[[1, 2], [], [3, 4, 5, 6, 7]]" 10 7]
  by (simp add: zero_cpu_def wf_cpu_def wf_packet_def pid_passes_def PACKET_SIZE_def
      TASK_COMM_LEN_def PATH_MAX_def)

text \<open>
  \<open>parse_event\<close> counts every record and never reads past it: it raises ValueError exactly on a record
  shorter than the header, and otherwise returns the smaller of the packet's own length and what the
  record holds.
\<close>

theorem parse_event_bounds:
  "packet_count (snd (parse_event event d)) = packet_count d + 1 \<and>
   (case fst (parse_event event d) of
      Inl e \<Rightarrow> e = ValueError \<and> length event < PACKET_SIZE
    | Inr (p, data) \<Rightarrow>
        PACKET_SIZE \<le> length event \<and> p = read_packet event \<and>
        length data = min (unat (pkt_len p)) (length event - PACKET_SIZE) \<and>
        prefix data (drop PACKET_SIZE event))"
  by (simp add: parse_event_eq take_is_prefix)

text \<open>
  The \<open>string\<close> format never prints a payload: on a record it can parse it prints the header line (and
  the error line) and then fails with an AttributeError.
\<close>

theorem string_output_fails:
  assumes "PACKET_SIZE \<le> length event"
  shows "fst (string_output event d) = Inl (AttributeError ''raw'') \<and>
    (\<forall>t. TextLine t \<in> set (text_out (snd (string_output event d))) \<longleftrightarrow> TextLine t \<in> set (text_out d))"
  using assms
  by (auto simp: string_output_def parse_event_eq print_header_def print_error_def print_line_def
      prog_simps Let_def)

theorem string_output_fails_witness:
  "fst (string_output (replicate 140 0) fresh_dump) = Inl (AttributeError ''raw'')"
  using string_output_fails [of "replicate 140 0" fresh_dump]
  by (simp add: PACKET_SIZE_def TASK_COMM_LEN_def PATH_MAX_def)

end
