(* ===== verification/Pcap_File.thy ===== *)
theory Pcap_File
  imports Packet_Capture
begin

text \<open>
  The capture file the sniffer writes (\<open>tools/net/sockdump.py\<close>): a reader of the pcap format as its
  specification, and the proof that the file the program writes reads back as the captured payloads,
  from the probe to the file.
\<close>

section \<open>Reading a capture file\<close>

type_synonym pcap_record = "nat \<times> nat \<times> nat \<times> byte list"

definition record_bytes :: "pcap_record \<Rightarrow> byte list" where
  "record_bytes = (\<lambda>(sec, usec, orig, data).
     le_bytes 4 sec @ le_bytes 4 usec @ le_bytes 4 (length data) @ le_bytes 4 orig @ data)"

definition wf_record :: "pcap_record \<Rightarrow> bool" where
  "wf_record = (\<lambda>(sec, usec, orig, data).
     sec < 2 ^ 32 \<and> usec < 2 ^ 32 \<and> orig < 2 ^ 32 \<and> length data < 2 ^ 32)"

definition read_record :: "byte list \<Rightarrow> (pcap_record \<times> byte list) option" where
  "read_record bs =
     Option.bind (cut_le 4 bs) (\<lambda>(sec, bs1).
     Option.bind (cut_le 4 bs1) (\<lambda>(usec, bs2).
     Option.bind (cut_le 4 bs2) (\<lambda>(incl, bs3).
     Option.bind (cut_le 4 bs3) (\<lambda>(orig, bs4).
     Option.bind (cut incl bs4) (\<lambda>(data, rest). Some ((sec, usec, orig, data), rest))))))"

interpretation pcap_rec: codec record_bytes read_record wf_record
proof unfold_locales
  fix x rest
  assume "wf_record x"
  then show "read_record (record_bytes x @ rest) = Some (x, rest)"
    by (auto simp: read_record_def record_bytes_def wf_record_def)
next
  fix x
  show "record_bytes x \<noteq> []"
    by (auto simp: record_bytes_def split: prod.splits dest: arg_cong [where f = length])
qed

text \<open>
  The whole file: the magic number, the version, the snap length and the link type, then the records
  to the end of the file.
\<close>

definition read_pcap :: "byte list \<Rightarrow> (nat \<times> nat \<times> pcap_record list) option" where
  "read_pcap bs =
     Option.bind (cut_le 4 bs) (\<lambda>(magic, bs1).
     Option.bind (cut 12 bs1) (\<lambda>(version, bs2).
     Option.bind (cut_le 4 bs2) (\<lambda>(snaplen, bs3).
     Option.bind (cut_le 4 bs3) (\<lambda>(link, bs4).
       if magic = 0xa1b2c3d4 \<and> version = [2, 0, 4, 0, 0, 0, 0, 0, 0, 0, 0, 0]
       then map_option (\<lambda>rs. (snaplen, link, rs)) (read_all (length bs4) read_record bs4)
       else None))))"

section \<open>Writing one\<close>

text \<open>
  The main program in pcap mode: it writes the header, then each record the perf buffer delivers is
  handed to \<open>pcap_output\<close>. A callback that raises does not stop the polling loop.
\<close>

definition deliver :: "bool \<Rightarrow> int \<times> int \<times> byte list \<Rightarrow> dump \<Rightarrow> dump" where
  "deliver with_hdr = (\<lambda>(sec, usec, event) d. snd (pcap_output sec usec event with_hdr d))"

definition pcap_main :: "int \<Rightarrow> bool \<Rightarrow> bool \<Rightarrow> (int \<times> int \<times> byte list) list \<Rightarrow> dump \<Rightarrow> dump" where
  "pcap_main seg_size raw_mode flush_mode events d =
     (let d1 = d\<lparr>flush_after_each_packet := flush_mode\<rparr>
      in case pcap_write_header seg_size PCAP_LINK_TYPE d1 of
           (Inl e, d2) \<Rightarrow> d2
         | (Inr _, d2) \<Rightarrow> fold (deliver (\<not> raw_mode)) events d2)"

text \<open>The fields of a captured event: what the clock reads, and what \<open>parse_event\<close> returns.\<close>

definition wf_clock :: "int \<times> int \<Rightarrow> bool" where
  "wf_clock t = (0 \<le> fst t \<and> fst t < 2 ^ 32 \<and> 0 \<le> snd t \<and> snd t < 10 ^ 6)"

lemma pack_Is_ok:
  "0 \<le> a \<Longrightarrow> a < 2 ^ 32 \<Longrightarrow> 0 \<le> b \<Longrightarrow> b < 2 ^ 32 \<Longrightarrow> 0 \<le> c \<Longrightarrow> c < 2 ^ 32 \<Longrightarrow>
   0 \<le> e \<Longrightarrow> e < 2 ^ 32 \<Longrightarrow>
   pack_Is [a, b, c, e] =
     Inr (le_bytes 4 (nat a) @ le_bytes 4 (nat b) @ le_bytes 4 (nat c) @ le_bytes 4 (nat e))"
  by (simp add: pack_I_def)

lemma write_record_ok:
  assumes "wf_clock (sec, usec)" and "int (length data) < 2 ^ 32" and "0 \<le> orig" and "orig < 2 ^ 32"
  shows "pcap_write_record sec usec orig data d =
    (Inr (), d\<lparr>bin_out := bin_out d @ record_bytes (nat sec, nat usec, nat orig, data),
       unflushed := True\<rparr>)"
proof -
  have "pack_Is [sec, usec, int (length data), orig] =
      Inr (le_bytes 4 (nat sec) @ le_bytes 4 (nat usec) @ le_bytes 4 (length data) @
        le_bytes 4 (nat orig))"
    using assms by (subst pack_Is_ok) (simp_all add: wf_clock_def)
  then show ?thesis
    by (simp add: pcap_write_record_def write_bytes_def prog_simps record_bytes_def del: pack_Is.simps)
qed

text \<open>One delivered event in raw mode: its payload becomes one record, flushed when asked.\<close>

lemma deliver_raw:
  assumes "payload event = Inr data" and "wf_clock (sec, usec)" and "int (length data) < 2 ^ 32"
  shows "deliver False (sec, usec, event) d =
    d\<lparr>packet_count := packet_count d + 1,
      bin_out := bin_out d @ record_bytes (nat sec, nat usec, length data, data),
      unflushed := \<not> flush_after_each_packet d\<rparr>"
proof -
  from assms(1) obtain p where "parse_event event d =
      (Inr (p, data), d\<lparr>packet_count := packet_count d + 1\<rparr>)"
    by (auto simp: payload_def parse_event_eq split: if_splits)
  then show ?thesis
    using write_record_ok [OF assms(2,3), of "int (length data)"] assms(3)
    by (simp add: deliver_def pcap_output_def prog_simps flush_if_asked_def flush_def)
qed

definition event_record :: "int \<times> int \<times> byte list \<Rightarrow> pcap_record" where
  "event_record = (\<lambda>(sec, usec, event).
     (case payload event of Inl _ \<Rightarrow> (nat sec, nat usec, 0, [])
      | Inr data \<Rightarrow> (nat sec, nat usec, length data, data)))"

definition wf_event :: "int \<times> int \<times> byte list \<Rightarrow> bool" where
  "wf_event = (\<lambda>(sec, usec, event).
     wf_clock (sec, usec) \<and>
     (case payload event of Inl _ \<Rightarrow> False | Inr data \<Rightarrow> int (length data) < 2 ^ 32))"

lemma fold_deliver_raw:
  assumes "list_all wf_event events"
  shows "let d' = fold (deliver False) events d in
    bin_out d' = bin_out d @ concat (map (record_bytes \<circ> event_record) events) \<and>
    packet_count d' = packet_count d + length events \<and>
    flush_after_each_packet d' = flush_after_each_packet d \<and>
    (flush_after_each_packet d \<and> events \<noteq> [] \<longrightarrow> \<not> unflushed d')"
  using assms
proof (induction events arbitrary: d)
  case Nil
  then show ?case by simp
next
  case (Cons ev events)
  obtain sec usec event where ev: "ev = (sec, usec, event)" by (cases ev)
  obtain data where data: "payload event = Inr data" "wf_clock (sec, usec)"
      "int (length data) < 2 ^ 32"
    using Cons.prems ev by (auto simp: wf_event_def split: sum.splits)
  note step = deliver_raw [OF data, of d]
  show ?case
    using Cons.IH [of "deliver False ev d"] Cons.prems data(1)
    by (cases "events = []") (auto simp: ev step event_record_def Let_def)
qed

lemma wf_event_record: "wf_event ev \<Longrightarrow> wf_record (event_record ev)"
  by (auto simp: wf_event_def event_record_def wf_record_def wf_clock_def split: sum.splits prod.splits)

lemma header_ok:
  assumes "0 \<le> seg_size" and "seg_size < 2 ^ 32"
  shows "pcap_write_header seg_size PCAP_LINK_TYPE d =
    (Inr (), d\<lparr>bin_out := bin_out d @ le_bytes 4 0xa1b2c3d4 @ [2, 0, 4, 0, 0, 0, 0, 0, 0, 0, 0, 0] @
       le_bytes 4 (nat seg_size) @ le_bytes 4 147, unflushed := True\<rparr>)"
proof -
  have version: "le_bytes 2 2 @ le_bytes 2 4 @ le_bytes 4 0 @ le_bytes 4 0 @ bs =
      [2, 0, 4, 0, 0, 0, 0, 0, 0, 0, 0, 0] @ bs" for bs
  proof -
    have "le_bytes 2 2 = [2, 0]" "le_bytes 2 4 = [4, 0]" "le_bytes 4 0 = [0, 0, 0, 0]"
      by code_simp+
    then show ?thesis by simp
  qed
  show ?thesis
    unfolding pcap_write_header_def version using assms
    by (simp add: pack_I_def PCAP_LINK_TYPE_def prog_simps write_bytes_def del: le_bytes.simps)
qed

lemma read_pcap_written:
  assumes "snaplen < 2 ^ 32" and "list_all wf_record rs"
  shows "read_pcap (le_bytes 4 0xa1b2c3d4 @ [2, 0, 4, 0, 0, 0, 0, 0, 0, 0, 0, 0] @
      le_bytes 4 snaplen @ le_bytes 4 147 @ concat (map record_bytes rs)) = Some (snaplen, 147, rs)"
proof -
  have cut12: "cut 12 ([2, 0, 4, 0, 0, 0, 0, 0, 0, 0, 0, 0] @ bs) =
      Some ([2, 0, 4, 0, 0, 0, 0, 0, 0, 0, 0, 0], bs)" for bs :: "byte list"
    by (rule cut_append) simp
  show ?thesis
    using assms pcap_rec.read_stream [of rs]
    by (simp add: read_pcap_def cut12 del: append_Cons append_Nil)
qed

lemma raw_capture_records:
  assumes "0 \<le> seg_size" and "seg_size < 2 ^ 32" and "list_all wf_event events"
  shows "read_pcap (bin_out (pcap_main seg_size True flush_mode events fresh_dump)) =
      Some (nat seg_size, 147, map event_record events) \<and>
    packet_count (pcap_main seg_size True flush_mode events fresh_dump) = length events \<and>
    (flush_mode \<and> events \<noteq> [] \<longrightarrow>
       \<not> unflushed (pcap_main seg_size True flush_mode events fresh_dump))"
proof -
  define d1 where "d1 = fresh_dump\<lparr>flush_after_each_packet := flush_mode\<rparr>"
  define d2 where "d2 = snd (pcap_write_header seg_size PCAP_LINK_TYPE d1)"
  have main: "pcap_main seg_size True flush_mode events fresh_dump = fold (deliver False) events d2"
    using header_ok [OF assms(1,2), of d1] by (simp add: pcap_main_def d1_def [symmetric] d2_def Let_def)
  have d2: "bin_out d2 = le_bytes 4 0xa1b2c3d4 @ [2, 0, 4, 0, 0, 0, 0, 0, 0, 0, 0, 0] @
      le_bytes 4 (nat seg_size) @ le_bytes 4 147" "packet_count d2 = 0"
      "flush_after_each_packet d2 = flush_mode"
    using header_ok [OF assms(1,2), of d1] by (simp_all add: d2_def d1_def fresh_dump_def)
  have "list_all wf_record (map event_record events)"
    using assms(3) wf_event_record by (auto simp: list_all_iff)
  with assms(1,2) have "read_pcap (bin_out d2 @ concat (map record_bytes (map event_record events))) =
      Some (nat seg_size, 147, map event_record events)"
    unfolding d2(1) append_assoc by (intro read_pcap_written) auto
  with fold_deliver_raw [OF assms(3), of d2] show ?thesis
    unfolding main by (simp add: Let_def d2(2,3) comp_def)
qed

text \<open>
  C4. In raw pcap mode the file the sniffer has written after any list of readable events is a pcap file
  of link type 147 whose records are exactly the events' payloads, in order, with their time stamps;
  and with \<open>--flush\<close> nothing stays in the buffer.
\<close>

theorem raw_capture_reads_back:
  assumes "0 \<le> seg_size" and "seg_size < 2 ^ 32" and "list_all wf_event events"
  shows "read_pcap (bin_out (pcap_main seg_size True flush_mode events fresh_dump)) =
      Some (nat seg_size, 147, map event_record events) \<and>
    packet_count (pcap_main seg_size True flush_mode events fresh_dump) = length events \<and>
    (flush_mode \<and> events \<noteq> [] \<longrightarrow>
       \<not> unflushed (pcap_main seg_size True flush_mode events fresh_dump))"
  using assms by (rule raw_capture_records)

definition sample_event :: "byte list \<Rightarrow> byte list" where
  "sample_event seg = fst (emit_segment 16 (zero_cpu 16) seg)"

lemma sample_payload: "length seg < 1000 \<Longrightarrow> payload (sample_event seg) = Inr (take 16 seg)"
  unfolding sample_event_def
  by (rule payload_emitted)
    (simp_all add: zero_cpu_def wf_cpu_def wf_packet_def PACKET_SIZE_def TASK_COMM_LEN_def PATH_MAX_def)

theorem raw_capture_reads_back_witness:
  "read_pcap (bin_out (pcap_main 16 True True [(5, 7, sample_event [1, 2, 3])] fresh_dump)) =
     Some (16, 147, [(5, 7, 3, [1, 2, 3])])"
  using raw_capture_reads_back [of 16 "[(5, 7, sample_event [1, 2, 3])]" True]
  by (simp add: wf_event_def wf_clock_def sample_payload event_record_def)



text \<open>
  Without \<open>--raw\<close> every record is announced 125 bytes longer than it is: the socket header is already
  part of the data when its length is added again, so the original length of the record exceeds the
  bytes it holds although nothing was cut off.
\<close>

theorem header_counted_twice:
  assumes "payload event = Inr data" and "wf_clock (sec, usec)" and "int (length data) < 2 ^ 31"
  shows "bin_out (deliver True (sec, usec, event) d) = bin_out d @
    record_bytes (nat sec, nat usec, length (sock_header (read_packet event) @ data) + 125,
      sock_header (read_packet event) @ data)"
proof -
  have parse: "parse_event event d =
      (Inr (read_packet event, data), d\<lparr>packet_count := packet_count d + 1\<rparr>)"
    using assms(1) by (auto simp: payload_def parse_event_eq split: if_splits)
  have len: "length (sock_header p) = 125" for p
    by (simp add: sock_header_def pack_pascal_def PATH_MAX_def Let_def)
  show ?thesis
    using write_record_ok [OF assms(2), of "sock_header (read_packet event) @ data"
        "int (length (sock_header (read_packet event) @ data)) + 125"] assms(3)
    by (simp add: deliver_def pcap_output_def parse prog_simps len flush_if_asked_def flush_def
        nat_add_distrib)
qed

theorem header_counted_twice_witness:
  "bin_out (deliver True (5, 7, sample_event [1, 2, 3]) fresh_dump) =
     record_bytes (5, 7, length (sock_header (read_packet (sample_event [1, 2, 3])) @ [1, 2, 3]) + 125,
       sock_header (read_packet (sample_event [1, 2, 3])) @ [1, 2, 3])"
  using header_counted_twice [of "sample_event [1, 2, 3]" "[1, 2, 3]" 5 7 fresh_dump]
  by (simp add: sample_payload wf_clock_def fresh_dump_def)

end
