(* ===== verification/Packet_Dump.thy ===== *)
theory Packet_Dump
  imports Packet_Capture
begin

text \<open>
  The text formats of the sniffer (\<open>tools/net/sockdump.py\<close>): the classic hex dump of \<open>hex_print\<close> and the
  escaped string of \<open>hexstring_print\<close>. Both are proved to lose nothing: a reader of the printed lines
  gets back the payload.
\<close>

section \<open>Hexadecimal numbers\<close>

definition hex_char :: "nat \<Rightarrow> char" where
  "hex_char d = (if d < 10 then char_of (48 + d) else char_of (87 + d))"

definition hex_val :: "char \<Rightarrow> nat" where
  "hex_val c = (let n = of_char c :: nat in if n < 58 then n - 48 else n - 87)"

text \<open>The format \<open>%02x\<close> of a byte, and \<open>{:04x}\<close> of an offset.\<close>

definition hex2 :: "byte \<Rightarrow> string" where
  "hex2 b = [hex_char (unat b div 16), hex_char (unat b mod 16)]"

fun show_hex :: "nat \<Rightarrow> string" where
  "show_hex n = (if n < 16 then [hex_char n] else show_hex (n div 16) @ [hex_char (n mod 16)])"

declare show_hex.simps [simp del]

definition hex4 :: "nat \<Rightarrow> string" where
  "hex4 n = (let s = show_hex n in replicate (4 - length s) (CHR ''0'') @ s)"

definition unhex2 :: "string \<Rightarrow> byte" where
  "unhex2 s = word_of_nat (16 * hex_val (s ! 0) + hex_val (s ! 1))"

lemma hex_val_char: "d < 16 \<Longrightarrow> hex_val (hex_char d) = d"
  by (simp add: hex_val_def hex_char_def Let_def)

lemma hex_char_code: "d < 16 \<Longrightarrow> of_char (hex_char d) = (if d < 10 then 48 + d else 87 + d)"
  by (simp add: hex_char_def)

lemma high_digit: "unat (b :: byte) div 16 < 16"
  by (rule less_mult_imp_div_less) simp

lemma unhex2_hex2 [simp]: "unhex2 (hex2 b) = b"
  by (simp add: unhex2_def hex2_def hex_val_char high_digit)

lemma hex_char_ne_space: "d < 16 \<Longrightarrow> hex_char d \<noteq> CHR '' ''"
  using hex_char_code [of d] by (auto split: if_splits)

lemma hex2_ne_space: "CHR '' '' \<notin> set (hex2 b)"
  using hex_char_ne_space [OF high_digit, of b] hex_char_ne_space [of "unat b mod 16"]
  by (simp add: hex2_def eq_commute)

lemma hex2_props [simp]: "length (hex2 b) = 2" "hex2 b \<noteq> []"
  by (simp_all add: hex2_def)

lemma show_hex_no_space: "CHR '' '' \<notin> set (show_hex n)"
proof (induction n rule: show_hex.induct)
  case (1 n)
  then show ?case
    using hex_char_ne_space [of n] hex_char_ne_space [of "n mod 16"]
    by (subst show_hex.simps) (simp add: eq_commute)
qed

lemma hex4_no_space: "CHR '' '' \<notin> set (hex4 n)"
  by (simp add: hex4_def Let_def show_hex_no_space)

section \<open>The dump\<close>

definition ascii :: "byte \<Rightarrow> char" where
  "ascii c = (if unat c < 32 \<or> unat c > 126 then CHR ''.'' else char_of (unat c))"

text \<open>The format \<open>{:<23s}\<close>.\<close>

definition pad23 :: "string \<Rightarrow> string" where
  "pad23 s = s @ replicate (23 - length s) (CHR '' '')"

definition hex_line :: "byte list \<Rightarrow> nat \<Rightarrow> string" where
  "hex_line data i =
     hex4 i @ ''  '' @
     pad23 (join '' '' (map hex2 (take 8 (drop i data)))) @ ''  '' @
     pad23 (join '' '' (map hex2 (take 8 (drop (i + 8) data)))) @ ''  '' @
     map ascii (take 16 (drop i data))"

definition hex_lines :: "byte list \<Rightarrow> string list" where
  "hex_lines data = map (\<lambda>k. hex_line data (16 * k)) [0..<(length data + 15) div 16]"

definition hex_print :: "byte list \<Rightarrow> (dump, unit) prog" where
  "hex_print data = forE (hex_lines data) (\<lambda>line. print_line (TextLine line))"

definition hex_output :: "byte list \<Rightarrow> (dump, unit) prog" where
  "hex_output event =
     bindE (parse_event event) (\<lambda>(p, data).
       seqs [print_header p data, print_error p, hex_print data, flush_if_asked])"

text \<open>A backslash, the letter x and two hex digits for every byte.\<close>

definition hexstring :: "byte list \<Rightarrow> string" where
  "hexstring data = concat (map (\<lambda>b. CHR 0x5C # CHR ''x'' # hex2 b) data)"

definition hexstring_print :: "byte list \<Rightarrow> (dump, unit) prog" where
  "hexstring_print data = print_line (TextLine (hexstring data))"

definition hexstring_output :: "byte list \<Rightarrow> (dump, unit) prog" where
  "hexstring_output event =
     bindE (parse_event event) (\<lambda>(p, data).
       seqs [print_header p data, print_error p, hexstring_print data, flush_if_asked])"

section \<open>Reading the dump back\<close>

text \<open>The words of a column are what stands between blanks.\<close>

definition column_bytes :: "string \<Rightarrow> byte list" where
  "column_bytes col = map unhex2 (filter (\<lambda>w. w \<noteq> []) (split_on (CHR '' '') col))"

definition read_hex_line :: "string \<Rightarrow> byte list" where
  "read_hex_line line =
     (let rest = drop 2 (dropWhile (\<lambda>c. c \<noteq> CHR '' '') line)
      in column_bytes (take 23 rest) @ column_bytes (take 23 (drop 25 rest)))"

fun read_hexstring :: "string \<Rightarrow> byte list" where
  "read_hexstring (c # x # a # b # s) = unhex2 [a, b] # read_hexstring s"
| "read_hexstring _ = []"

lemma split_on_word:
  "c \<notin> set w \<Longrightarrow> split_on c (w @ c # s) = w # split_on c s"
  by (induction w) auto

lemma split_on_only_word: "c \<notin> set w \<Longrightarrow> split_on c w = [w]"
  by (induction w) auto

lemma split_on_blanks: "filter (\<lambda>w. w \<noteq> []) (split_on c (replicate k c)) = []"
  by (induction k) auto

lemma words_of_padded:
  assumes "list_all (\<lambda>w. w \<noteq> [] \<and> c \<notin> set w) ws"
  shows "filter (\<lambda>w. w \<noteq> []) (split_on c (join [c] ws @ replicate k c)) = ws"
  using assms
proof (induction "[c]" ws rule: join.induct)
  case 1
  then show ?case by (simp add: split_on_blanks)
next
  case (2 x)
  then show ?case
    by (cases k) (auto simp: split_on_only_word split_on_word split_on_blanks)
next
  case (3 x y ys)
  then show ?case by (simp add: split_on_word)
qed

lemma column_bytes_padded: "column_bytes (pad23 (join '' '' (map hex2 bs))) = bs"
proof -
  have "list_all (\<lambda>w. w \<noteq> [] \<and> CHR '' '' \<notin> set w) (map hex2 bs)"
    by (simp add: list_all_iff hex2_ne_space)
  then show ?thesis
    unfolding column_bytes_def pad23_def by (simp add: words_of_padded comp_def)
qed

lemma length_join_hex2: "bs \<noteq> [] \<Longrightarrow> length (join '' '' (map hex2 bs)) = 3 * length bs - 1"
proof (induction bs rule: induct_list012)
  case (3 x y zs)
  then show ?case by simp
qed simp_all

lemma length_pad23: "length bs \<le> 8 \<Longrightarrow> length (pad23 (join '' '' (map hex2 bs))) = 23"
  by (cases "bs = []") (simp_all add: pad23_def length_join_hex2)

lemma read_hex_line_line: "read_hex_line (hex_line data i) = take 16 (drop i data)"
proof -
  define a b where "a = pad23 (join '' '' (map hex2 (take 8 (drop i data))))"
    and "b = pad23 (join '' '' (map hex2 (take 8 (drop (i + 8) data))))"
  have len: "length a = 23" "length b = 23"
    by (simp_all add: a_def b_def length_pad23)
  have "dropWhile (\<lambda>c. c \<noteq> CHR '' '') (hex4 i @ ''  '' @ r) = ''  '' @ r" for r
    using hex4_no_space [of i] by (subst dropWhile_append2) auto
  then have "read_hex_line (hex_line data i) = column_bytes a @ column_bytes b"
    unfolding read_hex_line_def hex_line_def a_def [symmetric] b_def [symmetric]
    by (simp add: len Let_def)
  also have "\<dots> = take 8 (drop i data) @ take 8 (drop (i + 8) data)"
    by (simp add: a_def b_def column_bytes_padded)
  also have "\<dots> = take 16 (drop i data)"
    using take_add [of 8 8 "drop i data"] by (simp add: add.commute)
  finally show ?thesis .
qed

lemma concat_slices:
  "concat (map (\<lambda>k. take 16 (drop (16 * k) xs)) [0..<n]) = take (16 * n) xs"
proof (induction n)
  case 0
  then show ?case by simp
next
  case (Suc n)
  then show ?case using take_add [of "16 * n" 16 xs] by (simp add: add.commute)
qed

lemma read_hexstring_string: "read_hexstring (hexstring data) = data"
  by (induction data) (simp_all add: hexstring_def hex2_def, metis hex2_def unhex2_hex2)

text \<open>
  Both text formats are lossless: the columns of the hex dump's lines, and the escapes of the hex
  string, read back as the payload. The dump has one line for every 16 bytes begun.
\<close>

theorem dumps_read_back:
  "concat (map read_hex_line (hex_lines data)) = data \<and>
   length (hex_lines data) = (length data + 15) div 16 \<and>
   read_hexstring (hexstring data) = data"
proof -
  have "length data \<le> 16 * ((length data + 15) div 16)" by presburger
  then show ?thesis
    by (simp add: hex_lines_def comp_def read_hex_line_line concat_slices read_hexstring_string)
qed

end
