(* ===== verification/Sock_Filter.thy ===== *)
theory Sock_Filter
  imports Byte_Codec
begin

text \<open>
  The socket filter of the packet sniffer (\<open>tools/net/sockdump.py\<close>): \<open>build_filter\<close> turns the socket
  path of the command line into a comparison of 64-bit words, and the BPF probe in \<open>bpf_text\<close> copies
  the address of either end of the socket into a zeroed buffer and evaluates the comparison there.
  The theory models both sides and proves which socket names a path selects: exactly its own name,
  or the names that start with it when it ends in an asterisk, for sockets bound to a file path; the
  names that merely start with it for abstract sockets.
\<close>

definition UNIX_PATH_MAX :: nat where
  "UNIX_PATH_MAX = 108"

text \<open>\<open>str.encode()\<close> of an ASCII string.\<close>

definition encode :: "string \<Rightarrow> byte list" where
  "encode s = map (\<lambda>c. word_of_nat (of_char c)) s"

lemma length_encode [simp]: "length (encode s) = length s"
  by (simp add: encode_def)

lemma encode_inject [simp]: "encode s = encode t \<longleftrightarrow> s = t"
proof
  have inj: "inj (\<lambda>c :: char. (word_of_nat (of_char c) :: byte))"
  proof (rule injI)
    fix c d :: char
    assume "(word_of_nat (of_char c) :: byte) = word_of_nat (of_char d)"
    then have "unat (word_of_nat (of_char c) :: byte) = unat (word_of_nat (of_char d) :: byte)"
      by simp
    then have "(of_char c :: nat) mod 256 = of_char d mod 256"
      by (simp add: unat_of_nat)
    then show "c = d" by simp
  qed
  assume "encode s = encode t"
  then show "s = t" unfolding encode_def by (simp add: inj_map_eq_map [OF inj])
qed simp

lemma encode_append [simp]: "encode (s @ t) = encode s @ encode t"
  by (simp add: encode_def)

lemma encode_simps [simp]: "encode [] = []" "encode (c # s) = word_of_nat (of_char c) # encode s"
  by (simp_all add: encode_def)

lemma encode_butlast: "encode (butlast s) = butlast (encode s)"
  by (simp add: encode_def map_butlast)

section \<open>The filter\<close>

text \<open>
  The bytes to compare with. Indexing an empty path raises; \<open>sock_path[-1]\<close> is tested before
  \<open>sock_path[0]\<close>, so an abstract path that ends in an asterisk keeps its leading at-sign.
\<close>

definition sock_path_bytes :: "string \<Rightarrow> exn + byte list" where
  "sock_path_bytes sock_path =
     (if sock_path = [] then Inl IndexError
      else if last sock_path = CHR ''*'' then Inr (butlast (encode sock_path))
      else if hd sock_path = CHR ''@'' then Inr (tl (encode sock_path) @ [0])
      else Inr (encode sock_path @ [0]))"

text \<open>The comparison: match everything, or compare the words of the buffer with these values.\<close>

datatype path_filter = MatchAll | MatchWords "nat list"

definition sock_path_u64s :: "byte list \<Rightarrow> nat \<Rightarrow> nat list" where
  "sock_path_u64s bs n = map (\<lambda>i. le_nat (take 8 (drop (i * 8) bs))) [0..<n]"

definition filter_text :: "path_filter \<Rightarrow> string" where
  "filter_text f =
     (case f of
        MatchAll \<Rightarrow> ''match = 1;''
      | MatchWords us \<Rightarrow>
          ''if ('' @
          join '' && '' (map (\<lambda>(i, n). ''path['' @ show_nat i @ ''] == '' @ show_nat n)
            (zip [0..<length us] us)) @
          '') match = 1;'')"

text \<open>\<open>build_filter\<close> before its comparison is printed as C text.\<close>

definition build_path_filter :: "string \<Rightarrow> exn + (path_filter \<times> nat \<times> nat)" where
  "build_path_filter sock_path =
     (case sock_path_bytes sock_path of
        Inl e \<Rightarrow> Inl e
      | Inr bs \<Rightarrow>
          let path_len = length bs in
          if path_len > UNIX_PATH_MAX then Inl ValueError
          else if path_len = 0 then Inr (MatchAll, 0, 0)
          else
            let path_len_u64 = (path_len + 7) div 8;
                padded = bs @ replicate (path_len_u64 * 8 - path_len) 0
            in Inr (MatchWords (sock_path_u64s padded path_len_u64), path_len, path_len_u64))"

definition build_filter :: "string \<Rightarrow> exn + (string \<times> nat \<times> nat)" where
  "build_filter sock_path =
     (case build_path_filter sock_path of
        Inl e \<Rightarrow> Inl e
      | Inr (f, path_len, path_len_u64) \<Rightarrow> Inr (filter_text f, path_len, path_len_u64))"

section \<open>The probe\<close>

text \<open>
  The address of a socket: its length, and the kernel memory from \<open>sun_path\<close> on. An unbound socket
  has length 0; an abstract one has a zero byte first and its name after it.
\<close>

record unix_address =
  addr_len :: nat
  sun_path :: "nat \<Rightarrow> byte"

text \<open>\<open>bpf_probe_read(dst, n, src)\<close>: the first \<open>n\<close> bytes of the buffer are overwritten.\<close>

definition probe_read :: "byte list \<Rightarrow> nat \<Rightarrow> (nat \<Rightarrow> byte) \<Rightarrow> byte list" where
  "probe_read dst n src = map src [0..<n] @ drop n dst"

text \<open>The comparison, evaluated on the \<open>path\<close> array of \<open>unsigned long\<close>.\<close>

definition filter_holds :: "path_filter \<Rightarrow> byte list \<Rightarrow> bool" where
  "filter_holds f path =
     (case f of
        MatchAll \<Rightarrow> True
      | MatchWords us \<Rightarrow>
          list_all (\<lambda>(i, n). le_nat (take 8 (drop (i * 8) path)) = n) (zip [0..<length us] us))"

text \<open>One end of the socket: read its address into the buffer, then evaluate the filter.\<close>

definition probe_addr ::
    "path_filter \<Rightarrow> nat \<Rightarrow> unix_address \<Rightarrow> byte list \<Rightarrow> bool \<times> byte list" where
  "probe_addr f path_len a path =
     (if addr_len a > 0 then
        let path' = (if sun_path a 0 = 0
                     then probe_read path (path_len - 1) (\<lambda>i. sun_path a (Suc i))
                     else probe_read path path_len (sun_path a))
        in (filter_holds f path', path')
      else (False, path))"

text \<open>
  The selection of \<open>probe_unix_socket_sendmsg\<close>: the socket's own address, then, unless that matched,
  the peer's, in the same buffer.
\<close>

definition probe_match ::
    "path_filter \<Rightarrow> nat \<Rightarrow> nat \<Rightarrow> unix_address \<Rightarrow> unix_address \<Rightarrow> bool" where
  "probe_match f path_len path_len_u64 own peer =
     (let path = replicate (8 * max path_len_u64 1) 0;
          (m, path') = probe_addr f path_len own path
      in if m then True else fst (probe_addr f path_len peer path'))"

text \<open>The whole way from the command line to the decision; an invalid path selects nothing.\<close>

definition sniffs :: "string \<Rightarrow> unix_address \<Rightarrow> unix_address \<Rightarrow> bool" where
  "sniffs sock_path own peer =
     (case build_path_filter sock_path of
        Inl _ \<Rightarrow> False
      | Inr (f, path_len, path_len_u64) \<Rightarrow> probe_match f path_len path_len_u64 own peer)"

section \<open>Words of eight bytes\<close>

lemma slices_eq:
  assumes "length xs = n * 8" and "length ys = n * 8"
    and "\<And>i. i < n \<Longrightarrow> take 8 (drop (i * 8) xs) = take 8 (drop (i * 8) ys)"
  shows "xs = ys"
  using assms
proof (induction n arbitrary: xs ys)
  case 0
  then show ?case by simp
next
  case (Suc n)
  have head: "take 8 xs = take 8 ys" using Suc.prems(3) [of 0] by simp
  have "drop 8 xs = drop 8 ys"
  proof (rule Suc.IH)
    fix i assume "i < n"
    then have "take 8 (drop (Suc i * 8) xs) = take 8 (drop (Suc i * 8) ys)"
      by (intro Suc.prems(3)) simp
    then show "take 8 (drop (i * 8) (drop 8 xs)) = take 8 (drop (i * 8) (drop 8 ys))"
      by (simp add: add.commute)
  qed (use Suc.prems in simp_all)
  with head show ?case by (metis append_take_drop_id)
qed

lemma slice_length: "length xs = n * 8 \<Longrightarrow> i < n \<Longrightarrow> length (take 8 (drop (i * 8) xs)) = 8"
  by auto

lemma filter_holds_words:
  assumes "length bs = n * 8" and "length path = n * 8"
  shows "filter_holds (MatchWords (sock_path_u64s bs n)) path \<longleftrightarrow> path = bs"
proof -
  have "filter_holds (MatchWords (sock_path_u64s bs n)) path \<longleftrightarrow>
      (\<forall>i<n. le_nat (take 8 (drop (i * 8) path)) = le_nat (take 8 (drop (i * 8) bs)))"
    by (simp add: filter_holds_def sock_path_u64s_def list_all_length)
  also have "\<dots> \<longleftrightarrow> (\<forall>i<n. take 8 (drop (i * 8) path) = take 8 (drop (i * 8) bs))"
    using assms by (simp add: le_nat_inject slice_length)
  also have "\<dots> \<longleftrightarrow> path = bs"
    using slices_eq [OF assms(2) assms(1)] by auto
  finally show ?thesis .
qed

section \<open>What the filter selects\<close>

text \<open>A kernel memory that holds a NUL-terminated name.\<close>

definition holds_name :: "(nat \<Rightarrow> byte) \<Rightarrow> byte list \<Rightarrow> bool" where
  "holds_name mem q \<longleftrightarrow> (\<forall>i<length q. mem i = q ! i) \<and> mem (length q) = 0"

lemma read_prefix_iff:
  assumes "holds_name mem q" and "0 \<notin> set p"
  shows "map mem [0..<length p] = p \<longleftrightarrow> prefix p q"
proof
  assume eq: "map mem [0..<length p] = p"
  then have nth: "mem i = p ! i" if "i < length p" for i
    using that by (metis nth_map nth_upt add.left_neutral length_upt diff_zero)
  have "length p \<le> length q"
  proof (rule ccontr)
    assume "\<not> length p \<le> length q"
    then have "p ! length q = 0" and "length q < length p"
      using nth [of "length q"] assms(1) by (auto simp: holds_name_def)
    with assms(2) show False by (metis nth_mem)
  qed
  moreover have "take (length p) q = p"
  proof (rule nth_equalityI)
    show "length (take (length p) q) = length p" using calculation by simp
  next
    fix i assume "i < length (take (length p) q)"
    then show "take (length p) q ! i = p ! i"
      using nth [of i] assms(1) by (simp add: holds_name_def)
  qed
  ultimately show "prefix p q" by (metis append_take_drop_id prefixI)
next
  assume "prefix p q"
  then obtain r where "q = p @ r" by (auto simp: prefix_def)
  with assms(1) show "map mem [0..<length p] = p"
    by (intro nth_equalityI) (auto simp: holds_name_def nth_append)
qed

lemma read_exact_iff:
  assumes "holds_name mem q" and "0 \<notin> set p" and "0 \<notin> set q"
  shows "map mem [0..<Suc (length p)] = p @ [0] \<longleftrightarrow> q = p"
proof -
  have "map mem [0..<Suc (length p)] = p @ [0] \<longleftrightarrow>
      map mem [0..<length p] = p \<and> mem (length p) = 0"
    by simp
  also have "\<dots> \<longleftrightarrow> prefix p q \<and> mem (length p) = 0"
    using read_prefix_iff [OF assms(1,2)] by simp
  also have "\<dots> \<longleftrightarrow> q = p"
  proof
    assume pre: "prefix p q \<and> mem (length p) = 0"
    then obtain r where r: "q = p @ r" by (auto simp: prefix_def)
    have "r = []"
    proof (rule ccontr)
      assume "r \<noteq> []"
      then have "mem (length p) = hd r" using assms(1) r
        by (auto simp: holds_name_def nth_append hd_conv_nth dest: spec [of _ "length p"])
      with pre have "hd r = 0" by simp
      with r \<open>r \<noteq> []\<close> assms(3) show False using hd_in_set [of r] by auto
    qed
    with r show "q = p" by simp
  qed (use assms(1) in \<open>auto simp: holds_name_def\<close>)
  finally show ?thesis .
qed

text \<open>What \<open>build_path_filter\<close> produces for a non-empty list of bytes.\<close>

lemma build_path_filter_bytes:
  assumes "sock_path_bytes p = Inr bs" and "bs \<noteq> []" and "length bs \<le> UNIX_PATH_MAX"
  defines "n \<equiv> (length bs + 7) div 8"
  shows "build_path_filter p =
    Inr (MatchWords (sock_path_u64s (bs @ replicate (n * 8 - length bs) 0) n), length bs, n)"
  using assms by (simp add: build_path_filter_def Let_def)

lemma u64_cover: "m \<le> (m + 7) div 8 * (8 :: nat)"
  by presburger

text \<open>
  A read of \<open>k\<close> bytes into a buffer whose tail is zero, compared with \<open>bs\<close>. A file-path address is
  read in full, an abstract one without the last byte.
\<close>

lemma words_after_read:
  assumes "length old = length bs" and "k \<le> length bs"
  defines "n \<equiv> (length bs + 7) div 8"
  shows "filter_holds (MatchWords (sock_path_u64s (bs @ replicate (n * 8 - length bs) 0) n))
      (probe_read (old @ replicate (n * 8 - length bs) 0) k src) \<longleftrightarrow>
    map src [0..<k] @ drop k old = bs"
proof -
  have "length bs \<le> n * 8" unfolding n_def by (rule u64_cover)
  then show ?thesis
    using assms by (subst filter_holds_words) (auto simp: probe_read_def)
qed

lemma probe_addr_file:
  assumes "addr_len a > 0" and "sun_path a 0 \<noteq> 0" and "length old = length bs"
  defines "n \<equiv> (length bs + 7) div 8"
  shows "probe_addr (MatchWords (sock_path_u64s (bs @ replicate (n * 8 - length bs) 0) n))
      (length bs) a (old @ replicate (n * 8 - length bs) 0) =
    (map (sun_path a) [0..<length bs] = bs,
     map (sun_path a) [0..<length bs] @ replicate (n * 8 - length bs) 0)"
  using assms words_after_read [of old bs "length bs" "sun_path a"]
  by (simp add: probe_addr_def Let_def probe_read_def)

lemma probe_addr_abstract:
  assumes "addr_len a > 0" and "sun_path a 0 = 0" and "length old = length bs"
  defines "n \<equiv> (length bs + 7) div 8"
  shows "fst (probe_addr (MatchWords (sock_path_u64s (bs @ replicate (n * 8 - length bs) 0) n))
      (length bs) a (old @ replicate (n * 8 - length bs) 0)) \<longleftrightarrow>
    map (\<lambda>i. sun_path a (Suc i)) [0..<length bs - 1] @ drop (length bs - 1) old = bs"
  using assms words_after_read [of old bs "length bs - 1" "\<lambda>i. sun_path a (Suc i)"]
  by (simp add: probe_addr_def Let_def)

lemma zero_buffer:
  assumes "bs \<noteq> []"
  shows "replicate (8 * max ((length bs + 7) div 8) 1) (0 :: byte) =
    replicate (length bs) 0 @ replicate ((length bs + 7) div 8 * 8 - length bs) 0"
proof -
  have "max ((length bs + 7) div 8) 1 = (length bs + 7) div 8"
    using assms by (cases bs) auto
  then show ?thesis
    using u64_cover [of "length bs"] by (simp add: replicate_add [symmetric] mult.commute)
qed

text \<open>The probe with its buffer split into the compared bytes and the padding.\<close>

lemma sniffs_unfold:
  assumes "sock_path_bytes p = Inr bs" and "bs \<noteq> []" and "length bs \<le> UNIX_PATH_MAX"
  defines "n \<equiv> (length bs + 7) div 8"
  defines "f \<equiv> MatchWords (sock_path_u64s (bs @ replicate (n * 8 - length bs) 0) n)"
  shows "sniffs p own peer =
    (let (m, path') = probe_addr f (length bs) own
           (replicate (length bs) 0 @ replicate (n * 8 - length bs) 0)
     in if m then True else fst (probe_addr f (length bs) peer path'))"
  by (simp add: sniffs_def build_path_filter_bytes [OF assms(1-3)] probe_match_def f_def n_def
    zero_buffer [OF assms(2), unfolded One_nat_def])

text \<open>
  An end of the socket that is unbound or bound to a file path leaves a buffer of the same shape, so
  the second probe reads as the first one did.
\<close>

lemma probe_addr_unbound_or_file:
  assumes "addr_len a > 0 \<Longrightarrow> sun_path a 0 \<noteq> 0" and "length old = length bs"
  defines "n \<equiv> (length bs + 7) div 8"
  shows "\<exists>old'. length old' = length bs \<and>
    probe_addr (MatchWords (sock_path_u64s (bs @ replicate (n * 8 - length bs) 0) n))
      (length bs) a (old @ replicate (n * 8 - length bs) 0) =
    (addr_len a > 0 \<and> map (sun_path a) [0..<length bs] = bs,
     old' @ replicate (n * 8 - length bs) 0)"
proof (cases "addr_len a > 0")
  case True
  then show ?thesis
    using assms probe_addr_file [of a old bs]
    by (intro exI [of _ "map (sun_path a) [0..<length bs]"]) simp
next
  case False
  then show ?thesis
    using assms by (intro exI [of _ old]) (simp add: probe_addr_def)
qed

lemma sniffs_file:
  assumes "sock_path_bytes p = Inr bs" and "bs \<noteq> []" and "length bs \<le> UNIX_PATH_MAX"
    and "addr_len own > 0 \<Longrightarrow> sun_path own 0 \<noteq> 0"
    and "addr_len peer > 0 \<Longrightarrow> sun_path peer 0 \<noteq> 0"
  shows "sniffs p own peer \<longleftrightarrow>
    addr_len own > 0 \<and> map (sun_path own) [0..<length bs] = bs \<or>
    addr_len peer > 0 \<and> map (sun_path peer) [0..<length bs] = bs"
proof -
  define n where "n = (length bs + 7) div 8"
  define f where "f = MatchWords (sock_path_u64s (bs @ replicate (n * 8 - length bs) 0) n)"
  obtain old where old: "length old = length bs" and
    first: "probe_addr f (length bs) own (replicate (length bs) 0 @ replicate (n * 8 - length bs) 0)
      = (addr_len own > 0 \<and> map (sun_path own) [0..<length bs] = bs,
         old @ replicate (n * 8 - length bs) 0)"
    using probe_addr_unbound_or_file [OF assms(4), of "replicate (length bs) 0" bs]
    unfolding f_def n_def by auto
  obtain old' where
    second: "probe_addr f (length bs) peer (old @ replicate (n * 8 - length bs) 0)
      = (addr_len peer > 0 \<and> map (sun_path peer) [0..<length bs] = bs,
         old' @ replicate (n * 8 - length bs) 0)"
    using probe_addr_unbound_or_file [OF assms(5) old] unfolding f_def n_def by auto
  show ?thesis
    unfolding sniffs_unfold [OF assms(1-3)] using first second
    by (simp add: f_def n_def Let_def)
qed

text \<open>An abstract socket of its own: all bytes but the last are compared, the last must be zero.\<close>

lemma sniffs_abstract:
  assumes "sock_path_bytes p = Inr bs" and "bs \<noteq> []" and "length bs \<le> UNIX_PATH_MAX"
    and "addr_len own > 0" and "sun_path own 0 = 0" and "addr_len peer = 0"
  shows "sniffs p own peer \<longleftrightarrow>
    map (\<lambda>i. sun_path own (Suc i)) [0..<length bs - 1] @ [0] = bs"
proof -
  have unbound: "fst (probe_addr f l peer path) = False" for f l path
    using assms(6) by (simp add: probe_addr_def)
  have last: "drop (length bs - 1) (replicate (length bs) (0 :: byte)) = [0]"
    using assms(2) by (simp add: Suc_leI)
  show ?thesis
    unfolding sniffs_unfold [OF assms(1-3)]
    using probe_addr_abstract [OF assms(4,5), of "replicate (length bs) 0" bs] unbound last
    by (auto simp: Let_def split: prod.splits)
qed

section \<open>Sockets and the names they carry\<close>

text \<open>
  The address of an end of the socket: unbound, bound to the file path \<open>q\<close>, or abstract with a name
  that starts with the bytes \<open>q\<close>.
\<close>

definition bound_to :: "unix_address \<Rightarrow> byte list option \<Rightarrow> bool" where
  "bound_to a name =
     (case name of
        None \<Rightarrow> addr_len a = 0
      | Some q \<Rightarrow> addr_len a > 0 \<and> q \<noteq> [] \<and> 0 \<notin> set q \<and> holds_name (sun_path a) q)"

definition abstract_name :: "unix_address \<Rightarrow> byte list \<Rightarrow> bool" where
  "abstract_name a q \<longleftrightarrow>
     addr_len a > 0 \<and> sun_path a 0 = 0 \<and> (\<forall>i<length q. sun_path a (Suc i) = q ! i)"

definition nul_free :: "string \<Rightarrow> bool" where
  "nul_free s \<longleftrightarrow> list_all (\<lambda>c. of_char c \<noteq> (0 :: nat)) s"

lemma zero_encode: "nul_free s \<Longrightarrow> 0 \<notin> set (encode s)"
proof (induction s)
  case Nil
  then show ?case by simp
next
  case (Cons c s)
  have "(of_char c :: nat) < 256" by simp
  then have "unat (word_of_nat (of_char c) :: byte) = of_char c" by (simp add: unat_of_nat)
  with Cons show ?case by (auto simp: nul_free_def)
qed

lemma bound_to_first: "bound_to a name \<Longrightarrow> addr_len a > 0 \<Longrightarrow> sun_path a 0 \<noteq> 0"
  by (cases name) (auto simp: bound_to_def holds_name_def neq_Nil_conv dest!: spec [of _ 0])


text \<open>The address of a socket bound to a file path, for concrete instances.\<close>

definition file_address :: "byte list \<Rightarrow> unix_address" where
  "file_address q = \<lparr>addr_len = length q + 3, sun_path = (\<lambda>i. if i < length q then q ! i else 0)\<rparr>"

definition abstract_address :: "byte list \<Rightarrow> unix_address" where
  "abstract_address q =
     \<lparr>addr_len = length q + 3,
      sun_path = (\<lambda>i. if i = 0 then 0 else if i \<le> length q then q ! (i - 1) else 0)\<rparr>"

definition unbound_address :: unix_address where
  "unbound_address = \<lparr>addr_len = 0, sun_path = (\<lambda>_. 0)\<rparr>"

lemma bound_to_file_address: "q \<noteq> [] \<Longrightarrow> 0 \<notin> set q \<Longrightarrow> bound_to (file_address q) (Some q)"
  by (simp add: bound_to_def file_address_def holds_name_def)

lemma bound_to_unbound: "bound_to unbound_address None"
  by (simp add: bound_to_def unbound_address_def)

lemma abstract_name_address: "abstract_name (abstract_address q) q"
  by (simp add: abstract_name_def abstract_address_def)


definition vfio_sock :: string where
  "vfio_sock = ''/tmp/vfio-pcie.sock''"

lemma vfio_sock_facts:
  "vfio_sock \<noteq> []" "last vfio_sock \<noteq> CHR ''*''" "hd vfio_sock \<noteq> CHR ''@''" "nul_free vfio_sock"
  "length vfio_sock < UNIX_PATH_MAX" "encode vfio_sock \<noteq> []"
  by (simp_all add: vfio_sock_def nul_free_def UNIX_PATH_MAX_def)


text \<open>
  A path that ends in an asterisk selects a socket exactly when one of its ends is bound to a path
  that starts with the rest of it.
\<close>

theorem sniffs_prefix:
  assumes "pre \<noteq> []" and "nul_free pre" and "length pre \<le> UNIX_PATH_MAX"
    and "bound_to own o_name" and "bound_to peer p_name"
  shows "sniffs (pre @ ''*'') own peer \<longleftrightarrow>
    (\<exists>q. (o_name = Some q \<or> p_name = Some q) \<and> prefix (encode pre) q)"
proof -
  have bytes: "sock_path_bytes (pre @ ''*'') = Inr (encode pre)"
    by (simp add: sock_path_bytes_def encode_butlast [symmetric])
  have one: "addr_len a > 0 \<and> map (sun_path a) [0..<length (encode pre)] = encode pre \<longleftrightarrow>
      (\<exists>q. name = Some q \<and> prefix (encode pre) q)" if "bound_to a name" for a name
    using that read_prefix_iff [of "sun_path a" _ "encode pre"] zero_encode [OF assms(2)]
    by (cases name) (auto simp: bound_to_def)
  show ?thesis
    using sniffs_file [OF bytes, of own peer] assms one [OF assms(4)] one [OF assms(5)]
      bound_to_first [OF assms(4)] bound_to_first [OF assms(5)]
    by (auto simp: encode_def)
qed

theorem sniffs_prefix_witness:
  "sniffs (''/tmp/vf'' @ ''*'') (file_address (encode vfio_sock)) unbound_address"
proof -
  have pre: "''/tmp/vf'' \<noteq> []" "nul_free ''/tmp/vf''" "length ''/tmp/vf'' \<le> UNIX_PATH_MAX"
    "prefix (encode ''/tmp/vf'') (encode vfio_sock)"
    by (simp_all add: nul_free_def UNIX_PATH_MAX_def vfio_sock_def)
  show ?thesis
    using sniffs_prefix [OF pre(1-3) bound_to_file_address bound_to_unbound] pre(4)
      vfio_sock_facts zero_encode [of vfio_sock] by blast
qed

text \<open>
  An at-sign selects abstract sockets, but by prefix: a socket is selected when its name merely
  starts with the given one, because the probe reads one byte less from an abstract address.
\<close>

theorem sniffs_abstract_by_prefix:
  assumes "name \<noteq> []" and "last name \<noteq> CHR ''*''" and "length name < UNIX_PATH_MAX"
    and "abstract_name own q" and "addr_len peer = 0" and "length name \<le> length q"
  shows "sniffs (CHR ''@'' # name) own peer \<longleftrightarrow> prefix (encode name) q"
proof -
  have bytes: "sock_path_bytes (CHR ''@'' # name) = Inr (encode name @ [0])"
    using assms(1,2) by (simp add: sock_path_bytes_def)
  have "map (\<lambda>i. sun_path own (Suc i)) [0..<length name] = take (length name) q"
    using assms(4,6) by (intro nth_equalityI) (auto simp: abstract_name_def)
  moreover have "take (length name) q = encode name \<longleftrightarrow> prefix (encode name) q"
    by (metis append_take_drop_id append_eq_conv_conj length_encode prefix_def)
  ultimately show ?thesis
    using sniffs_abstract [OF bytes, of own peer] assms by (simp add: abstract_name_def)
qed

theorem sniffs_abstract_by_prefix_witness:
  "sniffs ''@vfio'' (abstract_address (encode ''vfio-user'')) unbound_address"
  using sniffs_abstract_by_prefix [of "''vfio''", OF _ _ _ abstract_name_address, of unbound_address "encode ''vfio-user''"]
  by (simp add: UNIX_PATH_MAX_def unbound_address_def)

text \<open>
  A path that ends in an asterisk never selects an abstract socket by its own address: the last
  byte to compare is then compared with a byte that was not read.
\<close>

theorem sniffs_wildcard_never_abstract:
  assumes "pre \<noteq> []" and "nul_free pre" and "length pre \<le> UNIX_PATH_MAX"
    and "abstract_name own q" and "addr_len peer = 0"
  shows "\<not> sniffs (pre @ ''*'') own peer"
proof -
  have bytes: "sock_path_bytes (pre @ ''*'') = Inr (encode pre)"
    by (simp add: sock_path_bytes_def encode_butlast [symmetric])
  have "xs @ [0] \<noteq> encode pre" for xs
    using zero_encode [OF assms(2)] by (metis in_set_conv_decomp)
  then show ?thesis
    using sniffs_abstract [OF bytes, of own peer] assms
    by (simp add: abstract_name_def) (simp add: encode_def)
qed

theorem sniffs_wildcard_never_abstract_witness:
  "\<not> sniffs (''vfio'' @ ''*'') (abstract_address (encode ''vfio-user'')) unbound_address"
  using sniffs_wildcard_never_abstract
    [of "''vfio''", OF _ _ _ abstract_name_address, of unbound_address "encode ''vfio-user''"]
  by (simp add: UNIX_PATH_MAX_def unbound_address_def nul_free_def)

end
