(* ===== verification/Sniffer_Text.thy ===== *)
theory Sniffer_Text
  imports Sock_Filter
begin

text \<open>
  The text of the BPF program of the sniffer (\<open>tools/net/sockdump.py\<close>, lines 14 to 177) and \<open>render_text\<close>, which
  fills in its parameters by replacing one name after the other (lines 188 to 206). What is proved is that this is
  the same as filling in all names at once: no number and no filter that is put in is taken for a name later.
\<close>

section \<open>The text of the BPF program\<close>

text \<open>\<open>s.replace(k, v)\<close>, from the left.\<close>

function replace_all :: "string \<Rightarrow> string \<Rightarrow> string \<Rightarrow> string" where
  "replace_all k v [] = []"
| "replace_all k v (c # cs) =
     (if k \<noteq> [] \<and> prefix k (c # cs) then v @ replace_all k v (drop (length k - 1) cs) else c # replace_all k v cs)"
  by pat_completeness auto
termination by (relation "measure (\<lambda>(k, v, s). length s)") auto

definition show_int :: "int \<Rightarrow> string" where
  "show_int n = (if n < 0 then ''-'' @ show_nat (nat (- n)) else show_nat (nat n))"

definition pid_text :: "string option \<Rightarrow> string" where
  "pid_text p =
     (if truthy p then ''if (packet->pid != '' @ the p @ '' && packet->peer_pid != '' @ the p @ '') { return 0; }'' else [])"

definition replaces :: "int \<Rightarrow> int \<Rightarrow> nat \<Rightarrow> string \<times> nat \<times> nat \<Rightarrow> string option \<Rightarrow> (string \<times> string) list" where
  "replaces seg_size segs_per_msg cpus = (\<lambda>(path_filter, path_len, path_len_u64) p.
     [(''__SS_MAX_SEG_SIZE__'', show_int seg_size), (''__SS_MAX_SEGS_PER_MSG__'', show_int segs_per_msg),
      (''__NUM_CPUS__'', show_nat cpus), (''__PATH_LEN__'', show_nat path_len),
      (''__PATH_LEN_U64__'', show_nat (max path_len_u64 1)), (''__PATH_FILTER__'', path_filter),
      (''__PID_FILTER__'', pid_text p)])"

definition render_text :: "nat \<Rightarrow> string \<Rightarrow> int \<Rightarrow> int \<Rightarrow> string \<Rightarrow> string option \<Rightarrow> exn + string" where
  "render_text cpus bpf_text seg_size segs_per_msg sock_path p =
     (case build_filter sock_path of
        Inl e \<Rightarrow> Inl e
      | Inr f \<Rightarrow> Inr (fold (\<lambda>(k, v) t. replace_all k v t) (replaces seg_size segs_per_msg cpus f p) bpf_text))"

section \<open>Filling in the text\<close>

text \<open>
  The text of the program, cut at the names that \<open>render_text\<close> replaces. A name starts with two underscores and a
  capital letter, and nothing else in the text looks like the start of one.
\<close>

datatype text_piece = Literal string | Slot string

primrec piece_source :: "text_piece \<Rightarrow> string" where
  "piece_source (Literal l) = l"
| "piece_source (Slot k) = k"

definition source_text :: "text_piece list \<Rightarrow> string" where
  "source_text ps = concat (map piece_source ps)"

definition is_capital :: "char \<Rightarrow> bool" where
  "is_capital c = (let n = of_char c :: nat in 65 \<le> n \<and> n \<le> 90)"

fun name_start :: "string \<Rightarrow> bool" where
  "name_start (a # b # c # s) = (a = CHR ''_'' \<and> b = CHR ''_'' \<and> is_capital c)"
| "name_start _ = False"

fun no_names :: "string \<Rightarrow> bool" where
  "no_names [] = True"
| "no_names (c # s) = (\<not> name_start (c # s) \<and> no_names s)"

definition clean :: "string \<Rightarrow> bool" where
  "clean l \<longleftrightarrow> no_names l \<and> (l = [] \<or> last l \<noteq> CHR ''_'' \<and> hd l \<noteq> CHR ''_'' \<and> \<not> is_capital (hd l))"

definition slot_name :: "string \<Rightarrow> bool" where
  "slot_name k \<longleftrightarrow> name_start k \<and> no_names (tl k)"

primrec piece_ok :: "string set \<Rightarrow> text_piece \<Rightarrow> bool" where
  "piece_ok ks (Literal l) = clean l"
| "piece_ok ks (Slot k) = (k \<in> ks)"

definition separate :: "string set \<Rightarrow> bool" where
  "separate ks \<longleftrightarrow> (\<forall>k\<in>ks. slot_name k \<and> (\<forall>j\<in>ks. prefix j k \<longrightarrow> j = k))"

text \<open>What may follow a piece: nothing, a name, or a character that is no part of a name.\<close>

definition rest_ok :: "string \<Rightarrow> bool" where
  "rest_ok s \<longleftrightarrow> s = [] \<or> name_start s \<or> hd s \<noteq> CHR ''_'' \<and> \<not> is_capital (hd s)"

lemma name_start_append: "name_start s \<Longrightarrow> name_start (s @ t)"
  by (cases s rule: name_start.cases) auto

lemma no_names_drop: "no_names s \<Longrightarrow> \<not> name_start (drop i s)"
proof (induction s arbitrary: i)
  case (Cons c s)
  then show ?case by (cases i) auto
qed simp

lemma rest_ok_source: "separate ks \<Longrightarrow> list_all (piece_ok ks) ps \<Longrightarrow> rest_ok (source_text ps)"
proof (induction ps)
  case Nil
  then show ?case by (simp add: rest_ok_def source_text_def)
next
  case (Cons p ps)
  show ?case
  proof (cases p)
    case (Literal l)
    then show ?thesis using Cons by (cases l) (auto simp: rest_ok_def source_text_def clean_def)
  next
    case (Slot k)
    then have "name_start k" using Cons by (auto simp: separate_def slot_name_def)
    then show ?thesis using Slot by (simp add: rest_ok_def source_text_def name_start_append)
  qed
qed

lemma replace_skip:
  "(\<And>i. i < length p \<Longrightarrow> \<not> prefix k (drop i p @ rest)) \<Longrightarrow> replace_all k v (p @ rest) = p @ replace_all k v rest"
proof (induction p)
  case (Cons c p)
  have "\<not> prefix k (drop i p @ rest)" if "i < length p" for i using Cons.prems [of "Suc i"] that by simp
  moreover have "\<not> prefix k (c # p @ rest)" using Cons.prems [of 0] by simp
  ultimately show ?case using Cons.IH by simp
qed simp

lemma replace_here: "k \<noteq> [] \<Longrightarrow> replace_all k v (k @ rest) = v @ replace_all k v rest"
  by (cases k) simp_all

lemma name_start_prefix: "name_start k \<Longrightarrow> prefix k s \<Longrightarrow> name_start s"
  by (auto simp: prefix_def name_start_append)

text \<open>The end of a piece and what follows do not make a name.\<close>

lemma no_name_across:
  assumes "\<not> name_start s" and "s \<noteq> []" and "last s \<noteq> CHR ''_'' \<or> rest_ok rest"
  shows "\<not> name_start (s @ rest)"
proof -
  have underscore: "\<not> is_capital (CHR ''_'')" by (simp add: is_capital_def)
  consider a where "s = [a]" | a b where "s = [a, b]" | a b c t where "s = a # b # c # t"
    using assms(2) by (metis list.exhaust)
  then show ?thesis
  proof cases
    case (1 a)
    then show ?thesis using assms(3) underscore
      by (cases rest rule: name_start.cases) (auto simp: rest_ok_def)
  next
    case (2 a b)
    then show ?thesis using assms(3) underscore
      by (cases rest rule: name_start.cases) (auto simp: rest_ok_def)
  next
    case (3 a b c t)
    then show ?thesis using assms(1) by simp
  qed
qed

lemma replace_literal:
  assumes "clean l" and "name_start k"
  shows "replace_all k v (l @ rest) = l @ replace_all k v rest"
proof (rule replace_skip)
  fix i assume i: "i < length l"
  then have "last (drop i l) \<noteq> CHR ''_''" using assms(1) by (auto simp: clean_def last_drop)
  moreover have "\<not> name_start (drop i l)" using assms(1) by (simp add: clean_def no_names_drop)
  ultimately have "\<not> name_start (drop i l @ rest)" using i by (intro no_name_across) auto
  then show "\<not> prefix k (drop i l @ rest)" using assms(2) name_start_prefix by blast
qed

lemma replace_slot:
  assumes "separate ks" and "j \<in> ks" and "k \<in> ks" and "rest_ok rest"
  shows "replace_all k v (j @ rest) = (if j = k then v else j) @ replace_all k v rest"
proof (cases "j = k")
  case True
  have "k \<noteq> []" using assms(1,3) by (auto simp: separate_def slot_name_def)
  then show ?thesis using True by (simp add: replace_here)
next
  case False
  have names: "name_start k" "no_names (tl j)" using assms(1-3) by (auto simp: separate_def slot_name_def)
  have "replace_all k v (j @ rest) = j @ replace_all k v rest"
  proof (rule replace_skip)
    fix i assume i: "i < length j"
    show "\<not> prefix k (drop i j @ rest)"
    proof (cases i)
      case 0
      have "\<not> prefix k j" "\<not> prefix j k" using assms(1-3) False by (auto simp: separate_def)
      then show ?thesis using 0 by (auto simp: prefix_append dest: prefix_same_cases [of k "j @ rest" j])
    next
      case (Suc m)
      then have "\<not> name_start (drop i j)" using no_names_drop [OF names(2), of m] by (simp add: drop_Suc)
      then have "\<not> name_start (drop i j @ rest)" using i assms(4) by (intro no_name_across) auto
      then show ?thesis using names(1) name_start_prefix by blast
    qed
  qed
  then show ?thesis using False by simp
qed

primrec put_in :: "string \<Rightarrow> string \<Rightarrow> text_piece \<Rightarrow> text_piece" where
  "put_in k v (Literal l) = Literal l"
| "put_in k v (Slot j) = (if j = k then Literal v else Slot j)"

lemma replace_pieces:
  assumes "separate ks" and "k \<in> ks" and "list_all (piece_ok ks) ps"
  shows "replace_all k v (source_text ps) = source_text (map (put_in k v) ps)"
  using assms(3)
proof (induction ps)
  case Nil
  then show ?case by (simp add: source_text_def)
next
  case (Cons p ps)
  have rest: "rest_ok (source_text ps)" using Cons.prems rest_ok_source [OF assms(1)] by simp
  have "name_start k" using assms(1,2) by (simp add: separate_def slot_name_def)
  then show ?case
    using Cons replace_literal replace_slot [OF assms(1) _ assms(2) rest]
    by (cases p) (auto simp: source_text_def)
qed

text \<open>One replacement after the other fills in every name; only the last text may hold anything.\<close>

lemma put_literal [simp]: "fold (\<lambda>(k, v). put_in k v) kvs (Literal l) = Literal l"
  by (induction kvs) auto

lemma put_slot:
  "fold (\<lambda>(k, v). put_in k v) kvs (Slot j) = (case map_of kvs j of Some v \<Rightarrow> Literal v | None \<Rightarrow> Slot j)"
  by (induction kvs) auto

lemma fold_replace:
  assumes "separate ks"
  shows "fst ` set kvs \<subseteq> ks \<Longrightarrow> list_all (\<lambda>kv. clean (snd kv)) (butlast kvs) \<Longrightarrow> list_all (piece_ok ks) ps \<Longrightarrow>
    fold (\<lambda>(k, v) t. replace_all k v t) kvs (source_text ps) = source_text (map (fold (\<lambda>(k, v). put_in k v) kvs) ps)"
proof (induction kvs arbitrary: ps)
  case Nil
  then show ?case by simp
next
  case (Cons kv kvs)
  obtain k v where kv: "kv = (k, v)" by (cases kv)
  have here: "replace_all k v (source_text ps) = source_text (map (put_in k v) ps)"
    using Cons.prems kv by (intro replace_pieces [OF assms]) auto
  show ?case
  proof (cases "kvs = []")
    case True
    then show ?thesis using here kv by simp
  next
    case False
    then have "clean v" using Cons.prems(2) kv by simp
    then have "piece_ok ks (put_in k v p)" if "piece_ok ks p" for p using that by (cases p) auto
    then have "list_all (piece_ok ks) (map (put_in k v) ps)" using Cons.prems(3) by (simp add: list_all_iff)
    then show ?thesis using Cons.IH [of "map (put_in k v) ps"] Cons.prems False here kv by (simp add: comp_def)
  qed
qed

definition filled :: "(string \<rightharpoonup> string) \<Rightarrow> text_piece \<Rightarrow> string" where
  "filled m p = (case p of Literal l \<Rightarrow> l | Slot k \<Rightarrow> (case m k of Some v \<Rightarrow> v | None \<Rightarrow> k))"

lemma source_filled:
  "source_text (map (fold (\<lambda>(k, v). put_in k v) kvs) ps) = concat (map (filled (map_of kvs)) ps)"
proof -
  have "piece_source (fold (\<lambda>(k, v). put_in k v) kvs p) = filled (map_of kvs) p" for p
    by (cases p) (simp_all add: put_slot filled_def split: option.splits)
  then show ?thesis by (simp add: source_text_def comp_def)
qed

definition placeholders :: "string list" where
  "placeholders =
     [''__SS_MAX_SEG_SIZE__'', ''__SS_MAX_SEGS_PER_MSG__'', ''__NUM_CPUS__'', ''__PATH_LEN__'', ''__PATH_LEN_U64__'',
      ''__PATH_FILTER__'', ''__PID_FILTER__'']"

lemma placeholders_separate: "separate (set placeholders)"
proof -
  have "list_all (\<lambda>k. slot_name k \<and> list_all (\<lambda>j. prefix j k \<longrightarrow> j = k) placeholders) placeholders" by code_simp
  then show ?thesis by (simp add: separate_def list_all_iff)
qed

text \<open>Numbers and filters hold no underscore.\<close>

lemma clean_plain: "CHR ''_'' \<notin> set l \<Longrightarrow> l = [] \<or> \<not> is_capital (hd l) \<Longrightarrow> clean l"
proof -
  assume no: "CHR ''_'' \<notin> set l" and hd: "l = [] \<or> \<not> is_capital (hd l)"
  have "\<not> name_start s" if "CHR ''_'' \<notin> set s" for s using that by (cases s rule: name_start.cases) auto
  then have "no_names s" if "CHR ''_'' \<notin> set s" for s using that by (induction s) auto
  moreover have "last l \<noteq> CHR ''_''" "hd l \<noteq> CHR ''_''" if "l \<noteq> []"
    using no last_in_set [OF that] hd_in_set [OF that] by metis+
  ultimately show ?thesis using no hd by (auto simp: clean_def)
qed

lemma digit_plain: "is_digit c \<Longrightarrow> c \<noteq> CHR ''_'' \<and> \<not> is_capital c"
  by (auto simp: is_digit_def is_capital_def Let_def)

lemma clean_digits: "list_all is_digit l \<Longrightarrow> clean l"
  by (rule clean_plain) (cases l; auto simp: list_all_iff dest: digit_plain)+

lemma clean_numbers: "clean (show_nat n)" "clean (show_int i)"
proof -
  show "clean (show_nat n)" by (rule clean_digits [OF show_nat_digits])
  have "clean (CHR ''-'' # show_nat m)" for m
    using show_nat_digits [of m] by (intro clean_plain) (auto simp: list_all_iff is_capital_def dest: digit_plain)
  then show "clean (show_int i)" by (simp add: show_int_def clean_digits [OF show_nat_digits])
qed

lemma set_join: "set (join sep xs) \<subseteq> set sep \<union> \<Union> (set ` set xs)"
  by (induction sep xs rule: join.induct) auto

lemma clean_filter: "clean (filter_text f)"
proof (rule clean_plain)
  show "filter_text f = [] \<or> \<not> is_capital (hd (filter_text f))" by (cases f) (simp_all add: filter_text_def is_capital_def)
  have num: "CHR ''_'' \<notin> set (show_nat n)" for n
    using show_nat_digits [of n] by (auto simp: list_all_iff dest: digit_plain)
  have "CHR ''_'' \<notin> set (join '' && '' (map (\<lambda>(i, n). ''path['' @ show_nat i @ ''] == '' @ show_nat n) xs))" for xs
    using set_join [of "'' && ''" "map (\<lambda>(i, n). ''path['' @ show_nat i @ ''] == '' @ show_nat n) xs"] num by fastforce
  then show "CHR ''_'' \<notin> set (filter_text f)" by (cases f) (simp_all add: filter_text_def)
qed

lemma build_filter_clean: "build_filter p = Inr (f, n, m) \<Longrightarrow> clean f"
  by (auto simp: build_filter_def clean_filter split: sum.splits prod.splits)

lemma render_pieces:
  assumes "list_all (piece_ok (set placeholders)) ps"
  shows "render_text cpu_count (source_text ps) seg_size segs sock_path p =
    map_sum id (\<lambda>f. concat (map (filled (map_of (replaces seg_size segs cpu_count f p))) ps)) (build_filter sock_path)"
proof (cases "build_filter sock_path")
  case (Inl e)
  then show ?thesis by (simp add: render_text_def)
next
  case (Inr f)
  obtain t n m where f: "f = (t, n, m)" by (cases f)
  let ?kvs = "replaces seg_size segs cpu_count f p"
  have "fst ` set ?kvs \<subseteq> set placeholders" by (simp add: replaces_def placeholders_def f)
  moreover have "list_all (\<lambda>kv. clean (snd kv)) (butlast ?kvs)"
    using Inr f by (simp add: replaces_def clean_numbers build_filter_clean)
  ultimately show ?thesis
    using fold_replace [OF placeholders_separate _ _ assms, of ?kvs] source_filled [of ?kvs ps]
    by (simp add: render_text_def Inr)
qed

lemma clean_text: "no_names (c # l) \<Longrightarrow> last (c # l) \<noteq> CHR ''_'' \<Longrightarrow> c \<noteq> CHR ''_'' \<Longrightarrow> \<not> is_capital c \<Longrightarrow> clean (c # l)"
  by (simp add: clean_def)

section \<open>The program itself\<close>

text \<open>
  The text as it stands in the script, cut at the names; a backslash at the end of a line joins it with the next,
  and two backslashes are one.
\<close>

definition text_of_lines :: "string list \<Rightarrow> string" where
  "text_of_lines ls = concat (map (\<lambda>l. l @ newline) ls)"

lemma no_names_append:
  "no_names a \<Longrightarrow> no_names b \<Longrightarrow> b = [] \<or> hd b \<noteq> CHR ''_'' \<and> \<not> is_capital (hd b) \<Longrightarrow> no_names (a @ b)"
proof (induction a)
  case (Cons c a)
  have "rest_ok b" using Cons.prems(3) by (auto simp: rest_ok_def)
  then have "\<not> name_start ((c # a) @ b)" using Cons.prems(1) by (intro no_name_across) auto
  then show ?case using Cons by simp
qed simp

lemma newline_plain: "hd (newline @ s) \<noteq> CHR ''_''" "\<not> is_capital (hd (newline @ s))" "no_names (newline @ s) = no_names s"
  by (simp_all add: newline_def is_capital_def) (cases s rule: list.exhaust; cases "tl s"; simp)

lemma no_names_lines: "list_all no_names ls \<Longrightarrow> no_names rest \<Longrightarrow> no_names (text_of_lines ls @ rest)"
proof (induction ls)
  case (Cons l ls)
  then have "no_names (l @ newline @ text_of_lines ls @ rest)"
    using no_names_append [of l "newline @ text_of_lines ls @ rest"] by (simp add: newline_plain)
  then show ?case by (simp add: text_of_lines_def)
qed (simp add: text_of_lines_def)

text \<open>A text in lines is clean when its lines are.\<close>

lemma clean_lines:
  assumes "list_all no_names (l # ls)" and "no_names rest" and "l = [] \<or> hd l \<noteq> CHR ''_'' \<and> \<not> is_capital (hd l)"
    and "rest = [] \<or> last rest \<noteq> CHR ''_''"
  shows "clean (text_of_lines (l # ls) @ rest)"
proof -
  have "last (text_of_lines (l # ls)) \<noteq> CHR ''_''" "text_of_lines (l # ls) \<noteq> []"
    by (induction ls arbitrary: l) (auto simp: text_of_lines_def newline_def)
  moreover have "hd (text_of_lines (l # ls) @ rest) = (if l = [] then CHR 0x0A else hd l)"
    by (simp add: text_of_lines_def newline_def)
  ultimately show ?thesis
    using assms no_names_lines [OF assms(1,2)] by (auto simp: clean_def last_append is_capital_def split: if_splits)
qed

lemma clean_whole_lines:
  "list_all no_names (l # ls) \<Longrightarrow> l = [] \<or> hd l \<noteq> CHR ''_'' \<and> \<not> is_capital (hd l) \<Longrightarrow> clean (text_of_lines (l # ls))"
  using clean_lines [of l ls "[]"] by simp

definition bpf_pieces :: "text_piece list" where
  "bpf_pieces =
     [Literal (text_of_lines
        [[],
         ''#include <linux/sched.h>'',
         ''#include <linux/net.h>'',
         ''#include <uapi/linux/un.h>'',
         ''#include <net/af_unix.h>'',
         ''#include <linux/version.h>'',
         []] @ ''#define SS_MAX_SEG_SIZE     ''),
      Slot ''__SS_MAX_SEG_SIZE__'',
      Literal (text_of_lines
        [[]] @ ''#define SS_MAX_SEGS_PER_MSG ''),
      Slot ''__SS_MAX_SEGS_PER_MSG__'',
      Literal (text_of_lines
        [[],
         [],
         ''#define SS_PACKET_F_ERR     1'',
         [],
         ''#define SOCK_PATH_OFFSET        (offsetof(struct unix_address, name) + offsetof(struct sockaddr_un, sun_path))'',
         [],
         ''struct packet {'',
         ''    u32 pid;'',
         ''    u32 peer_pid;'',
         ''    u32 len;'',
         ''    u32 flags;'',
         ''    char comm[TASK_COMM_LEN];'',
         ''    char path[UNIX_PATH_MAX];'',
         ''    char data[SS_MAX_SEG_SIZE];'',
         ''};'',
         [],
         ''// use regular array instead percpu array because'',
         ''// percpu array element size cannot be larger than 3k''] @ ''BPF_ARRAY(packet_array, struct packet, ''),
      Slot ''__NUM_CPUS__'',
      Literal (text_of_lines
        ['');'',
         ''BPF_PERF_OUTPUT(events);'',
         [],
         ''int probe_unix_socket_sendmsg(struct pt_regs *ctx,'',
         ''                              struct socket *sock,'',
         ''                              struct msghdr *msg,'',
         ''                              size_t len)'',
         ''{'',
         ''    struct packet *packet;'',
         ''    struct unix_address *addr;'',
         ''    char *buf, *sock_path;''] @ ''    unsigned long path[''),
      Slot ''__PATH_LEN_U64__'',
      Literal (text_of_lines
        [''] = {0};'',
         ''    unsigned int n, match = 0, offset;'',
         ''    struct iov_iter *iter;'',
         ''#if LINUX_VERSION_CODE >= KERNEL_VERSION(6,0,0)'',
         ''    const struct iovec *iov;'',
         ''#else'',
         ''    const struct kvec *iov;'',
         ''#endif'',
         ''    struct pid *peer_pid;'',
         [],
         ''    addr = ((struct unix_sock *'' @ '')sock->sk)->addr;'',
         ''    if (addr->len > 0) {'',
         ''        sock_path = (char *'' @ '')addr + SOCK_PATH_OFFSET;'',
         ''        if ('' @ ''*sock_path == 0) {'',
         ''            // abstract sockets start with '' @ [CHR 0x5C] @ ''0 and the name comes after'',
         ''            // (they actually have no @ prefix but some tools use that)''] @ ''            bpf_probe_read(&path, ''),
      Slot ''__PATH_LEN__'',
      Literal (text_of_lines
        ['' - 1, sock_path + 1);'',
         ''        } else {''] @ ''            bpf_probe_read(&path, ''),
      Slot ''__PATH_LEN__'',
      Literal (text_of_lines
        ['', sock_path);'',
         ''        }''] @ ''        ''),
      Slot ''__PATH_FILTER__'',
      Literal (text_of_lines
        [[],
         ''    }'',
         [],
         ''    addr = ((struct unix_sock *'' @ '')((struct unix_sock *'' @ '')sock->sk)->peer)->addr;'',
         ''    if (match == 0 && addr->len > 0) {'',
         ''        sock_path = (char *'' @ '')addr + SOCK_PATH_OFFSET;'',
         ''        if ('' @ ''*sock_path == 0) {'',
         ''            // abstract sockets start with '' @ [CHR 0x5C] @ ''0 and the name comes after'',
         ''            // (they actually have no @ prefix but some tools use that)''] @ ''            bpf_probe_read(&path, ''),
      Slot ''__PATH_LEN__'',
      Literal (text_of_lines
        ['' - 1, sock_path + 1);'',
         ''        } else {''] @ ''            bpf_probe_read(&path, ''),
      Slot ''__PATH_LEN__'',
      Literal (text_of_lines
        ['', sock_path);'',
         ''        }''] @ ''        ''),
      Slot ''__PATH_FILTER__'',
      Literal (text_of_lines
        [[],
         ''    }'',
         [],
         ''    if (match == 0)'',
         ''        return 0;'',
         [],
         ''    n = bpf_get_smp_processor_id();'',
         ''    packet = packet_array.lookup(&n);'',
         ''    if (packet == NULL)'',
         ''        return 0;'',
         [],
         ''    packet->pid = bpf_get_current_pid_tgid() >> 32;'',
         ''    bpf_get_current_comm(&packet->comm, sizeof(packet->comm));'',
         ''    bpf_probe_read(&packet->path, UNIX_PATH_MAX, sock_path);'',
         ''    packet->peer_pid = sock->sk->sk_peer_pid->numbers->nr;'',
         []] @ ''    ''),
      Slot ''__PID_FILTER__'',
      Literal (text_of_lines
        [[],
         [],
         ''    iter = &msg->msg_iter;'',
         ''#if LINUX_VERSION_CODE >= KERNEL_VERSION(6,0,0)'',
         ''    if (iter->iter_type == ITER_UBUF) {'',
         ''        packet->len = len;'',
         ''        packet->flags = 0;'',
         ''        buf = iter->ubuf;'',
         ''        n = len;'',
         [],
         ''        bpf_probe_read('',
         ''            &packet->data,'',
         ''            // check size in args to make compiler/validator happy'',
         ''            n > sizeof(packet->data) ? sizeof(packet->data) : n,'',
         ''            buf);'',
         [],
         ''        n += offsetof(struct packet, data);'',
         ''        events.perf_submit('',
         ''            ctx,'',
         ''            packet,'',
         ''            // check size in args to make compiler/validator happy'',
         ''            n > sizeof('' @ ''*packet) ? sizeof('' @ ''*packet) : n);'',
         [],
         ''        return 0;'',
         ''    }'',
         [],
         ''    if (iter->iter_type != ITER_IOVEC || iter->iov_offset != 0) {'',
         ''#else'',
         ''    if (iter->iov_offset != 0) {'',
         ''#endif'',
         ''        packet->len = len;'',
         ''        packet->flags = SS_PACKET_F_ERR;'',
         ''        events.perf_submit(ctx, packet, offsetof(struct packet, data));'',
         ''        return 0;'',
         ''    }'',
         [],
         ''#if LINUX_VERSION_CODE >= KERNEL_VERSION(6,3,0)'',
         ''    iov = iter->__iov;'',
         ''#elif LINUX_VERSION_CODE >= KERNEL_VERSION(6,0,0)'',
         ''    iov = iter->iov;'',
         ''#else'',
         ''    iov = iter->kvec;'',
         ''#endif'',
         [],
         ''    #pragma unroll'',
         ''    for (int i = 0; i < SS_MAX_SEGS_PER_MSG; i++) {'',
         ''        if (i >= iter->nr_segs)'',
         ''            break;'',
         [],
         ''        if (iov->iov_len == 0) {'',
         ''            iov++;'',
         ''            continue;'',
         ''        }'',
         ''        packet->len = iov->iov_len;'',
         ''        packet->flags = 0;'',
         [],
         ''        buf = iov->iov_base;'',
         ''        n = iov->iov_len;'',
         ''        bpf_probe_read('',
         ''            &packet->data,'',
         ''            // check size in args to make compiler/validator happy'',
         ''            n > sizeof(packet->data) ? sizeof(packet->data) : n,'',
         ''            buf);'',
         [],
         ''        n += offsetof(struct packet, data);'',
         ''        events.perf_submit('',
         ''            ctx,'',
         ''            packet,'',
         ''            // check size in args to make compiler/validator happy'',
         ''            n > sizeof('' @ ''*packet) ? sizeof('' @ ''*packet) : n);'',
         [],
         ''        iov++;'',
         ''    }'',
         [],
         ''    return 0;'',
         ''}''])]"

definition bpf_text :: string where
  "bpf_text = source_text bpf_pieces"

lemma bpf_pieces_ok: "list_all (piece_ok (set placeholders)) bpf_pieces"
  by (simp add: bpf_pieces_def clean_lines clean_whole_lines clean_text placeholders_def is_capital_def)

text \<open>
  C18. Rendering the text of the program fails exactly as \<open>build_filter\<close> does. Otherwise every name in the text has a
  value, and the rendered text is the text with all of them filled in at once: what is put in for one name is never
  taken for another, nor is anything else in the text changed, whatever the socket path and the process id are.
\<close>

theorem rendered_at_once:
  "render_text cpu_count bpf_text seg_size segs sock_path p =
     map_sum id (\<lambda>f. concat (map (filled (map_of (replaces seg_size segs cpu_count f p))) bpf_pieces)) (build_filter sock_path) \<and>
   {k. Slot k \<in> set bpf_pieces} \<subseteq> dom (map_of (replaces seg_size segs cpu_count f p))"
proof
  show "render_text cpu_count bpf_text seg_size segs sock_path p =
     map_sum id (\<lambda>f. concat (map (filled (map_of (replaces seg_size segs cpu_count f p))) bpf_pieces)) (build_filter sock_path)"
    unfolding bpf_text_def by (rule render_pieces [OF bpf_pieces_ok])
  have "k \<in> set placeholders" if "Slot k \<in> set bpf_pieces" for k
    using bpf_pieces_ok that by (auto simp: list_all_iff)
  moreover have "dom (map_of (replaces seg_size segs cpu_count f p)) = set placeholders"
    by (cases f) (auto simp: dom_map_of_conv_image_fst replaces_def placeholders_def)
  ultimately show "{k. Slot k \<in> set bpf_pieces} \<subseteq> dom (map_of (replaces seg_size segs cpu_count f p))" by auto
qed

end
