(* ===== verification/Arg_Parse.thy ===== *)
theory Arg_Parse
  imports Prelude
begin

text \<open>
  The part of Python's \<open>argparse\<close> that the scripts with options use (\<open>run_pcie_agent.py\<close>,
  \<open>workspace_setup.py\<close> and, with a parser of its own, \<open>tools/net/sockdump.py\<close>): options by name or prefix, with or
  without a value.
\<close>

text \<open>
  argparse resolves an option by its name or an unambiguous prefix of it, with the value behind an equals
  sign split off. \<open>-h\<close> is the only short option; a bare \<open>--\<close>, and
  letters attached to \<open>-h\<close>, are not modelled.
\<close>

datatype resolved = Unknown | Ambiguous | Known string "string option"

definition split_value :: "string \<Rightarrow> string \<times> string option" where
  "split_value a =
     (case dropWhile (\<lambda>c. c \<noteq> CHR ''='') a of
        [] \<Rightarrow> (a, None)
      | _ # v \<Rightarrow> (takeWhile (\<lambda>c. c \<noteq> CHR ''='') a, Some v))"

definition resolve :: "string list \<Rightarrow> string \<Rightarrow> resolved" where
  "resolve names a =
     (let (name, val) = split_value a
      in if a = ''-h'' then Known ''--help'' None
         else if a \<in> set names then Known a None
         else if name \<in> set names then Known name val
         else case filter (prefix name) names of
             [] \<Rightarrow> Unknown
           | [n] \<Rightarrow> Known n val
           | _ \<Rightarrow> Ambiguous)"

definition is_option :: "string \<Rightarrow> bool" where
  "is_option a \<longleftrightarrow> prefix ''-'' a \<and> a \<noteq> ''-''"

text \<open>
  Options that take a value from a list of choices, or none: the values of those that are given, the last
  one first. What is not recognised is reported at the end, after the help flag has had its turn.
\<close>

fun parse_options ::
  "(string \<times> string list option) list \<Rightarrow> (string \<times> string option) list \<Rightarrow> bool \<Rightarrow> string list \<Rightarrow>
     exn + (string \<times> string option) list" where
  "parse_options opts ns extras [] = (if extras then Inl (SystemExit 2) else Inr ns)"
| "parse_options opts ns extras (a # as) =
     (if \<not> is_option a then parse_options opts ns True as
      else case resolve (''--help'' # map fst opts) a of
          Unknown \<Rightarrow> parse_options opts ns True as
        | Ambiguous \<Rightarrow> Inl (SystemExit 2)
        | Known name val \<Rightarrow>
            (case map_of opts name of
               Some (Some choices) \<Rightarrow>
                 (case val of
                    Some v \<Rightarrow> if v \<in> set choices then parse_options opts ((name, Some v) # ns) extras as else Inl (SystemExit 2)
                  | None \<Rightarrow>
                      (case as of
                         [] \<Rightarrow> Inl (SystemExit 2)
                       | v # as' \<Rightarrow>
                           if \<not> is_option v \<and> v \<in> set choices then parse_options opts ((name, Some v) # ns) extras as'
                           else Inl (SystemExit 2)))
             | Some None \<Rightarrow> if val \<noteq> None then Inl (SystemExit 2) else parse_options opts ((name, None) # ns) extras as
             | None \<Rightarrow> if val \<noteq> None then Inl (SystemExit 2) else Inl (SystemExit 0)))"

text \<open>The value of an option, if it is given.\<close>

definition option_value :: "(string \<times> string option) list \<Rightarrow> string \<Rightarrow> string option" where
  "option_value ns name = Option.bind (map_of ns name) id"

end
