(* ===== verification/Sniffer_Main.thy ===== *)
theory Sniffer_Main
  imports Pcap_File Packet_Dump Sniffer_Text Arg_Parse
begin

text \<open>
  The sniffer as a program (\<open>tools/net/sockdump.py\<close>, lines 365 to 474): its command line, the
  size of the perf buffer, and \<open>main\<close> from the filter to the signal that ends the capture.
  The BPF library is a parameter: what it does with the program, with the probes and with the buffer.
\<close>

section \<open>The command line\<close>

text \<open>
  An option is a switch, or takes a text, a number or one of some words. A word that starts with a hyphen is no
  option where no option has such a name and it is a negative number or contains a space.
\<close>

datatype option_kind = Switch | Value | Integer | One_Of "string list"

definition outputs :: "string list" where
  "outputs = [''hex'', ''hexstring'', ''string'', ''pcap'']"

definition sniffer_options :: "(string \<times> option_kind) list" where
  "sniffer_options =
     [(''--seg-size'', Integer), (''--segs-per-msg'', Integer), (''--segs-in-buffer'', Integer), (''--format'', One_Of outputs),
      (''--raw'', Switch), (''--output'', Value), (''--flush'', Switch), (''--pid'', Value), (''--bpf'', Switch),
      (''--disassemble'', Switch)]"

definition names_of :: "(string \<times> option_kind) list \<Rightarrow> string list" where
  "names_of opts = ''--help'' # map fst opts"

definition negative_number :: "string \<Rightarrow> bool" where
  "negative_number a =
     (case a of
        [] \<Rightarrow> False
      | c # cs \<Rightarrow> c = CHR ''-'' \<and>
          (str_isdigit cs \<or> (case split_on (CHR ''.'') cs of [m, n] \<Rightarrow> list_all is_digit m \<and> str_isdigit n | _ \<Rightarrow> False)))"

definition is_word :: "string list \<Rightarrow> string \<Rightarrow> bool" where
  "is_word names a \<longleftrightarrow>
     \<not> is_option a \<or> resolve names a = Unknown \<and> (negative_number a \<or> CHR '' '' \<in> set a)"

definition takes :: "option_kind \<Rightarrow> string \<Rightarrow> bool" where
  "takes k v =
     (case k of
        Integer \<Rightarrow> (case py_int v of Inl _ \<Rightarrow> False | Inr _ \<Rightarrow> True)
      | One_Of words \<Rightarrow> v \<in> set words
      | _ \<Rightarrow> True)"

fun parse_words ::
  "(string \<times> option_kind) list \<Rightarrow> (string \<times> string) list \<Rightarrow> string option \<Rightarrow> bool \<Rightarrow> string list \<Rightarrow>
     exn + (string \<times> string) list \<times> string" where
  "parse_words opts ns word extras [] =
     (case word of
        None \<Rightarrow> Inl (SystemExit 2)
      | Some w \<Rightarrow> if extras then Inl (SystemExit 2) else Inr (ns, w))"
| "parse_words opts ns word extras (a # as) =
     (if is_word (names_of opts) a then
        (if word = None then parse_words opts ns (Some a) extras as else parse_words opts ns word True as)
      else case resolve (names_of opts) a of
          Unknown \<Rightarrow> parse_words opts ns word True as
        | Ambiguous \<Rightarrow> Inl (SystemExit 2)
        | Known name val \<Rightarrow>
            (case map_of opts name of
               None \<Rightarrow> if val \<noteq> None then Inl (SystemExit 2) else Inl (SystemExit 0)
             | Some k \<Rightarrow>
                 if k = Switch then
                   (if val \<noteq> None then Inl (SystemExit 2) else parse_words opts ((name, []) # ns) word extras as)
                 else
                   (case val of
                      Some v \<Rightarrow> if takes k v then parse_words opts ((name, v) # ns) word extras as else Inl (SystemExit 2)
                    | None \<Rightarrow>
                        (case as of
                           [] \<Rightarrow> Inl (SystemExit 2)
                         | v # as' \<Rightarrow>
                             if is_word (names_of opts) v \<and> takes k v then parse_words opts ((name, v) # ns) word extras as'
                             else Inl (SystemExit 2)))))"

record sniffer_args =
  seg_size_arg :: int
  segs_per_msg_arg :: int
  segs_in_buffer_arg :: int
  format_arg :: string
  raw_arg :: bool
  output_arg :: string
  flush_arg :: bool
  pid_arg :: "string option"
  bpf_arg :: bool
  disassemble_arg :: bool
  sock_arg :: string

definition number_of :: "(string \<times> string) list \<Rightarrow> string \<Rightarrow> int \<Rightarrow> int" where
  "number_of ns name d =
     (case map_of ns name of
        None \<Rightarrow> d
      | Some v \<Rightarrow> (case py_int v of Inl _ \<Rightarrow> d | Inr n \<Rightarrow> n))"

definition value_of :: "(string \<times> string) list \<Rightarrow> string \<Rightarrow> string \<Rightarrow> string" where
  "value_of ns name d = (case map_of ns name of None \<Rightarrow> d | Some v \<Rightarrow> v)"

definition SS_MAX_SEG_SIZE :: int where
  "SS_MAX_SEG_SIZE = 1024 * 50"

definition SS_MAX_SEGS_PER_MSG :: int where
  "SS_MAX_SEGS_PER_MSG = 10"

definition SS_MAX_SEGS_IN_BUFFER :: int where
  "SS_MAX_SEGS_IN_BUFFER = 100"

definition parse_args :: "string list \<Rightarrow> exn + sniffer_args" where
  "parse_args argv =
     (case parse_words sniffer_options [] None False argv of
        Inl e \<Rightarrow> Inl e
      | Inr (ns, sock) \<Rightarrow> Inr
          \<lparr>seg_size_arg = number_of ns ''--seg-size'' SS_MAX_SEG_SIZE,
           segs_per_msg_arg = number_of ns ''--segs-per-msg'' SS_MAX_SEGS_PER_MSG,
           segs_in_buffer_arg = number_of ns ''--segs-in-buffer'' SS_MAX_SEGS_IN_BUFFER,
           format_arg = value_of ns ''--format'' ''hex'', raw_arg = map_of ns ''--raw'' \<noteq> None,
           output_arg = value_of ns ''--output'' ''/dev/stdout'', flush_arg = map_of ns ''--flush'' \<noteq> None,
           pid_arg = map_of ns ''--pid'', bpf_arg = map_of ns ''--bpf'' \<noteq> None,
           disassemble_arg = map_of ns ''--disassemble'' \<noteq> None, sock_arg = sock\<rparr>)"

section \<open>The size of the perf buffer\<close>

text \<open>
  \<open>2 ** math.ceil(math.log(x, 2))\<close> for \<open>x = a / b\<close>, without the rounding of \<open>math.log\<close>: a power of two, or, where
  the exponent is negative, a fraction, which Python gives as a \<open>float\<close>.
\<close>

datatype page_cnt = Pages nat | Fraction nat

function exponent_up :: "nat \<Rightarrow> nat \<Rightarrow> nat" where
  "exponent_up a b = (if b = 0 \<or> a \<le> b then 0 else Suc (exponent_up a (2 * b)))"
  by pat_completeness auto
termination by (relation "measure (\<lambda>(a, b). a - b)") auto

function exponent_down :: "nat \<Rightarrow> nat \<Rightarrow> nat" where
  "exponent_down a b = (if a = 0 \<or> b < 2 * a then 0 else Suc (exponent_down (2 * a) b))"
  by pat_completeness auto
termination by (relation "measure (\<lambda>(a, b). b - a)") auto

declare exponent_up.simps [simp del] exponent_down.simps [simp del]

definition npages :: "int \<Rightarrow> int \<Rightarrow> nat \<Rightarrow> exn + page_cnt" where
  "npages seg_size segs_in_buffer page =
     (if seg_size * segs_in_buffer \<le> 0 then Inl ValueError
      else
        let a = nat (seg_size * segs_in_buffer) in
        if page < a then Inr (Pages (2 ^ exponent_up a page))
        else case exponent_down a page of 0 \<Rightarrow> Inr (Pages 1) | Suc k \<Rightarrow> Inr (Fraction (2 ^ Suc k)))"

section \<open>main\<close>

text \<open>What the library, the kernel and the file system answer: an exception, or nothing.\<close>

record bcc =
  cpus :: nat
  page_size :: nat
  compiles :: "string \<Rightarrow> exn option"
  attaches :: "string \<Rightarrow> exn option"
  maps_buffer :: "page_cnt \<Rightarrow> exn option"
  opens :: "string \<Rightarrow> exn option"

text \<open>What goes to \<open>sys.stdout\<close>, which file that is, and what goes to \<open>sys.stderr\<close>.\<close>

record sniffer_state =
  capture :: dump
  stdout_path :: string
  stderr_lines :: "string list"

definition demand :: "exn option \<Rightarrow> (sniffer_state, unit) prog" where
  "demand r = (case r of None \<Rightarrow> ret () | Some e \<Rightarrow> raise e)"

definition on_dump :: "(dump, 'a) prog \<Rightarrow> (sniffer_state, 'a) prog" where
  "on_dump m s = (case m (capture s) of (r, d) \<Rightarrow> (r, s\<lparr>capture := d\<rparr>))"

definition say_error :: "string \<Rightarrow> (sniffer_state, unit) prog" where
  "say_error line = modE (\<lambda>s. s\<lparr>stderr_lines := stderr_lines s @ [line]\<rparr>)"

definition output_fn :: "string \<Rightarrow> bool \<Rightarrow> int \<times> int \<times> byte list \<Rightarrow> (dump, unit) prog" where
  "output_fn fmt raw_mode = (\<lambda>(sec, usec, event).
     if fmt = ''pcap'' then pcap_output sec usec event (\<not> raw_mode)
     else if fmt = ''hex'' then hex_output event
     else if fmt = ''hexstring'' then hexstring_output event
     else string_output event)"

text \<open>The buffer hands an event to the callback; an exception there is reported and polling goes on.\<close>

definition perf_buffer_poll :: "(int \<times> int \<times> byte list \<Rightarrow> (dump, unit) prog) \<Rightarrow> int \<times> int \<times> byte list \<Rightarrow> (dump, unit) prog" where
  "perf_buffer_poll callback ev d = (Inr (), snd (callback ev d))"

definition sig_handler :: "int \<Rightarrow> (sniffer_state, unit) prog" where
  "sig_handler signum =
     bindE (getE (\<lambda>s. packet_count (capture s))) (\<lambda>n.
     seqE (say_error (newline @ show_nat n @ '' packets captured'')) (raise (SystemExit signum)))"

definition redirect :: "bcc \<Rightarrow> sniffer_args \<Rightarrow> (sniffer_state, unit) prog" where
  "redirect b args =
     (if output_arg args \<noteq> ''/dev/stdout''
      then seqE (demand (opens b (output_arg args))) (modE (\<lambda>s. s\<lparr>stdout_path := output_arg args\<rparr>))
      else if format_arg args = ''pcap'' then on_dump flush else ret ())"

text \<open>The events that arrive until the signal, which comes between two of them.\<close>

definition sniffer_main :: "bcc \<Rightarrow> sniffer_args \<Rightarrow> (int \<times> int \<times> byte list) list \<Rightarrow> int \<Rightarrow> (sniffer_state, unit) prog" where
  "sniffer_main b args events signum =
     bindE (liftE (render_text (cpus b) bpf_text (seg_size_arg args) (segs_per_msg_arg args) (sock_arg args) (pid_arg args)))
       (\<lambda>program.
     if bpf_arg args then on_dump (print_line (TextLine program))
     else seqE (demand (compiles b program))
       (if disassemble_arg args then ret ()
        else seqs
          [demand (attaches b ''unix_stream_sendmsg''), demand (attaches b ''unix_dgram_sendmsg''),
           bindE (liftE (npages (seg_size_arg args) (segs_in_buffer_arg args) (page_size b))) (\<lambda>n. demand (maps_buffer b n)),
           on_dump (modE (\<lambda>d. d\<lparr>flush_after_each_packet := flush_arg args\<rparr>)),
           redirect b args,
           whenE (format_arg args = ''pcap'') (on_dump (pcap_write_header (seg_size_arg args) PCAP_LINK_TYPE)),
           say_error ''waiting for data'',
           on_dump (forE events (perf_buffer_poll (output_fn (format_arg args) (raw_arg args)))),
           sig_handler signum]))"

text \<open>The whole script; however it ends, the interpreter flushes \<open>sys.stdout\<close> on its way out.\<close>

definition idle_sniffer :: sniffer_state where
  "idle_sniffer = \<lparr>capture = fresh_dump, stdout_path = ''/dev/stdout'', stderr_lines = []\<rparr>"

definition sockdump_script :: "bcc \<Rightarrow> string list \<Rightarrow> (int \<times> int \<times> byte list) list \<Rightarrow> int \<Rightarrow> (exn + unit) \<times> sniffer_state" where
  "sockdump_script b argv events signum =
     finallyE (bindE (liftE (parse_args argv)) (\<lambda>args. sniffer_main b args events signum)) (on_dump flush) idle_sniffer"

section \<open>The page count is the least power of two\<close>

lemma exponent_up_bounds:
  "0 < b \<Longrightarrow> a \<le> 2 ^ exponent_up a b * b \<and> (b < a \<longrightarrow> 2 ^ exponent_up a b * b < 2 * a)"
proof (induction a b rule: exponent_up.induct)
  case (1 a b)
  show ?case
  proof (cases "a \<le> b")
    case True
    then show ?thesis by (simp add: exponent_up.simps [of a b])
  next
    case False
    have twice: "2 ^ exponent_up a b * b = 2 ^ exponent_up a (2 * b) * (2 * b)"
      using 1(2) False by (simp add: exponent_up.simps [of a b])
    have "exponent_up a (2 * b) = 0" if "a \<le> 2 * b" using that by (simp add: exponent_up.simps [of a "2 * b"])
    then show ?thesis using 1 False unfolding twice by (cases "a \<le> 2 * b") auto
  qed
qed

lemma exponent_down_bounds:
  "0 < a \<Longrightarrow> a \<le> b \<Longrightarrow> 2 ^ exponent_down a b * a \<le> b \<and> b < 2 * (2 ^ exponent_down a b * a)"
proof (induction a b rule: exponent_down.induct)
  case (1 a b)
  show ?case
  proof (cases "b < 2 * a")
    case True
    then show ?thesis using 1 by (simp add: exponent_down.simps [of a b])
  next
    case False
    have "2 ^ exponent_down a b * a = 2 ^ exponent_down (2 * a) b * (2 * a)"
      using 1(2) False by (simp add: exponent_down.simps [of a b])
    then show ?thesis using 1 False by simp
  qed
qed



section \<open>A capture\<close>

text \<open>A library, a kernel and a file system that accept everything.\<close>

definition willing :: "bcc \<Rightarrow> bool" where
  "willing b \<longleftrightarrow>
     (\<forall>p. compiles b p = None) \<and> (\<forall>e. attaches b e = None) \<and> (\<forall>n. maps_buffer b n = None) \<and> (\<forall>p. opens b p = None)"

lemma poll_all: "forE events (perf_buffer_poll callback) d = (Inr (), fold (\<lambda>ev d. snd (callback ev d)) events d)"
  by (induction events arbitrary: d) (simp_all add: prog_simps perf_buffer_poll_def)

lemma poll_pcap:
  "fold (\<lambda>ev d. snd (output_fn ''pcap'' raw_mode ev d)) events d = fold (deliver (\<not> raw_mode)) events d"
  by (induction events arbitrary: d) (simp_all add: output_fn_def deliver_def split: prod.splits)

lemma pages_given:
  assumes "0 < seg_size * segs"
  shows "\<exists>n. npages seg_size segs page = Inr n"
  using assms by (auto simp: npages_def Let_def split: nat.splits)

lemma pcap_run:
  fixes events :: "(int \<times> int \<times> byte list) list"
  assumes accepted: "willing b" "build_filter (sock_arg args) = Inr f" "0 < seg_size_arg args * segs_in_buffer_arg args"
    and seg: "0 \<le> seg_size_arg args" "seg_size_arg args < 2 ^ 32"
    and args: "format_arg args = ''pcap''" "\<not> bpf_arg args" "\<not> disassemble_arg args" "output_arg args \<noteq> ''/dev/stdout''"
  defines "d \<equiv> pcap_main (seg_size_arg args) (raw_arg args) (flush_arg args) events fresh_dump"
  shows "sniffer_main b args events signum idle_sniffer =
    (Inl (SystemExit signum),
     \<lparr>capture = d, stdout_path = output_arg args,
      stderr_lines = [''waiting for data'', newline @ show_nat (packet_count d) @ '' packets captured'']\<rparr>)"
proof -
  obtain program where program: "render_text (cpus b) bpf_text (seg_size_arg args) (segs_per_msg_arg args) (sock_arg args) (pid_arg args) = Inr program"
    using accepted(2) by (simp add: render_text_def)
  obtain n where n: "npages (seg_size_arg args) (segs_in_buffer_arg args) (page_size b) = Inr n"
    using pages_given [OF accepted(3)] by blast
  define d1 where "d1 = fresh_dump\<lparr>flush_after_each_packet := flush_arg args\<rparr>"
  obtain d2 where d2: "pcap_write_header (seg_size_arg args) PCAP_LINK_TYPE d1 = (Inr (), d2)"
    using header_ok [OF seg] by blast
  have d: "d = fold (deliver (\<not> raw_arg args)) events d2"
    using d2 by (simp add: d_def pcap_main_def d1_def [symmetric])
  show ?thesis
    using accepted(1) args
    by (simp add: sniffer_main_def program n prog_simps demand_def willing_def on_dump_def idle_sniffer_def d1_def [symmetric]
        redirect_def d2 say_error_def poll_all poll_pcap sig_handler_def flip: d)
qed

text \<open>The script in raw pcap mode.\<close>

lemma raw_script:
  assumes "parse_args argv = Inr args" and "willing b" and "build_filter (sock_arg args) = Inr f"
    and "0 < seg_size_arg args" and "seg_size_arg args < 2 ^ 32" and "0 < segs_in_buffer_arg args"
    and "format_arg args = ''pcap''" and "raw_arg args" and "\<not> bpf_arg args" and "\<not> disassemble_arg args"
    and "output_arg args \<noteq> ''/dev/stdout''" and "list_all wf_event events"
  shows "\<exists>s. sockdump_script b argv events signum = (Inl (SystemExit signum), s) \<and>
    stdout_path s = output_arg args \<and> \<not> unflushed (capture s) \<and>
    read_pcap (bin_out (capture s)) = Some (nat (seg_size_arg args), 147, map event_record events) \<and>
    stderr_lines s = [''waiting for data'', newline @ show_nat (length events) @ '' packets captured'']"
proof -
  let ?d = "pcap_main (seg_size_arg args) True (flush_arg args) events fresh_dump"
  have seg: "0 \<le> seg_size_arg args" "seg_size_arg args < 2 ^ 32" using assms(4,5) by simp_all
  note written = raw_capture_records [OF seg assms(12), of "flush_arg args"]
  have run: "sniffer_main b args events signum idle_sniffer =
    (Inl (SystemExit signum),
     \<lparr>capture = ?d, stdout_path = output_arg args,
      stderr_lines = [''waiting for data'', newline @ show_nat (packet_count ?d) @ '' packets captured'']\<rparr>)"
    using assms(4,6,8) by (subst pcap_run [OF assms(2,3) _ seg assms(7,9,10,11)]) simp_all
  have "sockdump_script b argv events signum =
      finallyE (sniffer_main b args events signum) (on_dump flush) idle_sniffer"
    using assms(1) by (simp add: sockdump_script_def finallyE_def bindE_def liftE_def)
  then show ?thesis using written by (simp add: finallyE_def run on_dump_def flush_def modE_def)
qed

section \<open>The words of a capture\<close>

text \<open>The options of a raw capture into a file, as the agent gives them.\<close>

definition raw_capture_args :: "string \<Rightarrow> string \<Rightarrow> sniffer_args" where
  "raw_capture_args file sock =
     \<lparr>seg_size_arg = SS_MAX_SEG_SIZE, segs_per_msg_arg = SS_MAX_SEGS_PER_MSG, segs_in_buffer_arg = SS_MAX_SEGS_IN_BUFFER,
      format_arg = ''pcap'', raw_arg = True, output_arg = file, flush_arg = True, pid_arg = None, bpf_arg = False,
      disassemble_arg = False, sock_arg = sock\<rparr>"

lemma options_known:
  "map_of sniffer_options ''--format'' = Some (One_Of outputs)" "map_of sniffer_options ''--raw'' = Some Switch"
  "map_of sniffer_options ''--output'' = Some Value" "map_of sniffer_options ''--flush'' = Some Switch"
  "resolve (names_of sniffer_options) ''--format'' = Known ''--format'' None"
  "resolve (names_of sniffer_options) ''--raw'' = Known ''--raw'' None"
  "resolve (names_of sniffer_options) ''--output'' = Known ''--output'' None"
  "resolve (names_of sniffer_options) ''--flush'' = Known ''--flush'' None"
  by code_simp+

lemma words_known:
  "is_word (names_of sniffer_options) ''--format'' = False" "is_word (names_of sniffer_options) ''--raw'' = False"
  "is_word (names_of sniffer_options) ''--output'' = False" "is_word (names_of sniffer_options) ''--flush'' = False"
  "is_word (names_of sniffer_options) ''pcap'' = True" "takes (One_Of outputs) ''pcap'' = True"
  by code_simp+

lemma plain_word: "\<not> is_option a \<Longrightarrow> is_word names a"
  by (simp add: is_word_def)

lemma parse_raw_capture:
  assumes "\<not> is_option file" and "\<not> is_option sock"
  shows "parse_args [''--format'', ''pcap'', ''--raw'', ''--output'', file, ''--flush'', sock] = Inr (raw_capture_args file sock)"
proof -
  have keys: "map_of [(''--flush'', []), (''--output'', file), (''--raw'', []), (''--format'', ''pcap'')] k =
      (if k = ''--flush'' then Some [] else if k = ''--output'' then Some file else if k = ''--raw'' then Some []
       else if k = ''--format'' then Some ''pcap'' else None)" for k
    by simp
  have "parse_words sniffer_options [] None False [''--format'', ''pcap'', ''--raw'', ''--output'', file, ''--flush'', sock] =
      Inr ([(''--flush'', []), (''--output'', file), (''--raw'', []), (''--format'', ''pcap'')], sock)"
    by (simp add: options_known words_known plain_word assms) (simp add: takes_def outputs_def)
  then show ?thesis
    by (simp add: parse_args_def raw_capture_args_def number_of_def value_of_def)
qed

end
