(* ===== verification/Host.thy ===== *)
theory Host
  imports Prelude
begin

text \<open>
  The machine the scripts run on, as far as they use it: a file system (a map from absolute paths to
  files, directories and symbolic links), the working directory, the environment variables, and a log
  of the commands started and the outcomes reported on the terminal, in order. The operations are the
  functions of \<open>os\<close>, \<open>shutil\<close> and \<open>subprocess\<close> the scripts call.

  What the started programs do is not part of this repository: a \<open>shell\<close> is a parameter that answers a
  command, given the log so far and the file system, with an exit status, the text it prints and a new
  file system, or with nothing when there is no such program.

  Limits of the model: paths are written without \<open>.\<close> and \<open>..\<close> components, only the last component of
  a path may be a symbolic link, and permissions are not modelled.
\<close>

type_synonym path = string

datatype node = File string | Dir | Symlink path

type_synonym filesystem = "path \<Rightarrow> node option"

datatype event = Ran "string list" "path option" | Said string

record world =
  fs :: filesystem
  cwd :: path
  env :: "string \<Rightarrow> string option"
  log :: "event list"

section \<open>Looking at files\<close>

definition at :: "world \<Rightarrow> path \<Rightarrow> path" where
  "at w p = (if prefix ''/'' p then p else path_join (cwd w) p)"

text \<open>\<open>os.path.dirname\<close>: the part before the last slash, without trailing slashes.\<close>

definition dirname :: "path \<Rightarrow> path" where
  "dirname p =
     (let head = rev (dropWhile (\<lambda>c. c \<noteq> CHR ''/'') (rev p));
          cut_head = rev (dropWhile (\<lambda>c. c = CHR ''/'') (rev head))
      in if cut_head = [] then head else cut_head)"

text \<open>Following symbolic links at the last component, at most 40 times as Linux does.\<close>

definition link_target :: "path \<Rightarrow> path \<Rightarrow> path" where
  "link_target p t = (if prefix ''/'' t then t else path_join (dirname p) t)"

fun follow :: "nat \<Rightarrow> filesystem \<Rightarrow> path \<Rightarrow> path option" where
  "follow 0 f p = (case f p of Some (Symlink t) \<Rightarrow> None | _ \<Rightarrow> Some p)"
| "follow (Suc n) f p =
     (case f p of Some (Symlink t) \<Rightarrow> follow n f (link_target p t) | _ \<Rightarrow> Some p)"

definition max_links :: nat where
  "max_links = 40"

definition stat :: "world \<Rightarrow> path \<Rightarrow> node option" where
  "stat w p = (case follow max_links (fs w) (at w p) of None \<Rightarrow> None | Some q \<Rightarrow> fs w q)"

definition path_exists :: "world \<Rightarrow> path \<Rightarrow> bool" where
  "path_exists w p = (stat w p \<noteq> None)"

definition islink :: "world \<Rightarrow> path \<Rightarrow> bool" where
  "islink w p = (case fs w (at w p) of Some (Symlink _) \<Rightarrow> True | _ \<Rightarrow> False)"

definition isdir :: "world \<Rightarrow> path \<Rightarrow> bool" where
  "isdir w p = (stat w p = Some Dir)"

text \<open>Whether the directory that holds a path exists.\<close>

definition parent_ok :: "world \<Rightarrow> path \<Rightarrow> bool" where
  "parent_ok w p = (let d = dirname (at w p) in d = ''/'' \<or> isdir w d)"

lemma stat_cong: "fs v = fs w \<Longrightarrow> cwd v = cwd w \<Longrightarrow> stat v p = stat w p"
  by (auto simp: stat_def at_def split: option.splits)

lemma stat_plain:
  "fs w (at w p) = Some (File c) \<Longrightarrow> stat w p = Some (File c)"
  "fs w (at w p) = Some Dir \<Longrightarrow> stat w p = Some Dir"
  "fs w (at w p) = None \<Longrightarrow> stat w p = None"
  by (simp_all add: stat_def max_links_def numeral_eq_Suc)

lemma not_link_exists: "\<not> islink w p \<Longrightarrow> path_exists w p \<longleftrightarrow> fs w (at w p) \<noteq> None"
  by (cases "fs w (at w p)")
    (auto simp: path_exists_def stat_plain islink_def split: node.splits)

section \<open>Changing files\<close>

text \<open>\<open>put\<close> writes a node at an absolute path, \<open>upd\<close> at a path as the program names it.\<close>

definition put :: "path \<Rightarrow> node option \<Rightarrow> world \<Rightarrow> world" where
  "put q n w = w\<lparr>fs := (fs w)(q := n)\<rparr>"

definition upd :: "path \<Rightarrow> node option \<Rightarrow> world \<Rightarrow> world" where
  "upd p n w = w\<lparr>fs := (fs w)(at w p := n)\<rparr>"

lemma put_simps [simp]:
  "fs (put q n w) = (fs w)(q := n)" "cwd (put q n w) = cwd w" "env (put q n w) = env w"
  "log (put q n w) = log w"
  by (simp_all add: put_def)

lemma at_put [simp]: "at (put q n w) p = at w p"
  by (simp add: at_def)

lemma upd_put: "at w p = q \<Longrightarrow> upd p n w = put q n w"
  by (simp add: upd_def put_def)

lemma upd_simps [simp]:
  "fs (upd p n w) = (fs w)(at w p := n)" "cwd (upd p n w) = cwd w" "env (upd p n w) = env w"
  "log (upd p n w) = log w"
  by (simp_all add: upd_def)

lemma at_upd [simp]: "at (upd p n w) q = at w q"
  by (simp add: at_def)

definition say :: "string \<Rightarrow> (world, unit) prog" where
  "say s = modE (\<lambda>w. w\<lparr>log := log w @ [Said s]\<rparr>)"

definition os_remove :: "path \<Rightarrow> (world, unit) prog" where
  "os_remove p w =
     (case fs w (at w p) of
        None \<Rightarrow> (Inl FileNotFoundError, w)
      | Some Dir \<Rightarrow> (Inl IsADirectoryError, w)
      | Some _ \<Rightarrow> (Inr (), upd p None w))"

definition os_symlink :: "path \<Rightarrow> path \<Rightarrow> (world, unit) prog" where
  "os_symlink target link w =
     (if fs w (at w link) \<noteq> None then (Inl FileExistsError, w)
      else if \<not> parent_ok w link then (Inl FileNotFoundError, w)
      else (Inr (), upd link (Some (Symlink target)) w))"

definition os_chdir :: "path \<Rightarrow> (world, unit) prog" where
  "os_chdir p w =
     (case stat w p of
        None \<Rightarrow> (Inl FileNotFoundError, w)
      | Some Dir \<Rightarrow> (Inr (), w\<lparr>cwd := at w p\<rparr>)
      | Some _ \<Rightarrow> (Inl NotADirectoryError, w))"

text \<open>\<open>os.makedirs\<close>: every missing directory on the way, from the top.\<close>

fun ancestors_from :: "path \<Rightarrow> string list \<Rightarrow> path list" where
  "ancestors_from acc [] = []"
| "ancestors_from acc (c # cs) =
     (let p = acc @ ''/'' @ c in p # ancestors_from p cs)"

definition path_chain :: "path \<Rightarrow> path list" where
  "path_chain p = ancestors_from [] (filter (\<lambda>c. c \<noteq> []) (split_on (CHR ''/'') p))"

definition make_dir :: "path \<Rightarrow> (world, unit) prog" where
  "make_dir p w =
     (case stat w p of
        Some Dir \<Rightarrow> (Inr (), w)
      | Some _ \<Rightarrow> (Inl NotADirectoryError, w)
      | None \<Rightarrow> if islink w p then (Inl FileExistsError, w) else (Inr (), upd p (Some Dir) w))"

definition os_makedirs :: "path \<Rightarrow> bool \<Rightarrow> (world, unit) prog" where
  "os_makedirs p exist_ok w =
     (if path_exists w p then
        if exist_ok \<and> isdir w p then (Inr (), w) else (Inl FileExistsError, w)
      else forE (path_chain (at w p)) make_dir w)"

text \<open>Reading and writing whole text files; \<open>open\<close> follows a link to the file it names.\<close>

definition read_text :: "path \<Rightarrow> (world, string) prog" where
  "read_text p w =
     (case stat w p of
        None \<Rightarrow> (Inl FileNotFoundError, w)
      | Some (File c) \<Rightarrow> (Inr c, w)
      | Some _ \<Rightarrow> (Inl IsADirectoryError, w))"

definition write_with :: "(string \<Rightarrow> string) \<Rightarrow> path \<Rightarrow> (world, unit) prog" where
  "write_with f p w =
     (case follow max_links (fs w) (at w p) of
        None \<Rightarrow> (Inl OSError, w)
      | Some q \<Rightarrow>
          (case fs w q of
             Some (File c) \<Rightarrow> (Inr (), put q (Some (File (f c))) w)
           | None \<Rightarrow> if parent_ok w q then (Inr (), put q (Some (File (f []))) w)
                     else (Inl FileNotFoundError, w)
           | Some _ \<Rightarrow> (Inl IsADirectoryError, w)))"

definition write_text :: "string \<Rightarrow> path \<Rightarrow> (world, unit) prog" where
  "write_text s = write_with (\<lambda>_. s)"

definition append_text :: "string \<Rightarrow> path \<Rightarrow> (world, unit) prog" where
  "append_text s = write_with (\<lambda>c. c @ s)"

text \<open>\<open>readlines\<close>: text mode knows three line ends.\<close>

definition text_lines :: "string \<Rightarrow> string list" where
  "text_lines s = split_on (CHR 0x0A) (map (\<lambda>c. if c = CHR 0x0D then CHR 0x0A else c) s)"

text \<open>\<open>shutil.rmtree\<close>: a directory, and everything below it; a link is refused.\<close>

definition rmtree :: "path \<Rightarrow> (world, unit) prog" where
  "rmtree p w =
     (case fs w (at w p) of
        None \<Rightarrow> (Inl FileNotFoundError, w)
      | Some (File _) \<Rightarrow> (Inl NotADirectoryError, w)
      | Some (Symlink _) \<Rightarrow> (Inl OSError, w)
      | Some Dir \<Rightarrow>
          (Inr (), w\<lparr>fs := (\<lambda>q. if q = at w p \<or> prefix (at w p @ ''/'') q then None else fs w q)\<rparr>))"

section \<open>Running programs\<close>

type_synonym shell =
  "event list \<Rightarrow> string list \<Rightarrow> path option \<Rightarrow> filesystem \<Rightarrow> (int \<times> string \<times> filesystem) option"

text \<open>\<open>subprocess.run\<close>: with \<open>check\<close>, a non-zero exit status raises, after the program has run.\<close>

definition run :: "shell \<Rightarrow> bool \<Rightarrow> string list \<Rightarrow> path option \<Rightarrow> (world, int \<times> string) prog" where
  "run sh check argv dir w =
     (case sh (log w) argv dir (fs w) of
        None \<Rightarrow> (Inl FileNotFoundError, w)
      | Some (rc, out, f) \<Rightarrow>
          let w' = w\<lparr>fs := f, log := log w @ [Ran argv dir]\<rparr>
          in if check \<and> rc \<noteq> 0 then (Inl CalledProcessError, w') else (Inr (rc, out), w'))"

definition run_check :: "shell \<Rightarrow> string list \<Rightarrow> path option \<Rightarrow> (world, unit) prog" where
  "run_check sh argv dir = bindE (run sh True argv dir) (\<lambda>_. ret ())"

section \<open>Frame rules\<close>

text \<open>Everything here keeps the environment; only \<open>os_chdir\<close> moves the working directory.\<close>

lemma keeps_cwd [preserve]:
  "keeps (\<lambda>w. cwd w = d) (os_remove p)" "keeps (\<lambda>w. cwd w = d) (os_symlink t l)"
  "keeps (\<lambda>w. cwd w = d) (make_dir p)" "keeps (\<lambda>w. cwd w = d) (write_with f p)"
  "keeps (\<lambda>w. cwd w = d) (read_text p)" "keeps (\<lambda>w. cwd w = d) (run sh c argv dir)"
  "keeps (\<lambda>w. cwd w = d) (say s)"
  by (simp_all add: keeps_def os_remove_def os_symlink_def make_dir_def write_with_def read_text_def
      run_def say_def prog_simps Let_def split: option.splits node.splits)

lemma keeps_cwd_run_check [preserve]: "keeps (\<lambda>w. cwd w = d) (run_check sh argv dir)"
  unfolding run_check_def by (intro preserve)

lemma keeps_cwd_makedirs [preserve]: "keeps (\<lambda>w. cwd w = d) (os_makedirs p ok)"
proof (rule keepsI)
  fix w :: world assume "cwd w = d"
  moreover have "keeps (\<lambda>w. cwd w = d) (forE (path_chain (at w p)) make_dir)"
    by (intro preserve)
  ultimately have "cwd (snd (forE (path_chain (at w p)) make_dir w)) = d"
    by (auto dest: keepsD)
  with \<open>cwd w = d\<close> show "cwd (snd (os_makedirs p ok w)) = d"
    by (simp add: os_makedirs_def)
qed

section \<open>Names inside a directory\<close>

definition simple_name :: "string \<Rightarrow> bool" where
  "simple_name s \<longleftrightarrow> s \<noteq> [] \<and> CHR ''/'' \<notin> set s"

lemma at_simple: "simple_name s \<Longrightarrow> at w s = path_join (cwd w) s"
  by (auto simp: at_def simple_name_def prefix_def)

lemma path_join_simple:
  "simple_name s \<Longrightarrow>
   path_join d s = (if d = [] \<or> suffix ''/'' d then d @ s else d @ ''/'' @ s)"
  by (auto simp: path_join_def simple_name_def prefix_def)

lemma path_join_inject:
  "simple_name s \<Longrightarrow> simple_name t \<Longrightarrow> path_join d s = path_join d t \<longleftrightarrow> s = t"
  by (simp add: path_join_simple)

lemma basename_join:
  assumes "simple_name s"
  shows "basename (path_join d s) = s"
proof -
  have whole: "split_on (CHR ''/'') s = [s]"
    using assms by (simp add: simple_name_def split_on_whole)
  consider "d = []" | r where "d = r @ ''/''" | "d \<noteq> []" "\<not> suffix ''/'' d" by (auto simp: suffix_def)
  then show ?thesis
    by cases (use assms split_on_app [of "CHR ''/''" _ s] whole in \<open>auto simp: basename_def path_join_simple suffix_def\<close>)
qed

lemma absolute_join: "prefix ''/'' d \<Longrightarrow> prefix ''/'' (path_join d s)"
  by (auto simp: path_join_def prefix_def)

lemma at_absolute: "prefix ''/'' p \<Longrightarrow> at w p = p"
  by (simp add: at_def)

lemma dirname_join:
  assumes s: "simple_name s" and d: "d \<noteq> []" "\<not> suffix ''/'' d"
  shows "dirname (path_join d s) = d"
proof -
  have join: "path_join d s = d @ ''/'' @ s"
    using s d by (simp add: path_join_simple)
  obtain r x where r: "d = r @ [x]" using d(1) by (metis append_butlast_last_id)
  then have x: "x \<noteq> CHR ''/''" using d(2) by (auto simp: suffix_def)
  have "dropWhile (\<lambda>c. c \<noteq> CHR ''/'') (rev (path_join d s)) = CHR ''/'' # rev d"
  proof -
    have "dropWhile (\<lambda>c. c \<noteq> CHR ''/'') (rev s @ r) = dropWhile (\<lambda>c. c \<noteq> CHR ''/'') r" for r
      using s by (intro dropWhile_append2) (auto simp: simple_name_def)
    then show ?thesis by (simp add: join)
  qed
  then show ?thesis using x by (simp add: dirname_def Let_def r)
qed

section \<open>Files that are written and read\<close>

lemma follow_end: "follow n f p = Some q \<Longrightarrow> f q \<noteq> Some (Symlink t)"
proof (induction n f p rule: follow.induct)
  case (1 f p)
  then show ?case by (auto split: option.splits node.splits)
next
  case (2 n f p)
  then show ?case by (auto split: option.splits node.splits)
qed

text \<open>Changing a node that is no link into another that is none moves no path.\<close>

lemma follow_upd:
  assumes "\<And>t. f q \<noteq> Some (Symlink t)" and "\<And>t. n \<noteq> Some (Symlink t)"
  shows "follow k (f(q := n)) p = follow k f p"
proof (induction k arbitrary: p)
  case 0
  then show ?case using assms by (auto split: option.splits node.splits)
next
  case (Suc k)
  then show ?case using assms by (auto split: option.splits node.splits)
qed

lemma stat_write:
  assumes "write_with g p w = (Inr (), w')"
  shows "\<exists>c. stat w' p = Some (File (g c)) \<and> (stat w p = Some (File c) \<or> stat w p = None \<and> c = [])"
    and "stat w d = Some Dir \<Longrightarrow> stat w' d = Some Dir"
proof -
  obtain q c where q: "follow max_links (fs w) (at w p) = Some q"
    and c: "fs w q = Some (File c) \<or> fs w q = None \<and> c = []" and w': "w' = put q (Some (File (g c))) w"
    using assms by (auto simp: write_with_def split: option.splits node.splits if_splits)
  have follow: "follow max_links (fs w') r = follow max_links (fs w) r" for r
    unfolding w' put_simps using c by (intro follow_upd) auto
  show "\<exists>c. stat w' p = Some (File (g c)) \<and> (stat w p = Some (File c) \<or> stat w p = None \<and> c = [])"
    using q c by (auto simp: stat_def follow) (auto simp: w')
  show "stat w d = Some Dir \<Longrightarrow> stat w' d = Some Dir"
    using c by (auto simp: stat_def follow split: option.splits) (auto simp: w')
qed

text \<open>A directory that \<open>makedirs\<close> has made, for a path in the form it is listed in.\<close>

definition normal_path :: "path \<Rightarrow> bool" where
  "normal_path p \<longleftrightarrow> prefix ''/'' p \<and> path_chain p \<noteq> [] \<and> last (path_chain p) = p"

lemma make_dir_isdir: "prefix ''/'' p \<Longrightarrow> make_dir p w = (Inr (), w') \<Longrightarrow> isdir w' p"
  by (auto simp: make_dir_def isdir_def islink_def at_def stat_plain split: option.splits node.splits if_splits)

lemma forE_last:
  assumes "forE xs f w = (Inr (), w')" and "xs \<noteq> []"
  obtains v where "f (last xs) v = (Inr (), w')"
  using assms
proof (induction xs arbitrary: w)
  case Nil
  then show ?case by simp
next
  case (Cons x xs)
  show ?case
  proof (cases xs)
    case Nil
    then have "f x w = (Inr (), w')"
      using Cons.prems(2) by (auto simp: prog_simps split: prod.splits sum.splits)
    then show ?thesis using Cons.prems(1) Nil by simp
  next
    case (Cons y ys)
    then obtain w1 where "forE xs f w1 = (Inr (), w')"
      using Cons.prems(2) by (cases "f x w") (auto simp: prog_simps split: sum.splits)
    then show ?thesis using Cons.IH Cons.prems(1) Cons by (metis last_ConsR list.distinct(1))
  qed
qed

lemma makedirs_isdir:
  assumes "normal_path p" and "os_makedirs p True w = (Inr (), w')"
  shows "isdir w' p"
proof (cases "path_exists w p")
  case True
  then show ?thesis using assms(2) by (auto simp: os_makedirs_def split: if_splits)
next
  case False
  have p: "prefix ''/'' p" "at w p = p" "path_chain p \<noteq> []" "last (path_chain p) = p"
    using assms(1) by (auto simp: normal_path_def at_def)
  then have "forE (path_chain p) make_dir w = (Inr (), w')"
    using False assms(2) by (simp add: os_makedirs_def)
  then obtain v where "make_dir p v = (Inr (), w')"
    using p(3,4) by (metis forE_last)
  then show ?thesis by (rule make_dir_isdir [OF p(1)])
qed

lemma makedirs_there: "isdir w p \<Longrightarrow> os_makedirs p True w = (Inr (), w)"
  by (auto simp: os_makedirs_def isdir_def path_exists_def)

section \<open>What a program may touch\<close>

text \<open>What a file system holds behind a path, and programs that do not change that.\<close>

definition fstat :: "filesystem \<Rightarrow> path \<Rightarrow> node option" where
  "fstat f p = (case follow max_links f p of None \<Rightarrow> None | Some q \<Rightarrow> f q)"

lemma stat_fstat: "stat w p = fstat (fs w) (at w p)"
  by (simp add: stat_def fstat_def)

definition spares :: "shell \<Rightarrow> string list \<Rightarrow> path \<Rightarrow> bool" where
  "spares sh argv p \<longleftrightarrow> (\<forall>l dir f rc out f'. sh l argv dir f = Some (rc, out, f') \<longrightarrow> fstat f' p = fstat f p)"

lemma keeps_run_spares:
  assumes "spares sh argv p" and "prefix ''/'' p"
  shows "keeps (\<lambda>w. P (stat w p)) (run sh chk argv dir)" and "keeps (\<lambda>w. P (stat w p)) (run_check sh argv dir)"
proof -
  show run: "keeps (\<lambda>w. P (stat w p)) (run sh chk argv dir)" for chk
    using assms by (auto simp: keeps_def run_def stat_fstat at_absolute Let_def spares_def split: option.splits)
  show "keeps (\<lambda>w. P (stat w p)) (run_check sh argv dir)"
    unfolding run_check_def by (intro keeps_bindE run keeps_ret)
qed

text \<open>Nothing here changes the environment variables.\<close>

lemma keeps_env [preserve]:
  "keeps (\<lambda>w. P (env w)) (os_remove p)" "keeps (\<lambda>w. P (env w)) (os_symlink t l)"
  "keeps (\<lambda>w. P (env w)) (make_dir p)" "keeps (\<lambda>w. P (env w)) (write_with f p)"
  "keeps (\<lambda>w. P (env w)) (read_text p)" "keeps (\<lambda>w. P (env w)) (run sh c argv dir)"
  "keeps (\<lambda>w. P (env w)) (say s)"
  by (simp_all add: keeps_def os_remove_def os_symlink_def make_dir_def write_with_def read_text_def
      run_def say_def prog_simps Let_def split: option.splits node.splits)

lemma keeps_env_makedirs [preserve]: "keeps (\<lambda>w. P (env w)) (os_makedirs p ok)"
proof (rule keepsI)
  fix w :: world assume "P (env w)"
  moreover have "keeps (\<lambda>w. P (env w)) (forE (path_chain (at w p)) make_dir)"
    by (intro preserve)
  ultimately have "P (env (snd (forE (path_chain (at w p)) make_dir w)))"
    by (auto dest: keepsD)
  with \<open>P (env w)\<close> show "P (env (snd (os_makedirs p ok w)))"
    by (simp add: os_makedirs_def)
qed

text \<open>Only \<open>run\<close> adds a command to the log.\<close>

definition ran :: "string list \<Rightarrow> world \<Rightarrow> bool" where
  "ran argv w \<longleftrightarrow> (\<exists>dir. Ran argv dir \<in> set (log w))"

lemma keeps_ran [preserve]:
  "keeps (\<lambda>w. P (ran a w)) (os_remove p)" "keeps (\<lambda>w. P (ran a w)) (os_symlink t l)"
  "keeps (\<lambda>w. P (ran a w)) (make_dir p)" "keeps (\<lambda>w. P (ran a w)) (write_with f p)"
  "keeps (\<lambda>w. P (ran a w)) (read_text p)" "keeps (\<lambda>w. P (ran a w)) (say s)"
  by (simp_all add: keeps_def os_remove_def os_symlink_def make_dir_def write_with_def read_text_def
      say_def prog_simps ran_def split: option.splits node.splits)

lemma keeps_ran_makedirs [preserve]: "keeps (\<lambda>w. P (ran a w)) (os_makedirs p ok)"
proof (rule keepsI)
  fix w :: world assume "P (ran a w)"
  moreover have "keeps (\<lambda>w. P (ran a w)) (forE (path_chain (at w p)) make_dir)"
    by (intro preserve)
  ultimately have "P (ran a (snd (forE (path_chain (at w p)) make_dir w)))"
    by (auto dest: keepsD)
  with \<open>P (ran a w)\<close> show "P (ran a (snd (os_makedirs p ok w)))"
    by (simp add: os_makedirs_def)
qed

lemma keeps_ran_run: "argv \<noteq> a \<Longrightarrow> keeps (\<lambda>w. P (ran a w)) (run sh c argv dir)"
  by (auto simp: keeps_def run_def ran_def Let_def split: option.splits)

text \<open>What running programs may raise.\<close>

definition run_error :: "exn \<Rightarrow> bool" where
  "run_error e \<longleftrightarrow> e = CalledProcessError \<or> e = FileNotFoundError"

lemma throws_run [raising]: "throws run_error (run sh chk argv dir)" and throws_say [raising]: "throws E (say s)"
  by (auto simp: throws_def run_def run_error_def say_def prog_simps Let_def split: option.splits if_splits)

lemma throws_run_check [raising]: "throws run_error (run_check sh argv dir)"
  unfolding run_check_def by (intro raising)

lemma throws_caught:
  "throws run_error m \<Longrightarrow> (\<And>e. throws run_error (h e)) \<Longrightarrow> throws run_error (tryE m c h)"
  by (rule throws_tryE [where E = run_error]) auto

section \<open>Programs that only add\<close>

text \<open>Growing: nothing that exists is changed. What a path resolves to stays, too.\<close>

lemma follow_grow:
  assumes "f \<subseteq>\<^sub>m g" and "follow n f p = Some q" and "f q \<noteq> None"
  shows "follow n g p = Some q"
  using assms(2)
proof (induction n arbitrary: p)
  case 0
  show ?case
  proof (cases "f p")
    case None
    with 0 assms(3) show ?thesis by simp
  next
    case (Some a)
    then have "g p = Some a" using assms(1) by (metis domI map_le_def)
    with 0 Some show ?thesis by (cases a) auto
  qed
next
  case (Suc n)
  show ?case
  proof (cases "f p")
    case None
    with Suc.prems assms(3) show ?thesis by simp
  next
    case (Some a)
    then have "g p = Some a" using assms(1) by (metis domI map_le_def)
    with Suc Some show ?thesis by (cases a) auto
  qed
qed

lemma exists_grow:
  assumes "fs v \<subseteq>\<^sub>m fs w" and "cwd v = cwd w" and "path_exists v p"
  shows "path_exists w p"
proof -
  obtain q where "follow max_links (fs v) (at v p) = Some q" "fs v q \<noteq> None"
    using assms(3) by (auto simp: path_exists_def stat_def split: option.splits)
  moreover have "at v p = at w p" using assms(2) by (simp add: at_def)
  moreover have "fs w q = fs v q" using assms(1) calculation(2) by (auto simp: map_le_def dom_def)
  ultimately show ?thesis
    using follow_grow [OF assms(1), of max_links "at w p" q] by (simp add: path_exists_def stat_def)
qed

text \<open>A program grows a world: it adds nodes, and stays in its directory.\<close>

definition grows :: "(world, 'a) prog \<Rightarrow> bool" where
  "grows m \<longleftrightarrow> (\<forall>w. fs w \<subseteq>\<^sub>m fs (snd (m w)) \<and> cwd (snd (m w)) = cwd w)"

named_theorems growing "programs that only add nodes"

lemma growsD: "grows m \<Longrightarrow> m w = (r, w') \<Longrightarrow> fs w \<subseteq>\<^sub>m fs w' \<and> cwd w' = cwd w"
  unfolding grows_def by (metis snd_conv)

lemma grows_add: "f q = None \<Longrightarrow> f \<subseteq>\<^sub>m f(q := n)"
  by (auto simp: map_le_def)

lemma grows_basic [growing]: "grows (ret x)" "grows (raise e)" "grows (getE f)" "grows (say s)"
    "grows (os_symlink t l)"
  by (auto simp: grows_def prog_simps say_def os_symlink_def intro!: grows_add)

lemma grows_make_dir [growing]: "grows (make_dir p)"
proof -
  have "fs w (at w p) = None" if "stat w p = None" "\<not> islink w p" for w
    using that not_link_exists [of w p] by (simp add: path_exists_def)
  then show ?thesis
    by (auto simp: grows_def make_dir_def intro!: grows_add split: option.splits node.splits)
qed

lemma grows_bindE [growing]:
  assumes "grows m" and "\<And>x. grows (f x)"
  shows "grows (bindE m f)"
  unfolding grows_def
proof
  fix w :: world
  obtain r v where v: "m w = (r, v)" by (cases "m w")
  show "fs w \<subseteq>\<^sub>m fs (snd (bindE m f w)) \<and> cwd (snd (bindE m f w)) = cwd w"
  proof (cases r)
    case (Inl e)
    then show ?thesis using v growsD [OF assms(1) v] by (simp add: bindE_def)
  next
    case (Inr x)
    then show ?thesis
      using v growsD [OF assms(1) v] assms(2) [of x, unfolded grows_def]
        map_le_trans [of "fs w" "fs v" "fs (snd (f x v))"]
      by (auto simp: bindE_def)
  qed
qed

lemma grows_seqE [growing]: "grows m \<Longrightarrow> grows n \<Longrightarrow> grows (seqE m n)"
  by (simp add: seqE_def grows_bindE)

lemma grows_if [growing]: "(b \<Longrightarrow> grows m) \<Longrightarrow> (\<not> b \<Longrightarrow> grows n) \<Longrightarrow> grows (if b then m else n)"
  by simp

lemma grows_forE [growing]: "(\<And>x. x \<in> set xs \<Longrightarrow> grows (f x)) \<Longrightarrow> grows (forE xs f)"
  by (induction xs) (simp_all add: grows_seqE grows_basic)

lemma grows_makedirs [growing]: "grows (os_makedirs p ok)"
  unfolding grows_def
proof
  fix w :: world
  have "grows (forE (path_chain (at w p)) make_dir)" by (intro growing)
  then show "fs w \<subseteq>\<^sub>m fs (snd (os_makedirs p ok w)) \<and> cwd (snd (os_makedirs p ok w)) = cwd w"
    by (simp add: os_makedirs_def grows_def)
qed

end
