(* ===== verification/Os_Images.thy ===== *)
theory Os_Images
  imports Host
begin

text \<open>
  The two programs that manage the guest images: \<open>download_os_images.py\<close>, which downloads the missing
  assets of a distribution and points the generic link names at them, and \<open>update_links_only.py\<close>
  (\<open>third_party/os/images/linux\<close>), which only refreshes links. Both refresh a list of links one by
  one; the locale \<open>link_refresher\<close> states what a step of either may do and lifts it to the loop.
\<close>

section \<open>Refreshing links\<close>

text \<open>
  A step handles a pair of a link name and its target. It may change nothing but the link; when it
  returns and the target is not itself a link, what stands at the link is given by \<open>outcome\<close>, from what
  stood there and at the target before.
\<close>

definition plain :: "node option \<Rightarrow> bool" where
  "plain n = (case n of Some (Symlink _) \<Rightarrow> False | _ \<Rightarrow> True)"

locale link_refresher =
  fixes step :: "path \<times> path \<Rightarrow> (world, unit) prog"
    and outcome :: "node option \<Rightarrow> node option \<Rightarrow> path \<Rightarrow> node option"
  assumes step_frame: "p \<noteq> at w (fst lt) \<Longrightarrow> fs (snd (step lt w)) p = fs w p"
    and step_cwd: "cwd (snd (step lt w)) = cwd w"
    and step_links: "fst (step lt w) = Inr () \<Longrightarrow> plain (fs w (at w (snd lt))) \<Longrightarrow>
      at w (fst lt) \<noteq> at w (snd lt) \<Longrightarrow>
      fs (snd (step lt w)) (at w (fst lt)) =
        outcome (fs w (at w (fst lt))) (fs w (at w (snd lt))) (snd lt)"
begin

lemma step_at [simp]: "at (snd (step lt w)) p = at w p"
  by (simp add: at_def step_cwd)

lemma loop_cwd: "cwd (snd (forE lts step w)) = cwd w"
proof -
  have "keeps (\<lambda>v. cwd v = cwd w) (forE lts step)"
    by (intro preserve) (simp add: keeps_def step_cwd)
  then show ?thesis by (rule keepsD) simp
qed

lemma loop_frame:
  "p \<notin> set (map (at w \<circ> fst) lts) \<Longrightarrow> fs (snd (forE lts step w)) p = fs w p"
proof (induction lts arbitrary: w)
  case Nil
  then show ?case by (simp add: prog_simps)
next
  case (Cons lt lts)
  have "fs (snd (step lt w)) p = fs w p" using Cons.prems by (simp add: step_frame)
  moreover have "fs (snd (forE lts step (snd (step lt w)))) p = fs (snd (step lt w)) p"
    using Cons.prems by (intro Cons.IH) (simp add: comp_def)
  ultimately show ?case by (cases "step lt w") (auto simp: prog_simps split: sum.splits)
qed

lemma loop_links:
  assumes "fst (forE lts step w) = Inr ()" and "distinct (map (at w \<circ> fst) lts)"
    and "(l, t) \<in> set lts" and "plain (fs w (at w t))"
    and "at w t \<notin> set (map (at w \<circ> fst) lts)"
  shows "fs (snd (forE lts step w)) (at w l) = outcome (fs w (at w l)) (fs w (at w t)) t"
  using assms
proof (induction lts arbitrary: w)
  case Nil
  then show ?case by simp
next
  case (Cons lt lts)
  obtain w' where first: "step lt w = (Inr (), w')"
    and rest: "fst (forE lts step w') = Inr ()"
    using Cons.prems(1) by (cases "step lt w") (auto simp: prog_simps split: sum.splits)
  have at' [simp]: "at w' q = at w q" for q using step_at [of lt w q] first by simp
  have loop: "forE (lt # lts) step w = forE lts step w'"
    using first by (simp add: seqE_Inr)
  show ?case
  proof (cases "lt = (l, t)")
    case True
    have "fs w' (at w l) = outcome (fs w (at w l)) (fs w (at w t)) t"
      using step_links [of lt w] first Cons.prems True by force
    moreover have "fs (snd (forE lts step w')) (at w l) = fs w' (at w l)"
      using Cons.prems(2) True by (intro loop_frame) force
    ultimately show ?thesis by (simp add: loop del: forE.simps)
  next
    case False
    have "at w l \<in> set (map (at w \<circ> fst) lts)" using Cons.prems(3) False by force
    moreover have "at w (fst lt) \<notin> set (map (at w \<circ> fst) lts)" using Cons.prems(2) by simp
    ultimately have "at w l \<noteq> at w (fst lt)" by metis
    then have "fs w' (at w t) = fs w (at w t)" "fs w' (at w l) = fs w (at w l)"
      using step_frame [of _ w lt] first Cons.prems(5) by force+
    then show ?thesis
      using Cons.IH [of w'] Cons.prems False rest
      by (auto simp: loop comp_def simp del: forE.simps)
  qed
qed

end

section \<open>\<open>download_os_images.py\<close>\<close>

record asset =
  remote_name :: string
  unique_name :: path
  generic_link :: path
  url :: string

definition CIRROS_BASE_URL :: string where
  "CIRROS_BASE_URL = ''https://download.cirros-cloud.net/0.6.2/''"

definition UBUNTU_BASE_URL :: string where
  "UBUNTU_BASE_URL = ''https://cloud-images.ubuntu.com/minimal/releases/noble/release/''"

definition FEDORA_BASE_URL :: string where
  "FEDORA_BASE_URL = ''https://elmirror.cl/fedora/linux/releases/''"

definition FEDORA_DISK_URL :: string where
  "FEDORA_DISK_URL = FEDORA_BASE_URL @ ''40/'' @ ''Cloud/x86_64/images/''"

definition FEDORA_PXE_URL :: string where
  "FEDORA_PXE_URL = FEDORA_BASE_URL @ ''40/'' @ ''Everything/x86_64/os/images/pxeboot/''"

type_synonym manifest = "(string \<times> asset) list"

definition UBUNTU_ASSETS :: manifest where
  "UBUNTU_ASSETS =
     [(''disk'', \<lparr>remote_name = ''ubuntu-24.04-minimal-cloudimg-amd64.img'',
        unique_name = ''ubuntu-noble-disk.img'', generic_link = ''disk.ubuntu'',
        url = UBUNTU_BASE_URL\<rparr>),
      (''kernel'', \<lparr>remote_name = ''ubuntu-24.04-minimal-cloudimg-amd64-vmlinuz-generic'',
        unique_name = ''ubuntu-noble-vmlinuz-minimal'', generic_link = ''vmlinuz.ubuntu'',
        url = UBUNTU_BASE_URL @ ''unpacked/''\<rparr>)]"

definition FEDORA_ASSETS :: manifest where
  "FEDORA_ASSETS =
     [(''disk'', \<lparr>remote_name = ''Fedora-Cloud-Base-Generic.x86_64-40-1.14.qcow2'',
        unique_name = ''fedora-40-cloud-base.qcow2'', generic_link = ''disk.fedora'',
        url = FEDORA_DISK_URL\<rparr>),
      (''kernel'', \<lparr>remote_name = ''vmlinuz'', unique_name = ''fedora-40-vmlinuz'',
        generic_link = ''vmlinuz.fedora'', url = FEDORA_PXE_URL\<rparr>),
      (''initrd'', \<lparr>remote_name = ''initrd.img'', unique_name = ''fedora-40-initrd'',
        generic_link = ''initrd.fedora'', url = FEDORA_PXE_URL\<rparr>)]"

definition CIRROS_ASSETS :: manifest where
  "CIRROS_ASSETS =
     [(''disk'', \<lparr>remote_name = ''cirros-0.6.2-x86_64-disk.img'',
        unique_name = ''cirros-0.6.2-x86_64-disk.img'', generic_link = ''disk.cirros'',
        url = CIRROS_BASE_URL\<rparr>),
      (''kernel'', \<lparr>remote_name = ''cirros-0.6.2-x86_64-kernel'',
        unique_name = ''cirros-0.6.2-x86_64-kernel'', generic_link = ''vmlinuz.cirros'',
        url = CIRROS_BASE_URL\<rparr>),
      (''initrd'', \<lparr>remote_name = ''cirros-0.6.2-x86_64-initramfs'',
        unique_name = ''cirros-0.6.2-x86_64-initramfs'', generic_link = ''initrd.cirros'',
        url = CIRROS_BASE_URL\<rparr>)]"

subsection \<open>The command line\<close>

record image_args =
  dist :: string
  assets :: "string list"

text \<open>
  The arguments after the program's name. The first is positional and required (a default is ignored
  for a positional without \<open>nargs\<close>), the others name assets. argparse reads the values up to the
  first flag and leaves with status 2 on a bad one; then the help flag leaves with status 0 and any
  other flag with status 2. The separator \<open>--\<close>, abbreviations of \<open>--help\<close> and help after another flag
  are not modelled.
\<close>

definition is_flag :: "string \<Rightarrow> bool" where
  "is_flag a \<longleftrightarrow> prefix ''-'' a \<and> a \<noteq> ''-''"

definition leave_at_flag :: "string \<Rightarrow> exn" where
  "leave_at_flag a = SystemExit (if a = ''-h'' \<or> a = ''--help'' then 0 else 2)"

definition image_choices_ok :: "string list \<Rightarrow> bool" where
  "image_choices_ok vals =
     (case vals of
        [] \<Rightarrow> True
      | d # as \<Rightarrow> d \<in> {''ubuntu'', ''fedora'', ''cirros''} \<and>
          list_all (\<lambda>a. a \<in> {''disk'', ''kernel'', ''initrd''}) as)"

definition parse_arguments :: "string list \<Rightarrow> exn + image_args" where
  "parse_arguments argv =
     (let vals = takeWhile (Not \<circ> is_flag) argv
      in if \<not> image_choices_ok vals then Inl (SystemExit 2)
         else case dropWhile (Not \<circ> is_flag) argv of
             f # _ \<Rightarrow> Inl (leave_at_flag f)
           | [] \<Rightarrow> (case vals of [] \<Rightarrow> Inl (SystemExit 2) | d # as \<Rightarrow> Inr \<lparr>dist = d, assets = as\<rparr>))"

subsection \<open>Downloading\<close>

text \<open>
  What \<open>urlretrieve\<close> does with a URL is given by the network: it fails before the local file is opened,
  or the connection breaks after some bytes have been written (it raises, and the file stays), or it
  writes the whole content.
\<close>

datatype transfer = Refused exn | Broken string exn | Complete string

type_synonym network = "string \<Rightarrow> transfer"

definition download_file :: "network \<Rightarrow> string \<Rightarrow> string \<Rightarrow> path \<Rightarrow> (world, unit) prog" where
  "download_file net remote_file base_url local_path =
     (case net (base_url @ remote_file) of
        Refused e \<Rightarrow> raise e
      | Broken part e \<Rightarrow> seqE (write_text part local_path) (raise e)
      | Complete content \<Rightarrow> write_text content local_path)"

text \<open>The progress report of \<open>download_file\<close>: a percentage when the size is known.\<close>

definition progress_percent :: "nat \<Rightarrow> nat \<Rightarrow> int \<Rightarrow> int option" where
  "progress_percent block_num block_size total_size =
     (let read_so_far = int block_num * int block_size
      in if total_size > 0 then Some (min 100 (read_so_far * 100 div total_size)) else None)"

definition setup_workspace :: "path \<Rightarrow> (world, unit) prog" where
  "setup_workspace image_dir =
     bindE (getE (\<lambda>w. path_exists w image_dir)) (\<lambda>there.
       whenE (\<not> there) (os_makedirs image_dir True))"

subsection \<open>The links\<close>

text \<open>What stands in the way of a link is removed (a directory cannot be).\<close>

definition unlink_old :: "path \<Rightarrow> (world, unit) prog" where
  "unlink_old link_path =
     bindE (getE (\<lambda>w. islink w link_path \<or> path_exists w link_path))
       (\<lambda>old. whenE old (os_remove link_path))"

text \<open>The body of the loop: the old link goes first, then the new one is made if its target is there.\<close>

definition refresh_link :: "path \<times> path \<Rightarrow> (world, unit) prog" where
  "refresh_link = (\<lambda>(link_path, target_path).
     seqE (unlink_old link_path)
       (bindE (getE (\<lambda>w. path_exists w target_path)) (\<lambda>there.
         if there then os_symlink target_path link_path
         else say (''Skipping link creation for '' @ link_path))))"

definition asset_link :: "string \<times> asset \<Rightarrow> path \<times> path" where
  "asset_link a = (generic_link (snd a), unique_name (snd a))"

definition update_symbolic_links :: "path \<Rightarrow> manifest \<Rightarrow> (world, unit) prog" where
  "update_symbolic_links image_dir active =
     bindE (getE cwd) (\<lambda>original_cwd.
       seqE (os_chdir image_dir)
         (finallyE (forE (map asset_link active) refresh_link) (os_chdir original_cwd)))"

subsection \<open>\<open>main\<close>\<close>

definition dist_manifest :: "string \<Rightarrow> manifest" where
  "dist_manifest d =
     (if d = ''ubuntu'' then UBUNTU_ASSETS
      else if d = ''fedora'' then FEDORA_ASSETS
      else if d = ''cirros'' then CIRROS_ASSETS
      else CIRROS_ASSETS)"

definition targeted_keys :: "image_args \<Rightarrow> string list" where
  "targeted_keys args =
     (let keys = map fst (dist_manifest (dist args))
      in if assets args = [] then keys else filter (\<lambda>k. k \<in> set keys) (assets args))"

text \<open>
  The selection pool is a dictionary: a key named twice keeps its first place and is downloaded once,
  because the second time its file is there.
\<close>

definition selection_pool :: "image_args \<Rightarrow> manifest" where
  "selection_pool args =
     map (\<lambda>k. (k, the (map_of (dist_manifest (dist args)) k)))
       (rev (remdups (rev (targeted_keys args))))"

definition fetch_asset :: "network \<Rightarrow> path \<Rightarrow> asset \<Rightarrow> (world, unit) prog" where
  "fetch_asset net image_dir a =
     (let local_unique_file = path_join image_dir (unique_name a)
      in bindE (getE (\<lambda>w. path_exists w local_unique_file)) (\<lambda>there.
           whenE (\<not> there) (download_file net (remote_name a) (url a) local_unique_file)))"

definition images_main :: "network \<Rightarrow> path \<Rightarrow> string list \<Rightarrow> (world, unit) prog" where
  "images_main net image_dir argv =
     bindE (liftE (parse_arguments argv)) (\<lambda>args.
       seqs
         [setup_workspace image_dir,
          forE (targeted_keys args)
            (\<lambda>k. fetch_asset net image_dir (the (map_of (dist_manifest (dist args)) k))),
          update_symbolic_links image_dir (selection_pool args)])"

section \<open>\<open>update_links_only.py\<close>\<close>

type_synonym link_map = "(string \<times> (path \<times> path) list) list"

definition LINK_MAPS :: link_map where
  "LINK_MAPS =
     [(''fedora'',
        [(''disk.fedora'', ''fedora-40-cloud-base.qcow2''), (''initrd.fedora'', ''fedora-40-initrd''),
         (''vmlinuz.fedora'', ''fedora-40-vmlinuz'')]),
      (''cirros'',
        [(''disk.cirros'', ''cirros-0.6.2-x86_64-disk.img''),
         (''initrd.cirros'', ''cirros-0.6.2-x86_64-initramfs''),
         (''vmlinuz.cirros'', ''cirros-0.6.2-x86_64-kernel'')]),
      (''ubuntu'',
        [(''initrd.ubuntu'', ''ubuntu-noble-initrd-minimal''),
         (''vmlinuz.ubuntu'', ''ubuntu-noble-vmlinuz-minimal'')])]"

text \<open>The body of the loop: a missing target leaves the old link alone.\<close>

definition clean_link :: "path \<times> path \<Rightarrow> (world, unit) prog" where
  "clean_link = (\<lambda>(link_node, target_src).
     bindE (getE (\<lambda>w. path_exists w target_src)) (\<lambda>there.
       if \<not> there then say (''Target binary missing: '' @ target_src)
       else seqE (unlink_old link_node) (os_symlink target_src link_node)))"

definition clean_and_link :: "string \<Rightarrow> (world, unit) prog" where
  "clean_and_link dist_name =
     (case map_of LINK_MAPS dist_name of
        None \<Rightarrow> raise (KeyError dist_name)
      | Some links \<Rightarrow> forE links clean_link)"

definition parse_target :: "string list \<Rightarrow> exn + string" where
  "parse_target argv =
     (let vals = takeWhile (Not \<circ> is_flag) argv
      in if \<not> (case vals of [] \<Rightarrow> True | v # _ \<Rightarrow> v \<in> {''fedora'', ''cirros'', ''ubuntu'', ''all''})
         then Inl (SystemExit 2)
         else case dropWhile (Not \<circ> is_flag) argv of
             f # _ \<Rightarrow> Inl (leave_at_flag f)
           | [] \<Rightarrow> (case vals of [v] \<Rightarrow> Inr v | _ \<Rightarrow> Inl (SystemExit 2)))"

definition links_main :: "path \<Rightarrow> string list \<Rightarrow> (world, unit) prog" where
  "links_main script_dir argv =
     seqE (os_chdir script_dir)
       (bindE (liftE (parse_target argv)) (\<lambda>target.
         if target = ''all'' then forE (map fst LINK_MAPS) clean_and_link
         else clean_and_link target))"

section \<open>Both loops refresh links\<close>

lemma plain_exists: "plain (fs w (at w p)) \<Longrightarrow> path_exists w p \<longleftrightarrow> fs w (at w p) \<noteq> None"
  by (rule not_link_exists) (auto simp: plain_def islink_def split: option.splits node.splits)

lemma unlink_old_eq:
  "unlink_old l w =
    (case fs w (at w l) of
       None \<Rightarrow> (Inr (), w)
     | Some Dir \<Rightarrow> (Inl IsADirectoryError, w)
     | Some _ \<Rightarrow> (Inr (), upd l None w))"
  by (cases "islink w l")
    (auto simp: unlink_old_def prog_simps os_remove_def not_link_exists islink_def
      split: option.splits node.splits)

lemma keeps_cwd_unlink [preserve]: "keeps (\<lambda>w. cwd w = d) (unlink_old l)"
  unfolding unlink_old_def by (intro preserve)

lemma keeps_dir_unlink [preserve]: "keeps (\<lambda>w. fs w p = Some Dir) (unlink_old l)"
  by (auto simp: keeps_def unlink_old_eq split: option.splits node.splits)

lemma keeps_dir_symlink [preserve]: "keeps (\<lambda>w. fs w p = Some Dir) (os_symlink t l)"
  by (auto simp: keeps_def os_symlink_def)

lemma keeps_fs_say [preserve]: "keeps (\<lambda>w. P (fs w)) (say s)"
  by (simp add: keeps_def say_def prog_simps)

text \<open>What is left at a link: the downloader drops a link without a target, the other keeps it.\<close>

definition refresh_outcome :: "node option \<Rightarrow> node option \<Rightarrow> path \<Rightarrow> node option" where
  "refresh_outcome old tgt t = (if tgt = None then None else Some (Symlink t))"

definition clean_outcome :: "node option \<Rightarrow> node option \<Rightarrow> path \<Rightarrow> node option" where
  "clean_outcome old tgt t = (if tgt = None then old else Some (Symlink t))"

interpretation refresh: link_refresher refresh_link refresh_outcome
proof unfold_locales
  fix p and w :: world and lt :: "path \<times> path"
  assume "p \<noteq> at w (fst lt)"
  then show "fs (snd (refresh_link lt w)) p = fs w p"
    by (auto simp: refresh_link_def unlink_old_eq prog_simps os_symlink_def say_def
        split: prod.splits option.splits node.splits)
next
  fix w :: world and lt :: "path \<times> path"
  have "keeps (\<lambda>v. cwd v = cwd w) (refresh_link lt)"
    unfolding refresh_link_def by (cases lt) (auto intro!: preserve)
  then show "cwd (snd (refresh_link lt w)) = cwd w" by (rule keepsD) simp
next
  fix w :: world and lt :: "path \<times> path"
  assume "fst (refresh_link lt w) = Inr ()" "plain (fs w (at w (snd lt)))"
    "at w (fst lt) \<noteq> at w (snd lt)"
  then show "fs (snd (refresh_link lt w)) (at w (fst lt)) =
      refresh_outcome (fs w (at w (fst lt))) (fs w (at w (snd lt))) (snd lt)"
    by (auto simp: refresh_link_def unlink_old_eq prog_simps os_symlink_def say_def plain_exists
        refresh_outcome_def split: prod.splits option.splits node.splits if_splits)
qed

interpretation clean: link_refresher clean_link clean_outcome
proof unfold_locales
  fix p and w :: world and lt :: "path \<times> path"
  assume "p \<noteq> at w (fst lt)"
  then show "fs (snd (clean_link lt w)) p = fs w p"
    by (auto simp: clean_link_def unlink_old_eq prog_simps os_symlink_def say_def
        split: prod.splits option.splits node.splits)
next
  fix w :: world and lt :: "path \<times> path"
  have "keeps (\<lambda>v. cwd v = cwd w) (clean_link lt)"
    unfolding clean_link_def by (cases lt) (auto intro!: preserve)
  then show "cwd (snd (clean_link lt w)) = cwd w" by (rule keepsD) simp
next
  fix w :: world and lt :: "path \<times> path"
  assume "fst (clean_link lt w) = Inr ()" "plain (fs w (at w (snd lt)))"
    "at w (fst lt) \<noteq> at w (snd lt)"
  then show "fs (snd (clean_link lt w)) (at w (fst lt)) =
      clean_outcome (fs w (at w (fst lt))) (fs w (at w (snd lt))) (snd lt)"
    by (auto simp: clean_link_def unlink_old_eq prog_simps os_symlink_def say_def plain_exists
        clean_outcome_def split: prod.splits option.splits node.splits if_splits)
qed

section \<open>The asset tables\<close>

text \<open>The tables of one distribution: simple names, no name used twice.\<close>

definition wf_manifest :: "manifest \<Rightarrow> bool" where
  "wf_manifest m \<longleftrightarrow>
     list_all (\<lambda>a. simple_name (generic_link (snd a)) \<and> simple_name (unique_name (snd a))) m \<and>
     distinct (map fst m) \<and>
     distinct (map (generic_link \<circ> snd) m @ map (unique_name \<circ> snd) m)"

lemma wf_dist_manifest: "wf_manifest (dist_manifest d)"
proof -
  have "wf_manifest UBUNTU_ASSETS" "wf_manifest FEDORA_ASSETS" "wf_manifest CIRROS_ASSETS"
    by code_simp+
  then show ?thesis by (simp add: dist_manifest_def)
qed

lemma wf_manifest_names:
  assumes "wf_manifest m" and "(k, a) \<in> set m" and "(k', b) \<in> set m"
  shows "simple_name (generic_link a)" "simple_name (unique_name a)"
    "generic_link a \<noteq> unique_name b"
    "generic_link a = generic_link b \<Longrightarrow> (k, a) = (k', b)"
    "unique_name a = unique_name b \<Longrightarrow> (k, a) = (k', b)"
proof -
  have names: "\<forall>x \<in> set m. simple_name (generic_link (snd x)) \<and> simple_name (unique_name (snd x))"
    and links: "inj_on (generic_link \<circ> snd) (set m)" and files: "inj_on (unique_name \<circ> snd) (set m)"
    and apart: "(generic_link \<circ> snd) ` set m \<inter> (unique_name \<circ> snd) ` set m = {}"
    using assms(1) by (simp_all add: wf_manifest_def list_all_iff distinct_map)
  show "simple_name (generic_link a)" "simple_name (unique_name a)"
    using bspec [OF names assms(2)] by simp_all
  have "generic_link a \<in> (generic_link \<circ> snd) ` set m" "unique_name b \<in> (unique_name \<circ> snd) ` set m"
    using imageI [OF assms(2), of "generic_link \<circ> snd"] imageI [OF assms(3), of "unique_name \<circ> snd"]
    by simp_all
  then show "generic_link a \<noteq> unique_name b" using apart by (metis IntI empty_iff)
  show "(k, a) = (k', b)" if "generic_link a = generic_link b"
    by (rule inj_onD [OF links _ assms(2,3)]) (simp add: that)
  show "(k, a) = (k', b)" if "unique_name a = unique_name b"
    by (rule inj_onD [OF files _ assms(2,3)]) (simp add: that)
qed

lemma selection_pool_sub:
  assumes "(k, a) \<in> set (selection_pool args)"
  shows "(k, a) \<in> set (dist_manifest (dist args))" and "k \<in> set (targeted_keys args)"
    and "map_of (dist_manifest (dist args)) k = Some a"
proof -
  have k: "k \<in> set (targeted_keys args)" and a: "a = the (map_of (dist_manifest (dist args)) k)"
    using assms by (auto simp: selection_pool_def)
  then have "k \<in> fst ` set (dist_manifest (dist args))"
    by (auto simp: targeted_keys_def Let_def split: if_splits)
  then have "map_of (dist_manifest (dist args)) k \<noteq> None"
    by (simp add: map_of_eq_None_iff)
  with a show lookup: "map_of (dist_manifest (dist args)) k = Some a" by auto
  then show "(k, a) \<in> set (dist_manifest (dist args))" by (rule map_of_SomeD)
  show "k \<in> set (targeted_keys args)" by (rule k)
qed

lemma distinct_selection: "distinct (map fst (selection_pool args))"
  by (simp add: selection_pool_def comp_def)

lemma distinct_links:
  assumes "prefix ''/'' (cwd w)"
  shows "distinct (map (at w \<circ> fst) (map asset_link (selection_pool args)))"
proof -
  have "inj_on (at w \<circ> fst \<circ> asset_link) (set (selection_pool args))"
  proof (rule inj_onI)
    fix x y
    assume x: "x \<in> set (selection_pool args)" and y: "y \<in> set (selection_pool args)"
      and eq: "(at w \<circ> fst \<circ> asset_link) x = (at w \<circ> fst \<circ> asset_link) y"
    obtain k a k' b where xy: "x = (k, a)" "y = (k', b)" by (cases x, cases y)
    have in_m: "(k, a) \<in> set (dist_manifest (dist args))" "(k', b) \<in> set (dist_manifest (dist args))"
      using x y xy selection_pool_sub(1) by auto
    note names = wf_manifest_names [OF wf_dist_manifest in_m]
      wf_manifest_names [OF wf_dist_manifest in_m(2,1)]
    have "generic_link a = generic_link b"
      using eq names(1,6) by (simp add: xy asset_link_def at_simple path_join_inject)
    then show "x = y" using names(4) xy by simp
  qed
  then show ?thesis
    using distinct_selection [of args] by (simp add: distinct_map comp_assoc)
qed

section \<open>Properties of the downloader\<close>

lemma keeps_dir_refresh [preserve]: "keeps (\<lambda>w. fs w p = Some Dir) (refresh_link lt)"
  unfolding refresh_link_def by (cases lt) (auto intro!: preserve keeps_fs_say)

lemma chdir_absolute: "prefix ''/'' p \<Longrightarrow> fs w p = Some Dir \<Longrightarrow> os_chdir p w = (Inr (), w\<lparr>cwd := p\<rparr>)"
  by (simp add: os_chdir_def at_absolute stat_plain)

text \<open>
  C37. However the refresh of the links ends, with an exception or without, the downloader is back in the
  directory it was called from.
\<close>

theorem update_restores_cwd:
  assumes "prefix ''/'' (cwd w)" and "fs w (cwd w) = Some Dir"
  shows "cwd (snd (update_symbolic_links image_dir active w)) = cwd w"
proof (cases "os_chdir image_dir w")
  case (Pair r w1)
  show ?thesis
  proof (cases r)
    case (Inl e)
    then have "w1 = w" using Pair by (auto simp: os_chdir_def split: option.splits node.splits)
    with Inl Pair show ?thesis by (simp add: update_symbolic_links_def prog_simps)
  next
    case (Inr u)
    then have fs1: "fs w1 = fs w"
      using Pair by (auto simp: os_chdir_def split: option.splits node.splits)
    define w2 where "w2 = snd (forE (map asset_link active) refresh_link w1)"
    have "keeps (\<lambda>v. fs v (cwd w) = Some Dir) (forE (map asset_link active) refresh_link)"
      by (intro preserve)
    then have "fs w2 (cwd w) = Some Dir"
      unfolding w2_def by (rule keepsD) (simp add: fs1 assms(2))
    then have "os_chdir (cwd w) w2 = (Inr (), w2\<lparr>cwd := cwd w\<rparr>)"
      by (rule chdir_absolute [OF assms(1)])
    then show ?thesis
      using Pair Inr by (cases "forE (map asset_link active) refresh_link w1")
        (simp add: update_symbolic_links_def prog_simps w2_def)
  qed
qed

text \<open>A machine with an image directory and a few files, for concrete instances.\<close>

definition image_host :: "(path \<times> node) list \<Rightarrow> world" where
  "image_host files =
     \<lparr>fs = map_of ((''/img'', Dir) # (''/home'', Dir) # files), cwd = ''/home'', env = (\<lambda>_. None),
      log = []\<rparr>"

theorem update_restores_cwd_witness:
  "cwd (snd (update_symbolic_links ''/img'' UBUNTU_ASSETS (image_host [(''/img/disk.ubuntu'', Dir)]))) =
     ''/home''"
  using update_restores_cwd [of "image_host [(''/img/disk.ubuntu'', Dir)]" "''/img''" UBUNTU_ASSETS]
  by (simp add: image_host_def)

lemma update_success:
  assumes "prefix ''/'' d" and "fs w d = Some Dir"
    and "fst (update_symbolic_links d active w) = Inr ()"
  shows "fst (forE (map asset_link active) refresh_link (w\<lparr>cwd := d\<rparr>)) = Inr ()"
    and "fs (snd (update_symbolic_links d active w)) =
      fs (snd (forE (map asset_link active) refresh_link (w\<lparr>cwd := d\<rparr>)))"
proof -
  have chdir: "os_chdir d w = (Inr (), w\<lparr>cwd := d\<rparr>)"
    using assms(1,2) by (rule chdir_absolute)
  have fs_chdir: "fs (snd (os_chdir p v)) = fs v" for p v
    by (simp add: os_chdir_def split: option.splits node.splits)
  show "fst (forE (map asset_link active) refresh_link (w\<lparr>cwd := d\<rparr>)) = Inr ()"
    "fs (snd (update_symbolic_links d active w)) =
      fs (snd (forE (map asset_link active) refresh_link (w\<lparr>cwd := d\<rparr>)))"
    using assms(3) chdir fs_chdir
    by (auto simp: update_symbolic_links_def prog_simps split: prod.splits sum.splits)
      (metis snd_conv)+
qed

text \<open>One asset of the pool among the links, in the directory itself.\<close>

lemma pool_link:
  assumes "prefix ''/'' d" and "cwd v = d" and "(k, a) \<in> set (selection_pool args)"
  defines "links \<equiv> map asset_link (selection_pool args)"
  shows "(generic_link a, unique_name a) \<in> set links"
    and "at v (generic_link a) = path_join d (generic_link a)"
    and "at v (unique_name a) = path_join d (unique_name a)"
    and "at v (unique_name a) \<notin> set (map (at v \<circ> fst) links)"
    and "distinct (map (at v \<circ> fst) links)"
proof -
  have in_m: "(k', b) \<in> set (dist_manifest (dist args))" if "(k', b) \<in> set (selection_pool args)" for k' b
    using that by (rule selection_pool_sub)
  note names = wf_manifest_names [OF wf_dist_manifest in_m [OF assms(3)] in_m [OF assms(3)]]
  show link: "(generic_link a, unique_name a) \<in> set links"
    using imageI [OF assms(3), of asset_link] by (simp add: links_def asset_link_def)
  show at_g: "at v (generic_link a) = path_join d (generic_link a)"
    and at_u: "at v (unique_name a) = path_join d (unique_name a)"
    using names(1,2) assms(2) by (simp_all add: at_simple)
  show "distinct (map (at v \<circ> fst) links)"
    unfolding links_def using assms(1,2) by (intro distinct_links) simp
  show "at v (unique_name a) \<notin> set (map (at v \<circ> fst) links)"
  proof
    assume "at v (unique_name a) \<in> set (map (at v \<circ> fst) links)"
    then obtain k' b where b: "(k', b) \<in> set (selection_pool args)"
      and eq: "at v (unique_name a) = at v (generic_link b)"
      by (auto simp: links_def asset_link_def)
    note names_b = wf_manifest_names [OF wf_dist_manifest in_m [OF b] in_m [OF assms(3)]]
    show False
      using eq names_b(1,3) names(2) by (simp add: at_simple path_join_inject)
  qed
qed

lemma stat_link:
  assumes d: "prefix ''/'' d" "d \<noteq> []" "\<not> suffix ''/'' d" and n: "simple_name n" "simple_name t"
    and link: "fs w (path_join d n) = Some (Symlink t)"
    and tgt: "fs w (path_join d t) = Some (File c)"
  shows "stat w (path_join d n) = Some (File c)"
proof -
  have "\<not> prefix ''/'' t" using n(2) by (auto simp: simple_name_def prefix_def)
  then show ?thesis
    using link tgt dirname_join [OF n(1) d(2,3)] d(1)
    by (simp add: stat_def at_absolute absolute_join max_links_def link_target_def numeral_eq_Suc)
qed

lemma update_links:
  assumes d: "prefix ''/'' d" "fs w d = Some Dir"
    and a: "(k, a) \<in> set (selection_pool args)"
    and ok: "fst (update_symbolic_links d (selection_pool args) w) = Inr ()"
    and plain: "plain (fs w (path_join d (unique_name a)))"
  defines "w' \<equiv> snd (update_symbolic_links d (selection_pool args) w)"
  shows "fs w' (path_join d (unique_name a)) = fs w (path_join d (unique_name a))"
    and "fs w' (path_join d (generic_link a)) =
      (if fs w (path_join d (unique_name a)) = None then None else Some (Symlink (unique_name a)))"
proof -
  let ?v = "w\<lparr>cwd := d\<rparr>" and ?links = "map asset_link (selection_pool args)"
  have run: "fst (forE ?links refresh_link ?v) = Inr ()"
    and fs': "fs w' = fs (snd (forE ?links refresh_link ?v))"
    using update_success [OF d ok] by (simp_all add: w'_def)
  have "cwd ?v = d" by simp
  note pool = pool_link [OF d(1) this a]
  have "fs (snd (forE ?links refresh_link ?v)) (at ?v (unique_name a)) = fs ?v (at ?v (unique_name a))"
    using pool(4) by (rule refresh.loop_frame)
  then show "fs w' (path_join d (unique_name a)) = fs w (path_join d (unique_name a))"
    by (simp add: fs' pool(3))
  have "plain (fs ?v (at ?v (unique_name a)))" using plain by (simp add: pool(3))
  then have "fs (snd (forE ?links refresh_link ?v)) (at ?v (generic_link a)) =
      refresh_outcome (fs ?v (at ?v (generic_link a))) (fs ?v (at ?v (unique_name a))) (unique_name a)"
    by (rule refresh.loop_links [OF run pool(5,1) _ pool(4)])
  then show "fs w' (path_join d (generic_link a)) =
      (if fs w (path_join d (unique_name a)) = None then None else Some (Symlink (unique_name a)))"
    by (simp add: fs' pool(2,3) refresh_outcome_def)
qed

lemma update_settles:
  assumes "prefix ''/'' d" and "\<not> suffix ''/'' d" and "fs w d = Some Dir"
    and "(k, a) \<in> set (selection_pool args)"
    and "fst (update_symbolic_links d (selection_pool args) w) = Inr ()"
    and "fs w (path_join d (unique_name a)) = content"
    and "case content of None \<Rightarrow> True | Some (File c) \<Rightarrow> True | _ \<Rightarrow> False"
  shows "stat (snd (update_symbolic_links d (selection_pool args) w)) (path_join d (generic_link a)) = content"
proof -
  have "plain (fs w (path_join d (unique_name a)))"
    using assms(6,7) by (auto simp: plain_def split: option.splits node.splits)
  note links = update_links [OF assms(1,3,4,5) this]
  note names = wf_manifest_names(1,2) [OF wf_dist_manifest selection_pool_sub(1) [OF assms(4)]
      selection_pool_sub(1) [OF assms(4)]]
  show ?thesis
  proof (cases content)
    case None
    then show ?thesis
      using links(2) assms(1,6) by (simp add: stat_plain at_absolute absolute_join)
  next
    case (Some n)
    then obtain c where "content = Some (File c)" using assms(7) by (cases n) auto
    moreover have "d \<noteq> []" using assms(1) by auto
    ultimately show ?thesis
      using stat_link [OF assms(1) _ assms(2) names] links assms(6) by simp
  qed
qed

text \<open>
  When the refresh returns, the link of every selected asset is settled by the file it names: it
  resolves to the file where the file is there, and is gone where it is not (the old link included).
\<close>

theorem update_settles_links:
  assumes "prefix ''/'' d" and "\<not> suffix ''/'' d" and "fs w d = Some Dir"
    and "(k, a) \<in> set (selection_pool args)"
    and "fst (update_symbolic_links d (selection_pool args) w) = Inr ()"
    and "fs w (path_join d (unique_name a)) = content"
    and "case content of None \<Rightarrow> True | Some (File c) \<Rightarrow> True | _ \<Rightarrow> False"
  shows "stat (snd (update_symbolic_links d (selection_pool args) w)) (path_join d (generic_link a)) = content"
  using assms by (rule update_settles)

theorem update_settles_links_witness:
  "stat (snd (update_symbolic_links ''/img'' (selection_pool \<lparr>dist = ''ubuntu'', assets = [''kernel'']\<rparr>)
      (image_host [(''/img/ubuntu-noble-vmlinuz-minimal'', File ''ELF'')]))) ''/img/vmlinuz.ubuntu'' =
     Some (File ''ELF'')"
proof -
  let ?w = "image_host [(''/img/ubuntu-noble-vmlinuz-minimal'', File ''ELF'')]"
    and ?args = "\<lparr>dist = ''ubuntu'', assets = [''kernel'']\<rparr>"
  have pool: "(''kernel'', snd (UBUNTU_ASSETS ! 1)) \<in> set (selection_pool ?args)"
    and run: "fst (update_symbolic_links ''/img'' (selection_pool ?args) ?w) = Inr ()"
    and names: "path_join ''/img'' (unique_name (snd (UBUNTU_ASSETS ! 1))) = ''/img/ubuntu-noble-vmlinuz-minimal''"
      "path_join ''/img'' (generic_link (snd (UBUNTU_ASSETS ! 1))) = ''/img/vmlinuz.ubuntu''"
    and files: "fs ?w ''/img'' = Some Dir"
      "fs ?w ''/img/ubuntu-noble-vmlinuz-minimal'' = Some (File ''ELF'')"
    and abs: "prefix ''/'' ''/img''" "\<not> suffix ''/'' ''/img''"
    by code_simp+
  show ?thesis
    using update_settles_links [OF abs files(1) pool run, unfolded names, OF files(2)] by simp
qed

subsection \<open>Downloading what is missing\<close>

text \<open>What a successful pass leaves at an asset's own file.\<close>

definition filled :: "network \<Rightarrow> asset \<Rightarrow> node option \<Rightarrow> node option" where
  "filled net a old =
     (case old of
        Some n \<Rightarrow> Some n
      | None \<Rightarrow> (case net (url a @ remote_name a) of Complete c \<Rightarrow> Some (File c) | _ \<Rightarrow> None))"

lemma fetch_asset_eq:
  assumes d: "prefix ''/'' d" "\<not> suffix ''/'' d" "fs w d = Some Dir"
    and "simple_name (unique_name a)"
  defines "u \<equiv> path_join d (unique_name a)"
  assumes plain: "plain (fs w u)"
  shows "fetch_asset net d a w =
    (case fs w u of
       Some _ \<Rightarrow> (Inr (), w)
     | None \<Rightarrow> (case net (url a @ remote_name a) of
           Refused e \<Rightarrow> (Inl e, w)
         | Broken part e \<Rightarrow> (Inl e, upd u (Some (File part)) w)
         | Complete c \<Rightarrow> (Inr (), upd u (Some (File c)) w)))"
proof -
  have "d \<noteq> []" using d(1) by auto
  then have u: "at w u = u" "dirname u = d"
    using d dirname_join [OF assms(4), of d] by (auto simp: u_def at_absolute absolute_join)
  have d_at: "at w d = d" using d(1) by (simp add: at_absolute)
  have there: "path_exists w u \<longleftrightarrow> fs w u \<noteq> None"
    using plain_exists [of w u] plain u by simp
  have "write_text c u w = (Inr (), upd u (Some (File c)) w)" if "fs w u = None" for c
    using that u d d_at stat_plain [of w d]
    by (simp add: write_text_def write_with_def max_links_def numeral_eq_Suc parent_ok_def isdir_def Let_def)
  then show ?thesis
    using there
    by (auto simp: fetch_asset_def prog_simps u_def [symmetric] download_file_def Let_def
        split: option.splits transfer.splits)
qed

definition fetch_all :: "network \<Rightarrow> path \<Rightarrow> manifest \<Rightarrow> string list \<Rightarrow> (world, unit) prog" where
  "fetch_all net d m keys = forE keys (\<lambda>k. fetch_asset net d (the (map_of m k)))"

text \<open>The loop over the keys (some may come twice): each file is filled once, nothing else changes.\<close>

lemma fetch_all_files:
  assumes d: "prefix ''/'' d" "\<not> suffix ''/'' d" and m: "wf_manifest m"
  shows "fs w d = Some Dir \<Longrightarrow> set keys \<subseteq> fst ` set m \<Longrightarrow>
    \<forall>x \<in> set m. plain (fs w (path_join d (unique_name (snd x)))) \<Longrightarrow>
    fst (fetch_all net d m keys w) = Inr () \<Longrightarrow>
    cwd (snd (fetch_all net d m keys w)) = cwd w \<and>
    fs (snd (fetch_all net d m keys w)) d = Some Dir \<and>
    (\<forall>(k, a) \<in> set m. fs (snd (fetch_all net d m keys w)) (path_join d (unique_name a)) =
       (if k \<in> set keys then filled net a (fs w (path_join d (unique_name a)))
        else fs w (path_join d (unique_name a))) \<and>
       (k \<in> set keys \<longrightarrow> filled net a (fs w (path_join d (unique_name a))) \<noteq> None))"
proof (induction keys arbitrary: w)
  case Nil
  then show ?case by (auto simp: fetch_all_def prog_simps)
next
  case (Cons key keys)
  obtain b where b: "(key, b) \<in> set m" "map_of m key = Some b"
    using Cons.prems(2) m by (force simp: wf_manifest_def)
  note names = wf_manifest_names [OF m b(1)]
  let ?u = "path_join d (unique_name b)"
  have u: "at w ?u = ?u" using d(1) by (simp add: at_absolute absolute_join)
  have plain_u: "plain (fs w ?u)" using Cons.prems(3) b(1) by force
  note step = fetch_asset_eq [OF d Cons.prems(1) names(2) [OF b(1)] plain_u, of net]
  obtain w1 where w1: "fetch_asset net d b w = (Inr (), w1)"
    and rest: "fst (fetch_all net d m keys w1) = Inr ()"
    and whole: "snd (fetch_all net d m (key # keys) w) = snd (fetch_all net d m keys w1)"
    using Cons.prems(4) b(2)
    by (cases "fetch_asset net d b w") (auto simp: fetch_all_def prog_simps split: sum.splits)
  have fs1: "fs w1 = (fs w)(?u := filled net b (fs w ?u))" and cwd1: "cwd w1 = cwd w"
    using w1 step u by (auto simp: filled_def split: option.splits transfer.splits)
  have some: "filled net b (fs w ?u) \<noteq> None"
    using w1 step by (auto simp: filled_def split: option.splits transfer.splits)
  have "d \<noteq> ?u" using names(2) [OF b(1)] d by (auto simp: path_join_simple)
  then have dir1: "fs w1 d = Some Dir" using Cons.prems(1) by (simp add: fs1)
  have other: "path_join d (unique_name a) = ?u \<longleftrightarrow> (k, a) = (key, b)" if "(k, a) \<in> set m" for k a
    using wf_manifest_names(5) [OF m that b(1)] names(2) [OF b(1)] wf_manifest_names(2) [OF m that that]
    by (auto simp: path_join_inject)
  have "plain (filled net b (fs w ?u))"
    using plain_u by (auto simp: filled_def plain_def split: option.splits transfer.splits)
  then have plain1: "\<forall>x \<in> set m. plain (fs w1 (path_join d (unique_name (snd x))))"
    using Cons.prems(3) by (simp add: fs1)
  have ih: "cwd (snd (fetch_all net d m keys w1)) = cwd w1 \<and>
    fs (snd (fetch_all net d m keys w1)) d = Some Dir \<and>
    (\<forall>(k, a) \<in> set m. fs (snd (fetch_all net d m keys w1)) (path_join d (unique_name a)) =
       (if k \<in> set keys then filled net a (fs w1 (path_join d (unique_name a)))
        else fs w1 (path_join d (unique_name a))) \<and>
       (k \<in> set keys \<longrightarrow> filled net a (fs w1 (path_join d (unique_name a))) \<noteq> None))"
    using Cons.prems(2) by (intro Cons.IH [OF dir1 _ plain1 rest]) simp
  have again: "filled net a (filled net a n) = filled net a n" for a n
    by (auto simp: filled_def split: option.splits transfer.splits)
  have "fs (snd (fetch_all net d m keys w1)) (path_join d (unique_name a)) =
      (if k \<in> set (key # keys) then filled net a (fs w (path_join d (unique_name a)))
       else fs w (path_join d (unique_name a))) \<and>
      (k \<in> set (key # keys) \<longrightarrow> filled net a (fs w (path_join d (unique_name a))) \<noteq> None)"
    if ka: "(k, a) \<in> set m" for k a
  proof (cases "(k, a) = (key, b)")
    case True
    then show ?thesis
      using bspec [OF conjunct2 [OF conjunct2 [OF ih]] b(1)] some by (cases "key \<in> set keys") (simp_all add: fs1 again)
  next
    case False
    then have "k \<noteq> key"
      using ka b(1) m by (auto simp: wf_manifest_def dest: eq_key_imp_eq_value)
    moreover have "fs w1 (path_join d (unique_name a)) = fs w (path_join d (unique_name a))"
    proof -
      have "path_join d (unique_name a) \<noteq> ?u" using other [OF ka] False by metis
      then show ?thesis by (simp add: fs1)
    qed
    ultimately show ?thesis using ih ka by auto
  qed
  then show ?case using ih whole cwd1 by auto
qed

lemma setup_workspace_there: "fs w d = Some Dir \<Longrightarrow> prefix ''/'' d \<Longrightarrow> setup_workspace d w = (Inr (), w)"
  by (simp add: setup_workspace_def prog_simps path_exists_def stat_plain at_absolute)

lemma images_main_eq:
  assumes "parse_arguments argv = Inr args" and "fs w d = Some Dir" and "prefix ''/'' d"
  shows "images_main net d argv w =
    seqE (fetch_all net d (dist_manifest (dist args)) (targeted_keys args))
      (update_symbolic_links d (selection_pool args)) w"
proof -
  have "seqE m (seqE n (seqs [])) v = seqE m n v" for m n :: "(world, unit) prog" and v
    by (auto simp: prog_simps split: prod.splits sum.splits)
  then show ?thesis
    using assms setup_workspace_there [OF assms(2,3)]
    by (simp add: images_main_def fetch_all_def bindE_def liftE_def seqE_Inr del: seqs.simps(1))
qed

lemma selection_keys: "set (targeted_keys args) \<subseteq> fst ` set (dist_manifest (dist args))"
  by (auto simp: targeted_keys_def Let_def)

lemma images_main_resolves:
  assumes "parse_arguments argv = Inr args"
    and "prefix ''/'' d" and "\<not> suffix ''/'' d" and "fs w d = Some Dir"
    and "list_all (\<lambda>x. case fs w (path_join d (unique_name (snd x))) of
        None \<Rightarrow> True | Some (File _) \<Rightarrow> True | _ \<Rightarrow> False) (dist_manifest (dist args))"
    and "(k, a) \<in> set (selection_pool args)"
    and "fst (images_main net d argv w) = Inr ()"
  shows "stat (snd (images_main net d argv w)) (path_join d (generic_link a)) =
    (case fs w (path_join d (unique_name a)) of
       Some old \<Rightarrow> Some old
     | None \<Rightarrow> (case net (url a @ remote_name a) of Complete c \<Rightarrow> Some (File c) | _ \<Rightarrow> None))"
    and "stat (snd (images_main net d argv w)) (path_join d (generic_link a)) \<noteq> None"
proof -
  let ?m = "dist_manifest (dist args)" and ?u = "path_join d (unique_name a)"
  let ?fetch = "fetch_all net d ?m (targeted_keys args)"
  note main = images_main_eq [OF assms(1,4,2), of net]
  note sub = selection_pool_sub [OF assms(6)]
  obtain w1 where fetch: "?fetch w = (Inr (), w1)"
    using assms(7) main by (cases "?fetch w") (auto simp: prog_simps split: sum.splits)
  then have links: "images_main net d argv w = update_symbolic_links d (selection_pool args) w1"
    by (simp add: main seqE_Inr)
  have files: "plain (fs w (path_join d (unique_name (snd x))))" if "x \<in> set ?m" for x
    using bspec [OF assms(5) [unfolded list_all_iff] that]
    by (auto simp: plain_def split: option.splits node.splits)
  have "fs w1 d = Some Dir" and at_u: "fs w1 ?u = filled net a (fs w ?u)" and some: "filled net a (fs w ?u) \<noteq> None"
    using fetch_all_files [OF assms(2,3) wf_dist_manifest assms(4) selection_keys, of args net] files
      fetch sub(1,2) by auto
  moreover have "case filled net a (fs w ?u) of None \<Rightarrow> True | Some (File c) \<Rightarrow> True | _ \<Rightarrow> False"
    using bspec [OF assms(5) [unfolded list_all_iff] sub(1)]
    by (auto simp: filled_def split: option.splits node.splits transfer.splits)
  ultimately have "stat (snd (images_main net d argv w)) (path_join d (generic_link a)) = filled net a (fs w ?u)"
    using update_settles [OF assms(2,3) _ assms(6), of w1 "filled net a (fs w ?u)"] assms(7) links
    by simp
  then show "stat (snd (images_main net d argv w)) (path_join d (generic_link a)) =
    (case fs w (path_join d (unique_name a)) of
       Some old \<Rightarrow> Some old
     | None \<Rightarrow> (case net (url a @ remote_name a) of Complete c \<Rightarrow> Some (File c) | _ \<Rightarrow> None))"
    and "stat (snd (images_main net d argv w)) (path_join d (generic_link a)) \<noteq> None"
    using some by (simp_all add: filled_def)
qed



text \<open>
  A connection that breaks in the middle of a download raises, but leaves the bytes read so far
  under the asset's own name; the next run takes them for the asset and asks the network for nothing,
  whatever the network would now deliver.
\<close>

theorem interrupted_download_is_kept:
  assumes "prefix ''/'' d" and "\<not> suffix ''/'' d" and "fs w d = Some Dir"
    and "(k, a) \<in> set (dist_manifest name)" and "fs w (path_join d (unique_name a)) = None"
    and "net (url a @ remote_name a) = Broken part e"
  shows "fst (fetch_asset net d a w) = Inl e \<and>
    fetch_asset net' d a (snd (fetch_asset net d a w)) = (Inr (), snd (fetch_asset net d a w)) \<and>
    fs (snd (fetch_asset net d a w)) (path_join d (unique_name a)) = Some (File part)"
proof -
  let ?u = "path_join d (unique_name a)"
  note names = wf_manifest_names(2) [OF wf_dist_manifest assms(4,4)]
  have u: "at w ?u = ?u" "d \<noteq> ?u"
    using names assms(1,2) by (auto simp: at_absolute absolute_join path_join_simple simple_name_def)
  have first: "fetch_asset net d a w = (Inl e, upd ?u (Some (File part)) w)"
    using fetch_asset_eq [OF assms(1-3) names, of net] assms(5,6) by (simp add: plain_def)
  have "fetch_asset net' d a (upd ?u (Some (File part)) w) = (Inr (), upd ?u (Some (File part)) w)"
    using fetch_asset_eq [OF assms(1,2) _ names, of "upd ?u (Some (File part)) w" net'] assms(3) u
    by (simp add: plain_def)
  then show ?thesis by (simp add: first u)
qed

theorem interrupted_download_is_kept_witness:
  "fst (fetch_asset (\<lambda>_. Broken ''half'' OSError) ''/img'' (snd (UBUNTU_ASSETS ! 0)) (image_host [])) = Inl OSError"
proof -
  have facts: "prefix ''/'' ''/img''" "\<not> suffix ''/'' ''/img''" "fs (image_host []) ''/img'' = Some Dir"
      "(''disk'', snd (UBUNTU_ASSETS ! 0)) \<in> set (dist_manifest ''ubuntu'')"
      "fs (image_host []) (path_join ''/img'' (unique_name (snd (UBUNTU_ASSETS ! 0)))) = None"
    by code_simp+
  show ?thesis
    using interrupted_download_is_kept [OF facts, of "\<lambda>_. Broken ''half'' OSError" "''half''" OSError] by simp
qed

section \<open>The command line and the other link tool\<close>

lemma choices_no_flag: "image_choices_ok vals \<Longrightarrow> list_all (Not \<circ> is_flag) vals"
proof -
  have "\<not> is_flag s"
    if "s \<in> {''ubuntu'', ''fedora'', ''cirros''} \<or> s \<in> {''disk'', ''kernel'', ''initrd''}" for s
    using that by (elim disjE insertE emptyE) (simp_all add: is_flag_def)
  then show "image_choices_ok vals \<Longrightarrow> list_all (Not \<circ> is_flag) vals"
    by (cases vals) (auto simp: image_choices_ok_def list_all_iff)
qed

text \<open>
  The downloader accepts exactly a distribution it knows followed by any asset names it knows, in
  that order; it reads the distribution as its target and the rest as the filter. So the calls of the
  README, without an argument and with a flag \<open>--distro\<close>, leave with status 2.
\<close>

theorem parse_arguments_accepts:
  "(parse_arguments argv = Inr args \<longleftrightarrow>
     dist args \<in> {''ubuntu'', ''fedora'', ''cirros''} \<and>
     set (assets args) \<subseteq> {''disk'', ''kernel'', ''initrd''} \<and>
     argv = dist args # assets args) \<and>
   parse_arguments [] = Inl (SystemExit 2) \<and>
   parse_arguments [''--distro'', ''fedora''] = Inl (SystemExit 2)"
proof (intro conjI)
  show "parse_arguments [] = Inl (SystemExit 2)"
    "parse_arguments [''--distro'', ''fedora''] = Inl (SystemExit 2)"
    by code_simp+
  have good: "takeWhile (Not \<circ> is_flag) vals = vals" "dropWhile (Not \<circ> is_flag) vals = []"
    if "image_choices_ok vals" for vals
    using choices_no_flag [OF that] by (auto simp: list_all_iff takeWhile_eq_all_conv dropWhile_eq_Nil_conv)
  have no_rest: "argv = takeWhile (Not \<circ> is_flag) argv" if "dropWhile (Not \<circ> is_flag) argv = []"
    using that by (metis append_Nil2 takeWhile_dropWhile_id)
  show "parse_arguments argv = Inr args \<longleftrightarrow>
     dist args \<in> {''ubuntu'', ''fedora'', ''cirros''} \<and>
     set (assets args) \<subseteq> {''disk'', ''kernel'', ''initrd''} \<and>
     argv = dist args # assets args" (is "_ \<longleftrightarrow> ?ok")
  proof
    assume acc: "parse_arguments argv = Inr args"
    let ?vals = "takeWhile (Not \<circ> is_flag) argv"
    obtain d as where "?vals = d # as" "args = \<lparr>dist = d, assets = as\<rparr>" "image_choices_ok ?vals"
      "dropWhile (Not \<circ> is_flag) argv = []"
      using acc by (auto simp: parse_arguments_def Let_def split: if_splits list.splits)
    then have "argv = d # as" "image_choices_ok (d # as)" "dist args = d" "assets args = as"
      using no_rest by simp_all
    then show ?ok by (auto simp: image_choices_ok_def list_all_iff)
  next
    assume ok: ?ok
    then have "image_choices_ok argv" by (auto simp: image_choices_ok_def list_all_iff)
    then show "parse_arguments argv = Inr args"
      using good [of argv] ok by (cases args) (simp add: parse_arguments_def Let_def)
  qed
qed

text \<open>
  The progress report of a download of known size lies between 0 and 100 percent and says 100
  exactly when everything has been read; without a size there is no percentage.
\<close>

theorem progress_percent_bounds:
  "case progress_percent block_num block_size total_size of
     None \<Rightarrow> total_size \<le> 0
   | Some p \<Rightarrow> 0 \<le> p \<and> p \<le> 100 \<and> (p = 100 \<longleftrightarrow> total_size \<le> int block_num * int block_size)"
proof -
  have "100 \<le> x * 100 div t \<longleftrightarrow> t \<le> x" if "0 < t" for x t :: int
  proof
    assume "100 \<le> x * 100 div t"
    then have "100 * t \<le> x * 100 div t * t" using that by (intro mult_right_mono) auto
    also have "\<dots> \<le> x * 100" using that by (simp add: minus_mod_eq_div_mult [symmetric])
    finally show "t \<le> x" by simp
  next
    assume "t \<le> x"
    then have "t * 100 div t \<le> x * 100 div t" using that by (intro zdiv_mono1) auto
    then show "100 \<le> x * 100 div t" using that by simp
  qed
  from this [of total_size "int block_num * int block_size"] show ?thesis
    by (auto simp: progress_percent_def Let_def pos_imp_zdiv_nonneg_iff min_def)
qed

text \<open>
  The link tool, run for a distribution it knows in the directory of the images: when it returns, each
  of its links names its file where the file is there, and is what it was where the file is not (the
  downloader would have removed it).
\<close>

theorem clean_and_link_keeps_links:
  assumes "map_of LINK_MAPS name = Some links" and "(l, t) \<in> set links"
    and "prefix ''/'' (cwd w)"
    and "case fs w (path_join (cwd w) t) of None \<Rightarrow> True | Some (Symlink _) \<Rightarrow> False | _ \<Rightarrow> True"
    and "fst (clean_and_link name w) = Inr ()"
  shows "fs (snd (clean_and_link name w)) (path_join (cwd w) l) =
    (if fs w (path_join (cwd w) t) = None then fs w (path_join (cwd w) l) else Some (Symlink t))"
proof -
  have "list_all (\<lambda>(_, ls). list_all (\<lambda>(l, t). simple_name l \<and> simple_name t) ls \<and>
      distinct (map fst ls @ map snd ls)) LINK_MAPS"
    by code_simp
  then have "\<forall>x \<in> set LINK_MAPS. list_all (\<lambda>(l, t). simple_name l \<and> simple_name t) (snd x) \<and>
      distinct (map fst (snd x) @ map snd (snd x))"
    by (simp add: list_all_iff split_beta)
  from bspec [OF this map_of_SomeD [OF assms(1)]]
  have simple: "\<forall>x \<in> fst ` set links \<union> snd ` set links. simple_name x"
    and dist: "distinct (map fst links)" and apart: "fst ` set links \<inter> snd ` set links = {}"
    by (auto simp: list_all_iff)
  have lt: "l \<in> fst ` set links" "t \<in> snd ` set links" using assms(2) by force+
  then have at_lt: "at w l = path_join (cwd w) l" "at w t = path_join (cwd w) t"
    using simple by (simp_all add: at_simple)
  have inj: "x = y" if "x \<in> fst ` set links \<union> snd ` set links" "y \<in> fst ` set links \<union> snd ` set links"
    "at w x = at w y" for x y
    using bspec [OF simple that(1)] bspec [OF simple that(2)] that(3) by (simp add: at_simple path_join_inject)
  have dist_at: "distinct (map (at w \<circ> fst) links)"
  proof -
    have "inj_on (at w) (fst ` set links)"
      by (rule inj_onI) (rule inj, simp_all)
    then show ?thesis using dist by (simp add: distinct_map comp_inj_on)
  qed
  have apart_at: "at w t \<notin> set (map (at w \<circ> fst) links)"
  proof
    assume "at w t \<in> set (map (at w \<circ> fst) links)"
    then obtain x where x: "x \<in> fst ` set links" "at w t = at w x"
      by (simp add: image_comp [symmetric]) blast
    then have "t = x" using inj [of t x] lt(2) by blast
    then show False using x(1) lt(2) apart by blast
  qed
  have loop: "clean_and_link name = forE links clean_link"
    using assms(1) by (simp add: clean_and_link_def)
  have "fs (snd (forE links clean_link w)) (at w l) = clean_outcome (fs w (at w l)) (fs w (at w t)) t"
    using assms(4,5) at_lt(2)
    by (intro clean.loop_links dist_at assms(2) apart_at) (auto simp: loop plain_def split: option.splits node.splits)
  then show ?thesis by (simp add: loop at_lt clean_outcome_def)
qed

theorem clean_and_link_keeps_links_witness:
  "fs (snd (clean_and_link ''ubuntu'' ((image_host [(''/img/initrd.ubuntu'', Symlink ''x'')])\<lparr>cwd := ''/img''\<rparr>)))
     ''/img/initrd.ubuntu'' = Some (Symlink ''x'')"
proof -
  let ?w = "(image_host [(''/img/initrd.ubuntu'', Symlink ''x'')])\<lparr>cwd := ''/img''\<rparr>"
  have facts: "map_of LINK_MAPS ''ubuntu'' = Some (snd (LINK_MAPS ! 2))"
      "(''initrd.ubuntu'', ''ubuntu-noble-initrd-minimal'') \<in> set (snd (LINK_MAPS ! 2))"
      "prefix ''/'' (cwd ?w)"
      "case fs ?w (path_join (cwd ?w) ''ubuntu-noble-initrd-minimal'') of
        None \<Rightarrow> True | Some (Symlink _) \<Rightarrow> False | _ \<Rightarrow> True"
      "fst (clean_and_link ''ubuntu'' ?w) = Inr ()"
    and now: "fs ?w (path_join (cwd ?w) ''ubuntu-noble-initrd-minimal'') = None"
      "fs ?w ''/img/initrd.ubuntu'' = Some (Symlink ''x'')"
      "path_join (cwd ?w) ''initrd.ubuntu'' = ''/img/initrd.ubuntu''"
    by code_simp+
  show ?thesis
    using clean_and_link_keeps_links [OF facts, unfolded now] now(2) by simp
qed

text \<open>
  The two link tables agree for Fedora and CirrOS. For Ubuntu they do not: the link tool has no
  entry for the disk the downloader links, and one for an initial RAM disk no asset provides.
\<close>

theorem link_tables:
  "set (the (map_of LINK_MAPS ''fedora'')) = set (map asset_link FEDORA_ASSETS) \<and>
   set (the (map_of LINK_MAPS ''cirros'')) = set (map asset_link CIRROS_ASSETS) \<and>
   set (map asset_link UBUNTU_ASSETS) - set (the (map_of LINK_MAPS ''ubuntu'')) =
     {(''disk.ubuntu'', ''ubuntu-noble-disk.img'')} \<and>
   set (the (map_of LINK_MAPS ''ubuntu'')) - set (map asset_link UBUNTU_ASSETS) =
     {(''initrd.ubuntu'', ''ubuntu-noble-initrd-minimal'')}"
  by code_simp

end
