(* ===== verification/Utf8.thy ===== *)
theory Utf8
  imports Byte_Codec
begin

text \<open>
  UTF-8 as the agent's line drainer uses it: \<open>s.encode('utf-8')\<close>, and \<open>b.decode('utf-8', errors='ignore')\<close>, which drops
  the bytes that are part of no character. A text is the list of its code points.
\<close>

section \<open>One character\<close>

definition scalar :: "nat \<Rightarrow> bool" where
  "scalar c \<longleftrightarrow> c < 0xD800 \<or> 0xE000 \<le> c \<and> c < 0x110000"

definition utf8_bytes :: "nat \<Rightarrow> byte list" where
  "utf8_bytes c = map word_of_nat
     (if c < 0x80 then [c]
      else if c < 0x800 then [0xC0 + c div 64, 0x80 + c mod 64]
      else if c < 0x10000 then [0xE0 + c div 4096, 0x80 + c div 64 mod 64, 0x80 + c mod 64]
      else [0xF0 + c div 262144, 0x80 + c div 4096 mod 64, 0x80 + c div 64 mod 64, 0x80 + c mod 64])"

definition is_cont :: "byte \<Rightarrow> bool" where
  "is_cont b \<longleftrightarrow> 0x80 \<le> unat b \<and> unat b < 0xC0"

definition low :: "byte \<Rightarrow> nat" where
  "low b = unat b - 0x80"

text \<open>The character at the front: the shortest form, no surrogate, nothing above the last code point.\<close>

definition utf8_char :: "byte list \<Rightarrow> (nat \<times> byte list) option" where
  "utf8_char bs =
     (case bs of
        [] \<Rightarrow> None
      | b # r \<Rightarrow>
          if unat b < 0x80 then Some (unat b, r)
          else if unat b < 0xC2 then None
          else if unat b < 0xE0 then
            (case r of
               c1 # r' \<Rightarrow> if is_cont c1 then Some ((unat b - 0xC0) * 64 + low c1, r') else None
             | _ \<Rightarrow> None)
          else if unat b < 0xF0 then
            (case r of
               c1 # c2 # r' \<Rightarrow>
                 let v = (unat b - 0xE0) * 4096 + low c1 * 64 + low c2
                 in if is_cont c1 \<and> is_cont c2 \<and> 0x800 \<le> v \<and> scalar v then Some (v, r') else None
             | _ \<Rightarrow> None)
          else
            (case r of
               c1 # c2 # c3 # r' \<Rightarrow>
                 let v = (unat b - 0xF0) * 262144 + low c1 * 4096 + low c2 * 64 + low c3
                 in if is_cont c1 \<and> is_cont c2 \<and> is_cont c3 \<and> 0x10000 \<le> v \<and> scalar v then Some (v, r') else None
             | _ \<Rightarrow> None))"

lemma unat_code: "n < 256 \<Longrightarrow> unat (word_of_nat n :: byte) = n"
  by (simp add: unat_of_nat)

definition cont :: "nat \<Rightarrow> byte" where
  "cont n = word_of_nat (0x80 + n mod 64)"

lemma unat_cont: "unat (cont n) = 0x80 + n mod 64"
proof -
  have "n mod 64 < 64" by simp
  then have "0x80 + n mod 64 < 256" by linarith
  then show ?thesis unfolding cont_def by (rule unat_code)
qed

lemma continuation [simp]: "is_cont (cont n)" "low (cont n) = n mod 64"
proof -
  have "n mod 64 < 64" by simp
  then show "is_cont (cont n)" "low (cont n) = n mod 64" by (simp_all only: is_cont_def low_def unat_cont) linarith+
qed

text \<open>The digits of a code point, to the base of 64.\<close>

lemma base_64:
  fixes c :: nat
  shows "c div 64 * 64 + c mod 64 = c" and "c div 4096 * 4096 + c div 64 mod 64 * 64 + c mod 64 = c"
    and "c div 262144 * 262144 + c div 4096 mod 64 * 4096 + c div 64 mod 64 * 64 + c mod 64 = c"
proof -
  show 1: "c div 64 * 64 + c mod 64 = c" by simp
  have "c div 64 div 64 = c div 4096" by (simp flip: div_mult2_eq)
  then have "c div 4096 * 64 + c div 64 mod 64 = c div 64" by (metis div_mult_mod_eq)
  then show 2: "c div 4096 * 4096 + c div 64 mod 64 * 64 + c mod 64 = c" using 1 by linarith
  have "c div 4096 div 64 = c div 262144" by (simp flip: div_mult2_eq)
  then have "c div 262144 * 64 + c div 4096 mod 64 = c div 4096" by (metis div_mult_mod_eq)
  then show "c div 262144 * 262144 + c div 4096 mod 64 * 4096 + c div 64 mod 64 * 64 + c mod 64 = c" using 2 by linarith
qed

lemma two_bytes: "unat b = 0xC0 + a \<Longrightarrow> 2 \<le> a \<Longrightarrow> a < 32 \<Longrightarrow> is_cont c1 \<Longrightarrow> a * 64 + low c1 = v \<Longrightarrow>
    utf8_char (b # c1 # rest) = Some (v, rest)"
  by (simp add: utf8_char_def)

lemma three_bytes: "unat b = 0xE0 + a \<Longrightarrow> a < 16 \<Longrightarrow> is_cont c1 \<Longrightarrow> is_cont c2 \<Longrightarrow>
    a * 4096 + low c1 * 64 + low c2 = v \<Longrightarrow> 0x800 \<le> v \<Longrightarrow> scalar v \<Longrightarrow> utf8_char (b # c1 # c2 # rest) = Some (v, rest)"
  by (simp add: utf8_char_def Let_def)

lemma four_bytes: "unat b = 0xF0 + a \<Longrightarrow> is_cont c1 \<Longrightarrow> is_cont c2 \<Longrightarrow> is_cont c3 \<Longrightarrow>
    a * 262144 + low c1 * 4096 + low c2 * 64 + low c3 = v \<Longrightarrow> 0x10000 \<le> v \<Longrightarrow> scalar v \<Longrightarrow>
    utf8_char (b # c1 # c2 # c3 # rest) = Some (v, rest)"
  by (simp add: utf8_char_def Let_def)

definition lead :: "nat \<Rightarrow> byte" where
  "lead n = word_of_nat n"

lemma utf8_bytes_cases:
  "c < 0x80 \<Longrightarrow> utf8_bytes c = [lead c]"
  "0x80 \<le> c \<Longrightarrow> c < 0x800 \<Longrightarrow> utf8_bytes c = [lead (0xC0 + c div 64), cont c]"
  "0x800 \<le> c \<Longrightarrow> c < 0x10000 \<Longrightarrow> utf8_bytes c = [lead (0xE0 + c div 4096), cont (c div 64), cont c]"
  "0x10000 \<le> c \<Longrightarrow> utf8_bytes c = [lead (0xF0 + c div 262144), cont (c div 4096), cont (c div 64), cont c]"
  by (simp_all add: utf8_bytes_def lead_def cont_def del: of_nat_add)

lemma unat_lead: "n < 256 \<Longrightarrow> unat (lead n) = n"
  by (simp add: lead_def unat_code)

lemma utf8_char_bytes:
  assumes "scalar c"
  shows "utf8_char (utf8_bytes c @ rest) = Some (c, rest)"
proof -
  consider "c < 0x80" | "0x80 \<le> c" "c < 0x800" | "0x800 \<le> c" "c < 0x10000" | "0x10000 \<le> c" "c < 0x110000"
    using assms unfolding scalar_def by linarith
  then show ?thesis
  proof cases
    case 1
    then show ?thesis by (simp add: utf8_bytes_cases utf8_char_def unat_lead)
  next
    case 2
    then have a: "2 \<le> c div 64" "c div 64 < 32" by (simp_all add: div_less_iff_less_mult less_eq_div_iff_mult_less_eq)
    then have b: "unat (lead (0xC0 + c div 64)) = 0xC0 + c div 64" by (intro unat_lead) linarith
    have "utf8_char (lead (0xC0 + c div 64) # cont c # rest) = Some (c, rest)"
      by (rule two_bytes [OF b a continuation(1)]) (simp only: continuation base_64)
    then show ?thesis by (simp only: utf8_bytes_cases(2) [OF 2] append.simps)
  next
    case 3
    then have a: "c div 4096 < 16" by (simp add: div_less_iff_less_mult)
    then have b: "unat (lead (0xE0 + c div 4096)) = 0xE0 + c div 4096" by (intro unat_lead) linarith
    have "utf8_char (lead (0xE0 + c div 4096) # cont (c div 64) # cont c # rest) = Some (c, rest)"
      by (rule three_bytes [OF b a continuation(1) continuation(1) _ 3(1) assms]) (simp only: continuation base_64)
    then show ?thesis by (simp only: utf8_bytes_cases(3) [OF 3] append.simps)
  next
    case 4
    then have "c div 262144 < 5" by (simp add: div_less_iff_less_mult)
    then have b: "unat (lead (0xF0 + c div 262144)) = 0xF0 + c div 262144" by (intro unat_lead) linarith
    have "utf8_char (lead (0xF0 + c div 262144) # cont (c div 4096) # cont (c div 64) # cont c # rest) = Some (c, rest)"
      by (rule four_bytes [OF b continuation(1) continuation(1) continuation(1) _ 4(1) assms]) (simp only: continuation base_64)
    then show ?thesis by (simp only: utf8_bytes_cases(4) [OF 4(1)] append.simps)
  qed
qed

interpretation code_point: codec utf8_bytes utf8_char scalar
proof unfold_locales
  show "utf8_char (utf8_bytes c @ rest) = Some (c, rest)" if "scalar c" for c rest
    using that by (rule utf8_char_bytes)
  show "utf8_bytes c \<noteq> []" for c by (simp add: utf8_bytes_def)
qed

section \<open>A text\<close>

definition encode_utf8 :: "nat list \<Rightarrow> byte list" where
  "encode_utf8 cs = concat (map utf8_bytes cs)"

lemma utf8_char_shorter: "utf8_char bs = Some (c, r) \<Longrightarrow> length r < length bs"
  by (auto simp: utf8_char_def Let_def split: list.splits if_splits)

text \<open>Where no character starts, one byte is dropped; the rest of a broken character is dropped byte by byte.\<close>

function decode_utf8 :: "byte list \<Rightarrow> nat list" where
  "decode_utf8 [] = []"
| "decode_utf8 (b # bs) =
     (case utf8_char (b # bs) of Some (c, r) \<Rightarrow> c # decode_utf8 r | None \<Rightarrow> decode_utf8 bs)"
  by pat_completeness auto

termination
proof (relation "measure length")
  show "(r, b # bs) \<in> measure length" if "utf8_char (b # bs) = Some x" "(c, r) = x" for b bs x c r
    using utf8_char_shorter [of "b # bs" c r] that by simp
qed simp_all

lemma decode_cont: "is_cont b \<Longrightarrow> decode_utf8 (b # bs) = decode_utf8 bs"
  by (simp add: utf8_char_def is_cont_def)

lemma decode_char: "scalar c \<Longrightarrow> decode_utf8 (utf8_bytes c @ rest) = c # decode_utf8 rest"
proof -
  assume c: "scalar c"
  obtain b bs where "utf8_bytes c = b # bs" using code_point.enc_ne [OF c] by (cases "utf8_bytes c") auto
  then show ?thesis using utf8_char_bytes [OF c, of rest] by simp
qed

lemma decode_encode: "list_all scalar cs \<Longrightarrow> decode_utf8 (encode_utf8 cs @ rest) = cs @ decode_utf8 rest"
  by (induction cs) (simp_all add: encode_utf8_def decode_char)

lemma encode_utf8_append [simp]: "encode_utf8 (cs @ ds) = encode_utf8 cs @ encode_utf8 ds"
  by (simp add: encode_utf8_def)

lemma utf8_char_scalar: "utf8_char bs = Some (c, r) \<Longrightarrow> scalar c"
  using unat_byte_less [of "hd bs"]
  by (auto simp: utf8_char_def Let_def scalar_def low_def is_cont_def split: list.splits if_splits)

lemma decode_scalar: "list_all scalar (decode_utf8 bs)"
  by (induction bs rule: decode_utf8.induct) (auto split: option.splits dest: utf8_char_scalar)

end
