(* ===== verification/Agent_Drain.thy ===== *)
theory Agent_Drain
  imports Utf8
begin

text \<open>
  The thread that copies the output of the bridge to the terminal and into its log
  (\<open>continuous_line_drainer\<close> of \<open>run_pcie_agent.py\<close>, lines 305 to 329), with the regular expression that removes
  terminal control sequences. A text is the list of its code points; what the reads of the terminal answer, one after
  the other, is the list the loop runs over. Digits, in the pattern, are those of ASCII.
\<close>

section \<open>Control sequences\<close>

definition codes :: "string \<Rightarrow> nat list" where
  "codes s = map of_char s"

definition escape :: nat where
  "escape = 0x1B"

definition bracket :: nat where
  "bracket = 0x5B"

text \<open>The classes \<open>[0-?]\<close>, \<open>[ -/]\<close> and \<open>[@-~]\<close>, and the two ways a sequence starts.\<close>

definition is_param :: "nat \<Rightarrow> bool" where
  "is_param c \<longleftrightarrow> 48 \<le> c \<and> c \<le> 63"

definition is_intermediate :: "nat \<Rightarrow> bool" where
  "is_intermediate c \<longleftrightarrow> 32 \<le> c \<and> c \<le> 47"

definition is_final :: "nat \<Rightarrow> bool" where
  "is_final c \<longleftrightarrow> 64 \<le> c \<and> c \<le> 126"

definition is_second :: "nat \<Rightarrow> bool" where
  "is_second c \<longleftrightarrow> 64 \<le> c \<and> c \<le> 95"

definition is_c1 :: "nat \<Rightarrow> bool" where
  "is_c1 c \<longleftrightarrow> 128 \<le> c \<and> c \<le> 159"

text \<open>\<open>[0-9]\<close>, for \<open>\\d\<close>.\<close>

definition is_decimal :: "nat \<Rightarrow> bool" where
  "is_decimal c \<longleftrightarrow> 48 \<le> c \<and> c \<le> 57"

text \<open>
  What is left of a text behind a match at its start. The three classes of the first alternative are disjoint, so
  its greedy repetitions never have to give a character back.
\<close>

definition match_rest :: "nat list \<Rightarrow> nat list option" where
  "match_rest s =
     (case dropWhile is_intermediate (dropWhile is_param s) of
        f # rest \<Rightarrow> if is_final f then Some rest else None
      | [] \<Rightarrow> None)"

definition match_first :: "nat list \<Rightarrow> nat list option" where
  "match_first s =
     (case s of
        c # cs \<Rightarrow>
          if c = escape then (case cs of d # ds \<Rightarrow> if is_second d then match_rest ds else None | [] \<Rightarrow> None)
          else if is_c1 c then match_rest cs
          else None
      | [] \<Rightarrow> None)"

text \<open>The second alternative, a report of the cursor: numbers with semicolons between them, and an R.\<close>

fun match_numbers :: "bool \<Rightarrow> nat list \<Rightarrow> nat list option" where
  "match_numbers seen [] = None"
| "match_numbers seen (c # cs) =
     (if is_decimal c then match_numbers True cs
      else if seen \<and> c = 0x3B then match_numbers False cs
      else if seen \<and> c = 0x52 then Some cs
      else None)"

definition match_report :: "nat list \<Rightarrow> nat list option" where
  "match_report s =
     (case s of
        c # d # ds \<Rightarrow> if c = escape \<and> d = bracket then match_numbers False ds else None
      | _ \<Rightarrow> None)"

definition match_ansi :: "nat list \<Rightarrow> nat list option" where
  "match_ansi s = (case match_first s of Some r \<Rightarrow> Some r | None \<Rightarrow> match_report s)"

text \<open>A match takes at least one character.\<close>

lemma match_rest_shorter:
  assumes "match_rest s = Some r"
  shows "length r < length s"
proof -
  obtain f where "dropWhile is_intermediate (dropWhile is_param s) = f # r"
    using assms by (auto simp: match_rest_def split: list.splits if_splits)
  then have "length (f # r) \<le> length s"
    using length_dropWhile_le [of is_intermediate "dropWhile is_param s"] length_dropWhile_le [of is_param s] by simp
  then show ?thesis by simp
qed

lemma match_numbers_shorter: "match_numbers seen s = Some r \<Longrightarrow> length r < length s"
  by (induction seen s rule: match_numbers.induct) (auto split: if_splits)

lemma match_ansi_shorter:
  assumes "match_ansi s = Some r"
  shows "length r < length s"
proof -
  from assms consider "match_first s = Some r" | "match_report s = Some r"
    by (auto simp: match_ansi_def split: option.splits)
  then show ?thesis
    by cases (auto simp: match_first_def match_report_def split: list.splits if_splits
      dest!: match_rest_shorter match_numbers_shorter)
qed

text \<open>\<open>ansi_escape_pattern.sub('', s)\<close>.\<close>

function strip_ansi :: "nat list \<Rightarrow> nat list" where
  "strip_ansi [] = []"
| "strip_ansi (c # cs) = (case match_ansi (c # cs) of Some r \<Rightarrow> strip_ansi r | None \<Rightarrow> c # strip_ansi cs)"
  by pat_completeness auto

termination
proof (relation "measure length")
  show "(r, c # cs) \<in> measure length" if "match_ansi (c # cs) = Some r" for c cs r
    using match_ansi_shorter [OF that] by simp
qed simp_all

section \<open>The loop\<close>

datatype read = Data "byte list" | Timed_Out | End_Of_File | Broken exn

datatype thread = Alive | Ended | Died exn

text \<open>The terminal and the log get the same text; the log is a file of bytes.\<close>

record sinks =
  stdout :: "nat list"
  backend_log :: "byte list"

fun continuous_line_drainer :: "read list \<Rightarrow> sinks \<Rightarrow> thread \<times> sinks" where
  "continuous_line_drainer [] s = (Alive, s)"
| "continuous_line_drainer (r # rs) s =
     (case r of
        Data data \<Rightarrow>
          (let clean_text = strip_ansi (decode_utf8 data)
           in continuous_line_drainer rs
             (if clean_text \<noteq> []
              then s\<lparr>stdout := stdout s @ clean_text, backend_log := backend_log s @ encode_utf8 clean_text\<rparr>
              else s))
      | Timed_Out \<Rightarrow> continuous_line_drainer rs s
      | End_Of_File \<Rightarrow> (Ended, s)
      | Broken e \<Rightarrow> (Died e, s))"

section \<open>Properties\<close>

text \<open>The second alternative adds nothing: what it matches, the first has matched.\<close>

lemma numbers_params: "match_numbers seen s = Some r \<Longrightarrow> match_rest s = Some r"
proof (induction seen s rule: match_numbers.induct)
  case (2 seen c cs)
  have classes: "is_decimal c \<Longrightarrow> is_param c" "is_param 0x3B" "\<not> is_param 0x52" "\<not> is_intermediate 0x52"
      "is_final 0x52"
    by (simp_all add: is_decimal_def is_param_def is_intermediate_def is_final_def)
  from 2 show ?case
    by (auto simp: match_rest_def classes split: if_splits)
qed simp

lemma match_ansi_first: "match_ansi s = match_first s"
proof -
  have "match_first s = match_report s" if "match_report s \<noteq> None"
  proof -
    have "is_second bracket" by (simp add: is_second_def bracket_def)
    then show ?thesis
      using that numbers_params [of False]
      by (cases s rule: list.exhaust; cases "tl s")
        (auto simp: match_report_def match_first_def split: if_splits)
  qed
  then show ?thesis by (cases "match_report s") (auto simp: match_ansi_def split: option.splits)
qed

text \<open>Pieces of output: text without control characters that start a sequence, and whole sequences.\<close>

datatype piece = Text "nat list" | Sequence "nat list" "nat list" nat

fun piece_codes :: "piece \<Rightarrow> nat list" where
  "piece_codes (Text t) = t"
| "piece_codes (Sequence ps im f) = escape # bracket # ps @ im @ [f]"

fun piece_text :: "piece \<Rightarrow> nat list" where
  "piece_text (Text t) = t"
| "piece_text (Sequence ps im f) = []"

fun whole :: "piece \<Rightarrow> bool" where
  "whole (Text t) = list_all (\<lambda>c. scalar c \<and> c \<noteq> escape \<and> \<not> is_c1 c) t"
| "whole (Sequence ps im f) = (list_all is_param ps \<and> list_all is_intermediate im \<and> is_final f)"

lemma match_sequence:
  assumes "list_all is_param ps" and "list_all is_intermediate im" and "is_final f"
  shows "match_ansi (escape # bracket # ps @ im @ [f] @ rest) = Some rest"
proof -
  have classes: "\<not> is_param f" "\<not> is_intermediate f" "is_second bracket"
    and disjoint: "is_intermediate c \<Longrightarrow> \<not> is_param c" for c
    using assms(3) by (simp_all add: is_param_def is_intermediate_def is_final_def is_second_def bracket_def)
  have "dropWhile is_param (ps @ im @ f # rest) = im @ f # rest"
    using assms(1,2) classes(1) disjoint by (cases im) (auto simp: list_all_iff dropWhile_append2)
  moreover have "dropWhile is_intermediate (im @ f # rest) = f # rest"
    using assms(2) classes(2) by (auto simp: list_all_iff dropWhile_append2)
  ultimately have "match_rest (ps @ im @ f # rest) = Some rest" using assms(3) by (simp add: match_rest_def)
  then show ?thesis using classes(3) by (simp add: match_ansi_first match_first_def)
qed

lemma strip_text: "list_all (\<lambda>c. scalar c \<and> c \<noteq> escape \<and> \<not> is_c1 c) t \<Longrightarrow> strip_ansi (t @ rest) = t @ strip_ansi rest"
  by (induction t) (simp_all add: match_ansi_first match_first_def)

lemma strip_pieces: "list_all whole pieces \<Longrightarrow> strip_ansi (concat (map piece_codes pieces)) = concat (map piece_text pieces)"
proof (induction pieces)
  case (Cons p ps)
  then show ?case
  proof (cases p)
    case (Sequence qs im f)
    then show ?thesis using Cons match_sequence [of qs im f "concat (map piece_codes ps)"] by simp
  qed (simp add: strip_text)
qed simp

lemma whole_scalar: "whole p \<Longrightarrow> list_all scalar (piece_codes p)"
  by (cases p) (auto simp: list_all_iff scalar_def escape_def bracket_def is_param_def is_intermediate_def is_final_def)

lemma decode_pieces:
  assumes "list_all whole ps"
  shows "decode_utf8 (encode_utf8 (concat (map piece_codes ps))) = concat (map piece_codes ps)"
proof -
  have "list_all scalar (concat (map piece_codes ps))" using assms whole_scalar by (auto simp: list_all_iff)
  from decode_encode [OF this, of "[]"] show ?thesis by simp
qed

text \<open>Nothing is added to a text.\<close>

lemma match_rest_set:
  assumes "match_rest s = Some r"
  shows "set r \<subseteq> set s"
proof -
  obtain f where "dropWhile is_intermediate (dropWhile is_param s) = f # r"
    using assms by (auto simp: match_rest_def split: list.splits if_splits)
  then have "set r \<subseteq> set (dropWhile is_intermediate (dropWhile is_param s))" by auto
  then show ?thesis using set_dropWhileD [of _ is_intermediate "dropWhile is_param s"] set_dropWhileD [of _ is_param s] by blast
qed

lemma match_ansi_set: "match_ansi s = Some r \<Longrightarrow> set r \<subseteq> set s"
  unfolding match_ansi_first match_first_def
  by (auto split: list.splits if_splits dest!: match_rest_set)

lemma strip_set: "set (strip_ansi s) \<subseteq> set s"
proof (induction s rule: strip_ansi.induct)
  case (2 c cs)
  then show ?case
  proof (cases "match_ansi (c # cs)")
    case (Some r)
    then have "set (strip_ansi r) \<subseteq> set r" using 2 by blast
    then show ?thesis using Some match_ansi_set [OF Some] by simp
  qed auto
qed simp

lemma drainer_run:
  "list_all (\<lambda>r. case r of Data _ \<Rightarrow> True | Timed_Out \<Rightarrow> True | _ \<Rightarrow> False) reads \<Longrightarrow>
     continuous_line_drainer (reads @ [End_Of_File]) s =
       (let added = concat (map (\<lambda>r. case r of Data t \<Rightarrow> strip_ansi (decode_utf8 t) | _ \<Rightarrow> []) reads)
        in (Ended, s\<lparr>stdout := stdout s @ added, backend_log := backend_log s @ encode_utf8 added\<rparr>))"
proof (induction reads arbitrary: s)
  case (Cons r rs)
  then show ?case by (cases r) (auto simp: Let_def encode_utf8_def)
qed (simp add: Let_def encode_utf8_def)

text \<open>
  C20. When every read of the bridge holds whole characters and whole control sequences, the thread ends with the
  output, and has added to the terminal and, as UTF-8, to the log exactly the text between the sequences, in order.
\<close>

theorem drained_log:
  assumes "list_all (list_all whole) blocks"
  shows "continuous_line_drainer
      (concat (map (\<lambda>ps. [Data (encode_utf8 (concat (map piece_codes ps))), Timed_Out]) blocks) @ [End_Of_File]) s =
    (let added = concat (map piece_text (concat blocks))
     in (Ended, s\<lparr>stdout := stdout s @ added, backend_log := backend_log s @ encode_utf8 added\<rparr>))"
proof -
  let ?reads = "concat (map (\<lambda>ps. [Data (encode_utf8 (concat (map piece_codes ps))), Timed_Out]) blocks)"
  have "list_all (\<lambda>r. case r of Data _ \<Rightarrow> True | Timed_Out \<Rightarrow> True | _ \<Rightarrow> False) ?reads"
    by (induction blocks) simp_all
  moreover have "concat (map (\<lambda>r. case r of Data t \<Rightarrow> strip_ansi (decode_utf8 t) | _ \<Rightarrow> []) ?reads) =
      concat (map piece_text (concat blocks))"
    using assms by (induction blocks) (simp_all add: strip_pieces decode_pieces)
  ultimately show ?thesis using drainer_run [of ?reads s] by simp
qed

theorem drained_log_witness:
  "continuous_line_drainer
      [Data (encode_utf8 (escape # codes ''[1;31mError'' @ [0x2713] @ escape # codes ''[0m'')), Timed_Out, End_Of_File]
     \<lparr>stdout = [], backend_log = []\<rparr> =
   (Ended, \<lparr>stdout = codes ''Error'' @ [0x2713], backend_log = encode_utf8 (codes ''Error'' @ [0x2713])\<rparr>)"
  using drained_log [of "[[Sequence (codes ''1;31'') [] 0x6D, Text (codes ''Error'' @ [0x2713]), Sequence (codes ''0'') [] 0x6D]]"
      "\<lparr>stdout = [], backend_log = []\<rparr>"]
  by (simp add: is_param_def is_final_def is_c1_def escape_def bracket_def codes_def scalar_def Let_def
      del: continuous_line_drainer.simps)

text \<open>A sequence that is cut by the end of a read stays, as text, in the log; a character that is cut is lost.\<close>

lemma cut_sequence_stays:
  "continuous_line_drainer [Data (encode_utf8 (escape # codes ''[1;3'')), Data (encode_utf8 (codes ''1mError'')), End_Of_File]
     \<lparr>stdout = [], backend_log = []\<rparr> =
   (Ended, \<lparr>stdout = escape # codes ''[1;31mError'', backend_log = encode_utf8 (escape # codes ''[1;31mError'')\<rparr>)"
proof -
  have decoded: "decode_utf8 (encode_utf8 (escape # codes ''[1;3'')) = escape # codes ''[1;3''"
    "decode_utf8 (encode_utf8 (codes ''1mError'')) = codes ''1mError''"
    using decode_encode [of "escape # codes ''[1;3''" "[]"] decode_encode [of "codes ''1mError''" "[]"]
    by (simp_all add: codes_def escape_def scalar_def)
  have stripped: "strip_ansi (escape # codes ''[1;3'') = escape # codes ''[1;3''" "strip_ansi (codes ''1mError'') = codes ''1mError''"
    by code_simp+
  have "escape # codes ''[1;31mError'' = (escape # codes ''[1;3'') @ codes ''1mError''" by (simp add: codes_def)
  moreover have "codes ''1mError'' \<noteq> []" by (simp add: codes_def)
  ultimately show ?thesis by (simp add: decoded stripped Let_def del: strip_ansi.simps decode_utf8.simps flip: encode_utf8_append)
qed

lemma cut_character_lost:
  "continuous_line_drainer [Data (take 2 (utf8_bytes 0x2713)), Data (drop 2 (utf8_bytes 0x2713)), End_Of_File]
     \<lparr>stdout = [], backend_log = []\<rparr> = (Ended, \<lparr>stdout = [], backend_log = []\<rparr>)"
proof -
  have bytes: "utf8_bytes 0x2713 = [lead 0xE2, cont 0x9C, cont 0x2713]" by (simp add: utf8_bytes_cases)
  have "utf8_char [lead 0xE2, c] = None" for c by (simp add: utf8_char_def unat_lead)
  then have "decode_utf8 [lead 0xE2, cont 0x9C] = decode_utf8 [cont 0x9C]" by simp
  then have "decode_utf8 (take 2 (utf8_bytes 0x2713)) = []" "decode_utf8 (drop 2 (utf8_bytes 0x2713)) = []"
    unfolding bytes by (simp_all add: decode_cont del: decode_utf8.simps(2))
  then show ?thesis by (simp add: Let_def)
qed

text \<open>A sequence of two characters, such as the reverse line feed, takes a letter of the text with it.\<close>

lemma two_characters_take_three: "strip_ansi (escape # codes ''Mready'') = codes ''eady''"
  by code_simp

end
