(* ===== verification/Agent_Logs.thy ===== *)
theory Agent_Logs
  imports Host
begin

text \<open>
  The agent's files (\<open>run_pcie_agent.py\<close>, lines 71 to 114): where the project, its logs and the guest
  images are, and the rotation of the logs of earlier runs. The rotation is compared with its contract,
  \<open>rotated\<close>: what each place of a log's history holds afterwards, from what the places held before.
\<close>

section \<open>Moving a file\<close>

text \<open>
  \<open>shutil.move\<close> of a file or a link: into the directory if the target is one, over the target
  otherwise. Moving a directory is not modelled beyond its own node.
\<close>

definition shutil_move :: "path \<Rightarrow> path \<Rightarrow> (world, unit) prog" where
  "shutil_move src dst w =
     (let real_dst = (if isdir w dst then path_join dst (basename src) else dst)
      in if isdir w dst \<and> path_exists w real_dst then (Inl OSError, w)
         else case fs w (at w src) of
             None \<Rightarrow> (Inl FileNotFoundError, w)
           | Some n \<Rightarrow>
               if \<not> parent_ok w real_dst then (Inl FileNotFoundError, w)
               else (Inr (), upd real_dst (Some n) (upd src None w)))"

text \<open>\<open>os.path.getsize\<close>: a directory counts as one block.\<close>

definition getsize :: "world \<Rightarrow> path \<Rightarrow> nat" where
  "getsize w p = (case stat w p of Some (File c) \<Rightarrow> size c | Some _ \<Rightarrow> 4096 | None \<Rightarrow> 0)"

section \<open>Rotation\<close>

definition backup :: "path \<Rightarrow> nat \<Rightarrow> path" where
  "backup target i = target @ ''.'' @ show_nat i"

text \<open>The inner loop runs \<open>i\<close> from \<open>max_backups - 1\<close> down to 1.\<close>

definition shift_backup :: "path \<Rightarrow> nat \<Rightarrow> (world, unit) prog" where
  "shift_backup target i =
     bindE (getE (\<lambda>w. path_exists w (backup target i))) (\<lambda>there.
       whenE there (shutil_move (backup target i) (backup target (i + 1))))"

definition rotate_target :: "nat \<Rightarrow> path \<Rightarrow> (world, unit) prog" where
  "rotate_target max_backups target =
     seqE (forE (rev [1..<max_backups]) (shift_backup target))
       (bindE (getE (\<lambda>w. path_exists w target \<and> 0 < getsize w target)) (\<lambda>full.
         whenE full (shutil_move target (backup target 1))))"

definition setup_log_directory :: "path \<Rightarrow> path \<Rightarrow> path \<Rightarrow> path \<Rightarrow> nat \<Rightarrow> (world, unit) prog" where
  "setup_log_directory dir_name log_file_path pcap_file_path slog_file_path max_backups =
     seqE
       (bindE (getE (\<lambda>w. path_exists w dir_name)) (\<lambda>there.
          whenE (\<not> there) (os_makedirs dir_name False)))
       (forE [log_file_path, pcap_file_path, slog_file_path] (rotate_target max_backups))"

section \<open>Where things are\<close>

text \<open>
  The paths the agent works with. The anchors are the parents of the project root and the home
  directory, resolved by \<open>abspath\<close> and \<open>expanduser\<close> outside of the model; the first with an \<open>images\<close>
  directory wins (\<open>main\<close> overrides the image directory afterwards).
\<close>

record agent_paths =
  project_root :: path
  log_dir :: path
  log_file_path :: path
  pcap_file_path :: path
  slog_file_path :: path
  image_root :: path

definition resolve_relative_paths :: "path \<Rightarrow> path \<Rightarrow> path \<Rightarrow> path \<Rightarrow> world \<Rightarrow> agent_paths" where
  "resolve_relative_paths root parent grandparent home w =
     (let log_dir = path_join root ''logs'';
          search_anchors = [parent, grandparent, home];
          found = find (\<lambda>anchor. path_exists w (path_join anchor ''images'')) search_anchors
      in \<lparr>project_root = root, log_dir = log_dir,
          log_file_path = path_join log_dir ''pcie_backend.log'',
          pcap_file_path = path_join log_dir ''vfio-user.pcap'',
          slog_file_path = path_join log_dir ''sockdump.log'',
          image_root = (case found of
            Some anchor \<Rightarrow> path_join anchor ''images''
          | None \<Rightarrow> path_join home ''images'')\<rparr>)"

section \<open>The contract of the rotation\<close>

text \<open>
  A log's history: the log itself at place 0, its backups at the places from 1. A log with content
  moves to place 1 and each backup moves up; what stood at the last place goes only when something
  takes its place.
\<close>

definition places :: "path \<Rightarrow> filesystem \<Rightarrow> nat \<Rightarrow> node option" where
  "places target f i = (if i = 0 then f target else f (backup target i))"

definition has_content :: "node option \<Rightarrow> bool" where
  "has_content n = (case n of Some (File c) \<Rightarrow> c \<noteq> [] | _ \<Rightarrow> False)"

definition shifted :: "nat \<Rightarrow> nat \<Rightarrow> (nat \<Rightarrow> node option) \<Rightarrow> nat \<Rightarrow> node option" where
  "shifted k n old i =
     (if i < k \<or> n < i then old i
      else if i = k then (if k < n then None else old k)
      else if old (i - 1) \<noteq> None then old (i - 1)
      else if i = n then old n else None)"

definition rotated :: "nat \<Rightarrow> (nat \<Rightarrow> node option) \<Rightarrow> nat \<Rightarrow> node option" where
  "rotated n old =
     (let up = shifted 1 n old
      in if has_content (old 0) then up(0 := None, 1 := old 0) else up)"

lemma backup_inject: "backup t i = backup t j \<longleftrightarrow> i = j"
  by (metis append.assoc append_same_eq backup_def int_of_show_nat same_append_eq)

lemma backup_other: "backup t i \<noteq> t"
  by (simp add: backup_def)

text \<open>The files of a log, and its backups up to \<open>n\<close>: none is a directory or a link.\<close>

definition log_files :: "nat \<Rightarrow> path \<Rightarrow> filesystem \<Rightarrow> bool" where
  "log_files n target f \<longleftrightarrow>
     list_all (\<lambda>i. case places target f i of None \<Rightarrow> True | Some (File _) \<Rightarrow> True | _ \<Rightarrow> False) [0..<Suc n]"

text \<open>A log in an existing directory.\<close>

definition log_in :: "path \<Rightarrow> path \<Rightarrow> filesystem \<Rightarrow> bool" where
  "log_in d name f \<longleftrightarrow> prefix ''/'' d \<and> \<not> suffix ''/'' d \<and> f d = Some Dir \<and> simple_name name"

lemma log_places:
  assumes "log_in d name f"
  shows "at w (path_join d name) = path_join d name"
    and "at w (backup (path_join d name) i) = backup (path_join d name) i"
    and "dirname (backup (path_join d name) i) = d"
    and "backup (path_join d name) i \<noteq> d" and "path_join d name \<noteq> d"
proof -
  have d: "prefix ''/'' d" "\<not> suffix ''/'' d" "d \<noteq> []" and n: "simple_name name"
    using assms by (auto simp: log_in_def)
  have join: "path_join d name = d @ ''/'' @ name"
    using n d by (simp add: path_join_simple)
  have digits: "CHR ''/'' \<notin> set (show_nat k)" for k
    using show_nat_digits [of k] by (auto simp: list_all_iff is_digit_def)
  have simple: "simple_name (name @ ''.'' @ show_nat i)"
    using n digits by (simp add: simple_name_def)
  have b_eq: "backup (path_join d name) i = path_join d (name @ ''.'' @ show_nat i)"
    using join path_join_simple [OF simple] d by (simp add: backup_def)
  show "at w (path_join d name) = path_join d name"
    "at w (backup (path_join d name) i) = backup (path_join d name) i"
    using d(1) by (simp_all add: b_eq at_absolute absolute_join)
  show "dirname (backup (path_join d name) i) = d"
    unfolding b_eq by (rule dirname_join [OF simple d(3,2)])
  show "backup (path_join d name) i \<noteq> d" "path_join d name \<noteq> d"
    by (simp_all add: backup_def join)
qed

lemma move_file:
  assumes "log_in d name (fs w)" and "fs w (at w src) = Some (File c)"
    and "case fs w (backup (path_join d name) j) of None \<Rightarrow> True | Some (File _) \<Rightarrow> True | _ \<Rightarrow> False"
  shows "shutil_move src (backup (path_join d name) j) w =
    (Inr (), upd (backup (path_join d name) j) (Some (File c)) (upd src None w))"
proof -
  let ?b = "backup (path_join d name) j"
  note at_b = log_places(2) [OF assms(1), of w j]
  have "stat w ?b = fs w ?b"
    using assms(3) at_b by (cases "fs w ?b") (auto simp: stat_plain split: node.splits)
  then have "\<not> isdir w ?b" using assms(3) by (auto simp: isdir_def)
  moreover have "parent_ok w ?b"
    using log_places(3) [OF assms(1)] assms(1) stat_plain(2) [of w d]
    by (simp add: parent_ok_def at_b isdir_def log_in_def at_absolute Let_def)
  ultimately show ?thesis using assms(2) by (simp add: shutil_move_def)
qed

text \<open>One round of the inner loop.\<close>

lemma shift_backup_eq:
  assumes "log_in d name (fs w)"
    and "\<And>j. j \<in> {i, Suc i} \<Longrightarrow> case fs w (backup (path_join d name) j) of
        None \<Rightarrow> True | Some (File _) \<Rightarrow> True | _ \<Rightarrow> False"
  shows "shift_backup (path_join d name) i w =
    (Inr (), if fs w (backup (path_join d name) i) = None then w
       else w\<lparr>fs := (fs w)(backup (path_join d name) i := None,
              backup (path_join d name) (Suc i) := fs w (backup (path_join d name) i))\<rparr>)"
proof -
  let ?b = "backup (path_join d name)"
  note at_b = log_places(2) [OF assms(1), of w]
  show ?thesis
  proof (cases "fs w (?b i)")
    case None
    then show ?thesis
      by (simp add: shift_backup_def prog_simps path_exists_def stat_plain at_b)
  next
    case (Some n)
    then obtain c where c: "fs w (?b i) = Some (File c)"
      using assms(2) [of i] by (auto split: node.splits)
    then have "shutil_move (?b i) (?b (Suc i)) w = (Inr (), upd (?b (Suc i)) (Some (File c)) (upd (?b i) None w))"
      using assms by (intro move_file) (simp_all add: at_b)
    then show ?thesis
      using c at_upd [of "?b i" None w]
      by (simp add: shift_backup_def prog_simps path_exists_def stat_plain at_b upd_def)
  qed
qed

text \<open>The inner loop, from \<open>n - 1\<close> down to \<open>k\<close>.\<close>

definition is_log :: "node option \<Rightarrow> bool" where
  "is_log n = (case n of None \<Rightarrow> True | Some (File _) \<Rightarrow> True | _ \<Rightarrow> False)"

lemma log_files_iff: "log_files n t f \<longleftrightarrow> (\<forall>i \<le> n. is_log (places t f i))"
  by (auto simp: log_files_def list_all_iff is_log_def less_Suc_eq_le)

lemma shift_loop:
  assumes d: "log_in d name (fs w)" and files: "log_files n (path_join d name) (fs w)"
  defines "t \<equiv> path_join d name"
  defines "old \<equiv> places (path_join d name) (fs w)"
  assumes k: "k \<le> n" "1 \<le> k"
  shows "\<exists>f. forE (rev [k..<n]) (shift_backup t) w = (Inr (), w\<lparr>fs := f\<rparr>) \<and>
    (\<forall>i. f (backup t (Suc i)) = shifted k n old (Suc i)) \<and>
    (\<forall>p. (\<forall>i. p \<noteq> backup t (Suc i)) \<longrightarrow> f p = fs w p)"
  using k
proof (induction k rule: inc_induct)
  case base
  show ?case
    by (rule exI [of _ "fs w"]) (auto simp: prog_simps shifted_def old_def places_def t_def)
next
  case (step k)
  have range: "[k..<n] = k # [Suc k..<n]" using step.hyps by (simp add: upt_conv_Cons)
  obtain f where f: "forE (rev [Suc k..<n]) (shift_backup t) w = (Inr (), w\<lparr>fs := f\<rparr>)"
    and slots: "f (backup t (Suc i)) = shifted (Suc k) n old (Suc i)"
    and frame: "(\<forall>i. p \<noteq> backup t (Suc i)) \<longrightarrow> f p = fs w p" for i p
    using step.IH by auto
  let ?v = "w\<lparr>fs := f\<rparr>"
  let ?g = "if f (backup t k) = None then f else f(backup t k := None, backup t (Suc k) := f (backup t k))"
  obtain k' where k': "k = Suc k'" using step.prems by (cases k) auto
  have "f d = fs w d" using frame [of d] log_places(4) [OF d] unfolding t_def by metis
  then have dir: "log_in d name f" using d by (simp add: log_in_def)
  have fk: "f (backup t k) = old k" "f (backup t (Suc k)) = (if Suc k < n then None else old (Suc k))"
    using slots [of k'] slots [of k] by (auto simp: shifted_def k')
  have "is_log (old k)" "is_log (old (Suc k))"
    using files step.hyps by (auto simp: log_files_iff old_def)
  then have "shift_backup t k ?v = (Inr (), if fs ?v (backup t k) = None then ?v
       else ?v\<lparr>fs := (fs ?v)(backup t k := None, backup t (Suc k) := fs ?v (backup t k))\<rparr>)"
    unfolding t_def using dir fk by (intro shift_backup_eq) (auto simp: is_log_def t_def)
  then have "forE (rev [k..<n]) (shift_backup t) w = (Inr (), w\<lparr>fs := ?g\<rparr>)"
    using f by (simp add: range forE_append seqE_Inr) (simp add: prog_simps)
  moreover have "?g (backup t (Suc i)) = shifted k n old (Suc i)" for i
    using slots [of i] fk step.hyps k' by (auto simp: shifted_def backup_inject)
  moreover have "?g p = fs w p" if "\<forall>i. p \<noteq> backup t (Suc i)" for p
    using frame [of p] that k' by auto
  ultimately show ?case by blast
qed

text \<open>One target, with the move of the log itself.\<close>

lemma rotate_target_places:
  assumes d: "log_in d name (fs w)" and files: "log_files n (path_join d name) (fs w)" and n: "1 \<le> n"
  defines "t \<equiv> path_join d name"
  shows "\<exists>f. rotate_target n t w = (Inr (), w\<lparr>fs := f\<rparr>) \<and>
    places t f = rotated n (places t (fs w)) \<and>
    (\<forall>p. (\<forall>i. p \<noteq> backup t (Suc i)) \<longrightarrow> p \<noteq> t \<longrightarrow> f p = fs w p)"
proof -
  obtain f where f: "forE (rev [1..<n]) (shift_backup t) w = (Inr (), w\<lparr>fs := f\<rparr>)"
    and slots: "\<And>i. f (backup t (Suc i)) = shifted 1 n (places t (fs w)) (Suc i)"
    and frame: "\<And>p. (\<forall>i. p \<noteq> backup t (Suc i)) \<longrightarrow> f p = fs w p"
    using shift_loop [OF d files n] unfolding t_def by auto
  let ?v = "w\<lparr>fs := f\<rparr>"
  note run = seqE_Inr [where m = "forE (rev [1..<n]) (shift_backup t)", OF f]
  have t_at: "at v t = t" for v unfolding t_def by (rule log_places(1) [OF d])
  have ft: "f t = fs w t" using frame [of t] backup_other by metis
  have "f d = fs w d" using frame [of d] log_places(4) [OF d] unfolding t_def by metis
  then have dir: "log_in d name (fs ?v)" using d by (simp add: log_in_def)
  have old: "is_log (places t (fs w) i)" if "i \<le> n" for i
    using files that by (simp add: log_files_iff t_def)
  then have "is_log (shifted 1 n (places t (fs w)) 1)"
    using n by (auto simp: shifted_def is_log_def)
  then have "is_log (f (backup t 1))" using slots [of 0] by simp
  moreover have up: "places t f = shifted 1 n (places t (fs w))"
  proof
    show "places t f i = shifted 1 n (places t (fs w)) i" for i
      using slots ft by (cases i) (simp_all add: places_def shifted_def)
  qed
  have "is_log (fs w t)" using old [of 0] by (simp add: places_def)
  then have stat_t: "stat ?v t = fs w t"
    using ft t_at [of ?v] by (cases "fs w t") (auto simp: is_log_def stat_plain split: node.splits)
  have full: "path_exists ?v t \<and> 0 < getsize ?v t \<longleftrightarrow> has_content (fs w t)"
    using \<open>is_log (fs w t)\<close>
    by (auto simp: path_exists_def getsize_def stat_t has_content_def is_log_def split: option.splits node.splits)
  show ?thesis
  proof (cases "has_content (fs w t)")
    case False
    then have "rotate_target n t w = (Inr (), ?v)"
      unfolding rotate_target_def run using full by (auto simp: prog_simps)
    moreover have "places t f = rotated n (places t (fs w))"
      using False up by (simp add: rotated_def places_def [of t "fs w" 0])
    ultimately show ?thesis using frame by blast
  next
    case True
    then obtain c where c: "fs w t = Some (File c)"
      by (auto simp: has_content_def split: option.splits node.splits)
    let ?g = "f(t := None, backup t 1 := Some (File c))"
    have "shutil_move t (backup t 1) ?v = (Inr (), upd (backup t 1) (Some (File c)) (upd t None ?v))"
      using dir \<open>is_log (f (backup t 1))\<close> c ft t_at unfolding t_def
      by (intro move_file) (simp_all add: is_log_def)
    then have "rotate_target n t w = (Inr (), w\<lparr>fs := ?g\<rparr>)"
      unfolding rotate_target_def run using full True t_at log_places(2) [OF d]
      by (simp add: prog_simps upd_def t_def)
    moreover have "places t ?g = (places t f)(0 := None, 1 := Some (File c))"
      using backup_other [of t] backup_other [of t, symmetric]
      by (auto simp: places_def fun_eq_iff backup_inject)
    then have "places t ?g = rotated n (places t (fs w))"
      using True up c by (simp add: rotated_def Let_def) (simp add: places_def)
    moreover have "?g p = fs w p" if "\<forall>i. p \<noteq> backup t (Suc i)" "p \<noteq> t" for p
      using frame [of p] that by auto
    ultimately show ?thesis by blast
  qed
qed

section \<open>Properties\<close>

text \<open>
  C22. Rotating one log: it always succeeds, and each place of its history holds what the contract says.
  So the log of the last run, if it wrote any, is the first backup, in full; the earlier ones have moved
  up by one; and what was at the last place goes only if another backup takes its place.
\<close>

theorem rotate_target_rotates:
  assumes "log_in d name (fs w)" and "log_files n (path_join d name) (fs w)" and "1 \<le> n"
  shows "fst (rotate_target n (path_join d name) w) = Inr () \<and>
    places (path_join d name) (fs (snd (rotate_target n (path_join d name) w))) =
      rotated n (places (path_join d name) (fs w))"
  using rotate_target_places [OF assms] by auto

definition log_host :: "(path \<times> string) list \<Rightarrow> world" where
  "log_host files =
     \<lparr>fs = map_of ((''/logs'', Dir) # map (\<lambda>(p, c). (p, File c)) files), cwd = ''/'', env = (\<lambda>_. None),
      log = []\<rparr>"

theorem rotate_target_rotates_witness:
  "places ''/logs/a'' (fs (snd (rotate_target 2 ''/logs/a'' (log_host [(''/logs/a'', ''new''), (''/logs/a.1'', ''old'')])))) =
     rotated 2 (places ''/logs/a'' (fs (log_host [(''/logs/a'', ''new''), (''/logs/a.1'', ''old'')])))"
proof -
  let ?w = "log_host [(''/logs/a'', ''new''), (''/logs/a.1'', ''old'')]"
  have facts: "log_in ''/logs'' ''a'' (fs ?w)" "log_files 2 (path_join ''/logs'' ''a'') (fs ?w)" "1 \<le> (2::nat)"
    and name: "path_join ''/logs'' ''a'' = ''/logs/a''"
    by code_simp+
  show ?thesis using rotate_target_rotates [OF facts] by (simp add: name)
qed

text \<open>A path is outside of a log's history, whatever the number of a backup, by its first characters.\<close>

lemma outside_history:
  assumes "x \<noteq> y"
  shows "d @ ''/'' @ x # s \<noteq> backup (d @ ''/'' @ y # u) i" and "d @ ''/'' @ x # s \<noteq> d @ ''/'' @ y # u"
  using assms by (simp_all add: backup_def)

lemma rotate_frame:
  assumes "log_in d n1 (fs w)" "log_files n (path_join d n1) (fs w)" "1 \<le> n"
    and "simple_name n2" and "hd n1 \<noteq> hd n2"
  defines "w' \<equiv> snd (rotate_target n (path_join d n1) w)"
  shows "rotate_target n (path_join d n1) w = (Inr (), w')"
    and "places (path_join d n2) (fs w') = places (path_join d n2) (fs w)"
    and "fs w' d = Some Dir"
proof -
  obtain f where f: "rotate_target n (path_join d n1) w = (Inr (), w\<lparr>fs := f\<rparr>)"
    and frame: "(\<forall>i. p \<noteq> backup (path_join d n1) (Suc i)) \<longrightarrow> p \<noteq> path_join d n1 \<longrightarrow> f p = fs w p" for p
    using rotate_target_places [OF assms(1-3)] by auto
  have w': "w' = w\<lparr>fs := f\<rparr>" by (simp add: w'_def f)
  then show "rotate_target n (path_join d n1) w = (Inr (), w')" by (simp add: f)
  show "fs w' d = Some Dir"
    using frame [of d] log_places(4,5) [OF assms(1)] assms(1) unfolding w' log_in_def by simp metis
  obtain x s where x: "n1 = x # s" using assms(1) by (cases n1) (auto simp: log_in_def simple_name_def)
  obtain y u where y: "n2 = y # u" using assms(4) by (cases n2) (auto simp: simple_name_def)
  have join: "path_join d n1 = d @ ''/'' @ x # s" "path_join d n2 = d @ ''/'' @ y # u"
    using assms(1,4) path_join_simple [of _ d] x y by (auto simp: log_in_def)
  have ne: "y \<noteq> x" using assms(5) x y by simp
  show "places (path_join d n2) (fs w') = places (path_join d n2) (fs w)"
  proof
    fix i
    have "backup (path_join d n2) i \<noteq> backup (path_join d n1) j" for j
      using ne by (simp add: join backup_def)
    moreover have "backup (path_join d n2) i \<noteq> path_join d n1"
      using ne by (simp add: join backup_def)
    ultimately show "places (path_join d n2) (fs w') i = places (path_join d n2) (fs w) i"
      using frame [of "backup (path_join d n2) i"] frame [of "path_join d n2"] outside_history [OF ne]
      by (simp add: w' places_def join)
  qed
qed

lemma log_files_cong: "places t f = places t g \<Longrightarrow> log_files n t f = log_files n t g"
  by (simp add: log_files_def)

lemma rotate_all:
  assumes "1 \<le> n" and "distinct (map hd names)"
  shows "fs w d = Some Dir \<Longrightarrow> prefix ''/'' d \<Longrightarrow> \<not> suffix ''/'' d \<Longrightarrow> list_all simple_name names \<Longrightarrow>
    (\<And>a. a \<in> set names \<Longrightarrow> log_files n (path_join d a) (fs w)) \<Longrightarrow>
    fst (forE (map (path_join d) names) (rotate_target n) w) = Inr () \<and>
    (\<forall>b. simple_name b \<longrightarrow> b \<in> set names \<or> hd b \<notin> set (map hd names) \<longrightarrow>
      places (path_join d b) (fs (snd (forE (map (path_join d) names) (rotate_target n) w))) =
        (if b \<in> set names then rotated n (places (path_join d b) (fs w))
         else places (path_join d b) (fs w)))"
  using assms(2)
proof (induction names arbitrary: w)
  case Nil
  then show ?case by (simp add: prog_simps)
next
  case (Cons a names)
  let ?w1 = "snd (rotate_target n (path_join d a) w)"
  have a: "log_in d a (fs w)" "log_files n (path_join d a) (fs w)"
    using Cons.prems by (simp_all add: log_in_def)
  have rot: "fst (rotate_target n (path_join d a) w) = Inr () \<and>
      places (path_join d a) (fs ?w1) = rotated n (places (path_join d a) (fs w))"
    using rotate_target_places [OF a assms(1)] by auto
  have first: "rotate_target n (path_join d a) w = (Inr (), ?w1)"
    using rot by (simp add: prod_eq_iff)
  have loop: "forE (map (path_join d) (a # names)) (rotate_target n) w =
      forE (map (path_join d) names) (rotate_target n) ?w1"
    by (simp add: seqE_Inr [where m = "rotate_target n (path_join d a)", OF first])
  note frame = rotate_frame(2) [OF a assms(1)]
  have same: "places (path_join d b) (fs ?w1) = places (path_join d b) (fs w)" if "b \<in> set names" for b
    using Cons.prems(4,6) that by (intro frame) (auto simp: list_all_iff)
  have a_simple: "simple_name a" and dir: "fs ?w1 d = Some Dir"
    using Cons.prems(4) a rotate_target_places [OF a assms(1)] log_places(4,5) [OF a(1)]
    by (auto simp: log_in_def) (metis fst_conv snd_conv world.select_convs(1) world.simps)
  have ih: "fst (forE (map (path_join d) names) (rotate_target n) ?w1) = Inr () \<and>
    (\<forall>b. simple_name b \<longrightarrow> b \<in> set names \<or> hd b \<notin> set (map hd names) \<longrightarrow>
      places (path_join d b) (fs (snd (forE (map (path_join d) names) (rotate_target n) ?w1))) =
        (if b \<in> set names then rotated n (places (path_join d b) (fs ?w1))
         else places (path_join d b) (fs ?w1)))"
    using Cons.prems dir log_files_cong [OF same] by (intro Cons.IH) auto
  show ?case
  proof (intro conjI allI impI)
    show "fst (forE (map (path_join d) (a # names)) (rotate_target n) w) = Inr ()"
      using ih by (simp only: loop)
  next
    fix b
    assume b: "simple_name b" "b \<in> set (a # names) \<or> hd b \<notin> set (map hd (a # names))"
    show "places (path_join d b) (fs (snd (forE (map (path_join d) (a # names)) (rotate_target n) w))) =
        (if b \<in> set (a # names) then rotated n (places (path_join d b) (fs w))
         else places (path_join d b) (fs w))"
    proof (cases "b = a")
      case True
      then have "hd b \<notin> set (map hd names)" "b \<notin> set names" using Cons.prems(6) by auto
      then show ?thesis using ih b True rot by (simp only: loop) simp
    next
      case False
      then have "b \<in> set names \<or> hd b \<notin> set (map hd names)" "hd a \<noteq> hd b"
        using b(2) Cons.prems(6) by auto
      then show ?thesis using ih b(1) False frame [OF b(1)] by (simp only: loop) simp
    qed
  qed
qed

text \<open>
  Preparing the logs of a run in an existing log directory rotates the three logs, each by its own
  contract: no move touches the history of another log.
\<close>

theorem setup_log_directory_rotates:
  assumes "prefix ''/'' d" and "\<not> suffix ''/'' d" and "fs w d = Some Dir" and "1 \<le> n"
    and "list_all (\<lambda>a. log_files n (path_join d a) (fs w))
      [''pcie_backend.log'', ''vfio-user.pcap'', ''sockdump.log'']"
    and "a \<in> {''pcie_backend.log'', ''vfio-user.pcap'', ''sockdump.log''}"
  shows "places (path_join d a) (fs (snd (setup_log_directory d (path_join d ''pcie_backend.log'')
      (path_join d ''vfio-user.pcap'') (path_join d ''sockdump.log'') n w))) =
    rotated n (places (path_join d a) (fs w))"
proof -
  let ?names = "[''pcie_backend.log'', ''vfio-user.pcap'', ''sockdump.log'']"
  have "path_exists w d"
    using assms(1,3) by (simp add: path_exists_def stat_plain at_absolute)
  then have "setup_log_directory d (path_join d ''pcie_backend.log'')
      (path_join d ''vfio-user.pcap'') (path_join d ''sockdump.log'') n w =
      forE (map (path_join d) ?names) (rotate_target n) w"
    by (simp add: setup_log_directory_def seqE_def bindE_def getE_def whenE_def ret_def del: forE.simps)
  moreover have "distinct (map hd ?names)" "list_all simple_name ?names"
    by code_simp+
  moreover have "log_files n (path_join d b) (fs w)" if "b \<in> set ?names" for b
    using assms(5) that by (simp only: list_all_iff)
  moreover have a: "a \<in> set ?names" using assms(6) by (simp only: list.set)
  moreover have "simple_name a"
    using a \<open>list_all simple_name ?names\<close> by (simp only: list_all_iff)
  ultimately show ?thesis
    using rotate_all [OF assms(4), of ?names w d] assms(1-3) by presburger
qed

theorem setup_log_directory_rotates_witness:
  "places ''/logs/sockdump.log'' (fs (snd (setup_log_directory ''/logs'' ''/logs/pcie_backend.log''
      ''/logs/vfio-user.pcap'' ''/logs/sockdump.log'' 2 (log_host [(''/logs/sockdump.log'', ''x'')])))) 1 =
     Some (File ''x'')"
proof -
  let ?w = "log_host [(''/logs/sockdump.log'', ''x'')]"
  have facts: "prefix ''/'' ''/logs''" "\<not> suffix ''/'' ''/logs''" "fs ?w ''/logs'' = Some Dir" "1 \<le> (2::nat)"
      "list_all (\<lambda>a. log_files 2 (path_join ''/logs'' a) (fs ?w))
        [''pcie_backend.log'', ''vfio-user.pcap'', ''sockdump.log'']"
    and names: "path_join ''/logs'' ''pcie_backend.log'' = ''/logs/pcie_backend.log''"
      "path_join ''/logs'' ''vfio-user.pcap'' = ''/logs/vfio-user.pcap''"
      "path_join ''/logs'' ''sockdump.log'' = ''/logs/sockdump.log''"
    and slot: "rotated 2 (places ''/logs/sockdump.log'' (fs ?w)) 1 = Some (File ''x'')"
    by code_simp+
  have a: "''sockdump.log'' \<in> {''pcie_backend.log'', ''vfio-user.pcap'', ''sockdump.log''}"
    by simp
  show ?thesis
    by (rule trans [OF fun_cong [OF setup_log_directory_rotates [OF facts a, unfolded names]] slot])
qed

end
