(* ===== verification/Agent_World.thy ===== *)
theory Agent_World
  imports Host
begin

text \<open>
  What the agent (\<open>run_pcie_agent.py\<close>) works with besides files: the processes it starts, the terminal of
  the guest, and the passing of time. Each call into \<open>pexpect\<close>, \<open>subprocess\<close>, \<open>os.kill\<close> and the like is
  an operation; what it answers is up to the environment, a parameter that sees the operations performed
  so far. The guest system, QEMU, the simulation and the kernel are behind that parameter, so a theorem
  about every environment holds whatever they do.

  The state keeps the machine's files, the operations performed in order, the text pexpect holds in
  \<open>before\<close>, the processes that may still be running, the log files that are open and the lines printed
  that report a result. A process leaves \<open>running\<close> when the agent has learnt that it is gone: its exit
  status or the end of its output was read, or \<open>terminate(force=True)\<close> returned.
\<close>

datatype proc = Bridge | Qemu | Sniffer | Wireshark | Gdb

datatype op =
    Spawn proc string
  | Sendline string
  | Expect "string list" "nat option"
  | Read_Nonblocking
  | Interact proc
  | Poll proc
  | Signal proc nat
  | Group proc
  | Signal_Group proc nat
  | Wait proc
  | Expect_EOF proc
  | Terminate proc
  | Read_Log
  | Run_Command string
  | Get_User
  | Glob string
  | Owned path
  | Pause nat

text \<open>
  An operation raises, or answers a number (the index of the pattern that matched, an exit status, 0
  for a process that is alive, 1 for a file of the user) and a text (what stood before the match, the content of a log,
  the file names that match a pattern, one in a line).
\<close>

datatype answer = Fails exn | Answer nat string

type_synonym env = "op list \<Rightarrow> op \<Rightarrow> answer"

datatype logfile = Backend_Log | Sniffer_Log | Wireshark_Log

record agent =
  host :: world
  ops :: "op list"
  before :: string
  running :: "proc set"
  open_files :: "logfile set"
  said :: "string list"

section \<open>The operations\<close>

definition perform :: "env \<Rightarrow> op \<Rightarrow> (agent, nat \<times> string) prog" where
  "perform ev c s =
     (let s' = s\<lparr>ops := ops s @ [c]\<rparr>
      in case ev (ops s) c of Fails e \<Rightarrow> (Inl e, s') | Answer n t \<Rightarrow> (Inr (n, t), s'))"

definition act :: "env \<Rightarrow> op \<Rightarrow> (agent, unit) prog" where
  "act ev c = bindE (perform ev c) (\<lambda>_. ret ())"

definition tell :: "string \<Rightarrow> (agent, unit) prog" where
  "tell t = modE (\<lambda>s. s\<lparr>said := said s @ [t]\<rparr>)"

definition gone :: "proc \<Rightarrow> (agent, unit) prog" where
  "gone p = modE (\<lambda>s. s\<lparr>running := running s - {p}\<rparr>)"

definition spawn :: "env \<Rightarrow> proc \<Rightarrow> string \<Rightarrow> (agent, unit) prog" where
  "spawn ev p cmd =
     seqE (act ev (Spawn p cmd)) (modE (\<lambda>s. s\<lparr>running := insert p (running s)\<rparr>))"

text \<open>\<open>isalive()\<close> and \<open>poll() is None\<close>.\<close>

definition alive :: "env \<Rightarrow> proc \<Rightarrow> (agent, bool) prog" where
  "alive ev p =
     bindE (perform ev (Poll p)) (\<lambda>(status, _).
       if status = 0 then ret True else bindE (gone p) (\<lambda>_. ret False))"

definition wait :: "env \<Rightarrow> proc \<Rightarrow> (agent, unit) prog" where
  "wait ev p = seqE (act ev (Wait p)) (gone p)"

definition terminate :: "env \<Rightarrow> proc \<Rightarrow> (agent, unit) prog" where
  "terminate ev p = seqE (act ev (Terminate p)) (gone p)"

definition expect_eof :: "env \<Rightarrow> proc \<Rightarrow> (agent, unit) prog" where
  "expect_eof ev p = seqE (act ev (Expect_EOF p)) (gone p)"

definition send_signal :: "env \<Rightarrow> proc \<Rightarrow> nat \<Rightarrow> (agent, unit) prog" where
  "send_signal ev p sig = act ev (Signal p sig)"

definition signal_group :: "env \<Rightarrow> proc \<Rightarrow> nat \<Rightarrow> (agent, unit) prog" where
  "signal_group ev p sig = act ev (Signal_Group p sig)"

definition sendline :: "env \<Rightarrow> string \<Rightarrow> (agent, unit) prog" where
  "sendline ev t = act ev (Sendline t)"

definition expect_any :: "env \<Rightarrow> string list \<Rightarrow> nat option \<Rightarrow> (agent, nat) prog" where
  "expect_any ev pats timeout =
     bindE (perform ev (Expect pats timeout)) (\<lambda>(i, t).
       bindE (modE (\<lambda>s. s\<lparr>before := t\<rparr>)) (\<lambda>_. ret i))"

definition expect :: "env \<Rightarrow> string \<Rightarrow> nat \<Rightarrow> (agent, unit) prog" where
  "expect ev pat timeout = bindE (expect_any ev [pat] (Some timeout)) (\<lambda>_. ret ())"

definition pause :: "env \<Rightarrow> nat \<Rightarrow> (agent, unit) prog" where
  "pause ev ms = act ev (Pause ms)"

definition open_log :: "logfile \<Rightarrow> (agent, unit) prog" where
  "open_log f = modE (\<lambda>s. s\<lparr>open_files := insert f (open_files s)\<rparr>)"

definition close_log :: "logfile \<Rightarrow> (agent, unit) prog" where
  "close_log f = modE (\<lambda>s. s\<lparr>open_files := open_files s - {f}\<rparr>)"

text \<open>A program on the files, and \<open>except Exception: pass\<close>.\<close>

definition on_host :: "(world, 'a) prog \<Rightarrow> (agent, 'a) prog" where
  "on_host m s = (case m (host s) of (r, w) \<Rightarrow> (r, s\<lparr>host := w\<rparr>))"

definition ignoring :: "(agent, unit) prog \<Rightarrow> (agent, unit) prog" where
  "ignoring m = tryE m is_Exception (\<lambda>_. ret ())"

section \<open>Environments\<close>

text \<open>
  No operation raises \<open>SystemExit\<close>; a guest that answers every \<open>expect\<close> (with some match) and takes
  every line lets a script run to its end.
\<close>

definition tame :: "env \<Rightarrow> bool" where
  "tame ev \<longleftrightarrow> (\<forall>h c e. ev h c = Fails e \<longrightarrow> is_Exception e)"

definition answers_all :: "env \<Rightarrow> bool" where
  "answers_all ev \<longleftrightarrow> (\<forall>h c e. ev h c \<noteq> Fails e)"

text \<open>What pexpect raises in a script: the two ways an \<open>expect\<close> fails, or an error of a write.\<close>

definition pexpect_errors :: "env \<Rightarrow> bool" where
  "pexpect_errors ev \<longleftrightarrow> (\<forall>h c e. ev h c = Fails e \<longrightarrow> e \<in> {TIMEOUT, EOF, OSError})"

section \<open>Frame rules\<close>

text \<open>
  What a program does to the processes and the open logs. Only \<open>spawn\<close> adds a process and only
  \<open>gone\<close> removes one; logs are opened and closed by \<open>open_log\<close> and \<open>close_log\<close>.
\<close>

definition state_of :: "agent \<Rightarrow> proc set \<times> logfile set" where
  "state_of s = (running s, open_files s)"

lemma keeps_perform [preserve]: "keeps (\<lambda>s. P (state_of s)) (perform ev c)"
  by (auto simp: keeps_def perform_def state_of_def Let_def split: answer.splits)

lemma keeps_act [preserve]: "keeps (\<lambda>s. P (state_of s)) (act ev c)"
  unfolding act_def by (intro preserve)

lemma keeps_tell [preserve]: "keeps (\<lambda>s. P (state_of s)) (tell t)"
  by (simp add: keeps_def tell_def modE_def state_of_def)

lemma keeps_pause [preserve]: "keeps (\<lambda>s. P (state_of s)) (pause ev n)"
  unfolding pause_def by (rule keeps_act)

lemma keeps_signal [preserve]: "keeps (\<lambda>s. P (state_of s)) (send_signal ev p n)"
  "keeps (\<lambda>s. P (state_of s)) (signal_group ev p n)"
  unfolding send_signal_def signal_group_def by (rule keeps_act)+

lemma keeps_on_host [preserve]: "keeps (\<lambda>s. P (state_of s)) (on_host m)"
  by (simp add: keeps_def on_host_def state_of_def split: prod.splits)

lemma keeps_ignoring [preserve]: "keeps P m \<Longrightarrow> keeps P (ignoring m)"
  unfolding ignoring_def by (intro preserve)

text \<open>Predicates that do not mind a process that goes, or a log that is closed.\<close>

lemma keeps_gone [preserve]: "(\<And>R L. P (R, L) \<Longrightarrow> P (R - {p}, L)) \<Longrightarrow> keeps (\<lambda>s. P (state_of s)) (gone p)"
  by (simp add: keeps_def gone_def modE_def state_of_def)

lemma keeps_close [preserve]: "(\<And>R L. P (R, L) \<Longrightarrow> P (R, L - {f})) \<Longrightarrow> keeps (\<lambda>s. P (state_of s)) (close_log f)"
  by (simp add: keeps_def close_log_def modE_def state_of_def)

lemma keeps_leave [preserve]:
  assumes "\<And>R L. P (R, L) \<Longrightarrow> P (R - {p}, L)"
  shows "keeps (\<lambda>s. P (state_of s)) (alive ev p)" "keeps (\<lambda>s. P (state_of s)) (wait ev p)"
    "keeps (\<lambda>s. P (state_of s)) (terminate ev p)" "keeps (\<lambda>s. P (state_of s)) (expect_eof ev p)"
proof -
  have gone: "keeps (\<lambda>s. P (state_of s)) (gone p)" using assms by (rule keeps_gone)
  show "keeps (\<lambda>s. P (state_of s)) (alive ev p)"
    unfolding alive_def by (auto intro!: keeps_bindE keeps_perform keeps_ret gone)
  show "keeps (\<lambda>s. P (state_of s)) (wait ev p)" "keeps (\<lambda>s. P (state_of s)) (terminate ev p)"
    "keeps (\<lambda>s. P (state_of s)) (expect_eof ev p)"
    unfolding wait_def terminate_def expect_eof_def by (intro keeps_seqE keeps_act gone)+
qed

lemma keeps_spawn [preserve]:
  "(\<And>R L. P (R, L) \<Longrightarrow> P (insert p R, L)) \<Longrightarrow> keeps (\<lambda>s. P (state_of s)) (spawn ev p cmd)"
  unfolding spawn_def by (intro keeps_seqE keeps_act) (simp add: keeps_def modE_def state_of_def)

section \<open>Operations that work\<close>

definition works :: "env \<Rightarrow> op \<Rightarrow> bool" where
  "works ev c \<longleftrightarrow> (\<forall>h e. ev h c \<noteq> Fails e)"

lemma throws_perform: "(\<And>h e. ev h c = Fails e \<Longrightarrow> E e) \<Longrightarrow> throws E (perform ev c)"
  by (auto simp: throws_def perform_def Let_def split: answer.splits)

lemma throws_act: "(\<And>h e. ev h c = Fails e \<Longrightarrow> E e) \<Longrightarrow> throws E (act ev c)"
  unfolding act_def by (intro raising throws_perform)

lemma throws_gone [raising]: "throws E (gone p)" and throws_close [raising]: "throws E (close_log f)"
  and throws_tell [raising]: "throws E (tell t)"
  by (simp_all add: gone_def close_log_def tell_def throws_modE)

lemma throws_alive: "works ev (Poll p) \<Longrightarrow> throws E (alive ev p)"
  unfolding alive_def works_def by (auto intro!: throws_bindE throws_perform throws_ret throws_gone)

text \<open>In a tame environment every operation raises exceptions \<open>except Exception\<close> takes.\<close>

lemma throws_tame:
  assumes "tame ev"
  shows "throws is_Exception (perform ev c)" "throws is_Exception (act ev c)" "throws is_Exception (pause ev n)"
    "throws is_Exception (send_signal ev p n)" "throws is_Exception (signal_group ev p n)"
    "throws is_Exception (wait ev p)" "throws is_Exception (terminate ev p)" "throws is_Exception (alive ev p)"
    "throws is_Exception (spawn ev p cmd)"
proof -
  have p: "throws is_Exception (perform ev c)" for c
    using assms by (intro throws_perform) (auto simp: tame_def)
  then have a: "throws is_Exception (act ev c)" for c
    unfolding act_def by (intro raising)
  show "throws is_Exception (perform ev c)" "throws is_Exception (act ev c)" by (rule p, rule a)
  show "throws is_Exception (pause ev n)" "throws is_Exception (send_signal ev p n)"
    "throws is_Exception (signal_group ev p n)"
    unfolding pause_def send_signal_def signal_group_def by (rule a)+
  show "throws is_Exception (wait ev p)" "throws is_Exception (terminate ev p)" "throws is_Exception (spawn ev p cmd)"
    unfolding wait_def terminate_def spawn_def by (intro raising a)+
  show "throws is_Exception (alive ev p)"
    unfolding alive_def by (auto intro!: raising p)
qed

lemma throws_ignoring: "throws is_Exception m \<Longrightarrow> throws E (ignoring m)"
  unfolding ignoring_def by (rule throws_tryE [where E = is_Exception]) (auto intro: throws_ret)

text \<open>The file operations raise no \<open>SystemExit\<close>.\<close>

lemma throws_on_host: "throws E m \<Longrightarrow> throws E (on_host m)"
  by (auto simp: throws_def on_host_def split: prod.splits) (metis fst_conv)

lemma throws_remove: "throws is_Exception (os_remove p)"
  by (auto simp: throws_def os_remove_def is_Exception_def split: option.splits node.splits)

lemma throws_write: "throws is_Exception (write_text t p)"
  by (auto simp: throws_def write_text_def write_with_def is_Exception_def split: option.splits node.splits if_splits)

text \<open>
  The calls the teardown relies on: asking for a status, signalling a process that was seen alive,
  forcing it to end, running a shell command. Waiting for the bridge to close its output may time out;
  everything said to the guest may fail in any way.
\<close>

definition calls_work :: "env \<Rightarrow> bool" where
  "calls_work ev \<longleftrightarrow>
     tame ev \<and> (\<forall>p. works ev (Poll p)) \<and> (\<forall>p n. works ev (Signal p n)) \<and> (\<forall>p. works ev (Terminate p)) \<and>
     (\<forall>n. works ev (Pause n)) \<and> works ev Get_User \<and> (\<forall>c. works ev (Run_Command c)) \<and>
     works ev (Wait Sniffer) \<and> (\<forall>h e. ev h (Expect_EOF Bridge) = Fails e \<longrightarrow> e = TIMEOUT)"

lemma throws_works: "works ev c \<Longrightarrow> throws E (act ev c)" "works ev c \<Longrightarrow> throws E (perform ev c)"
  by (auto simp: works_def intro!: throws_act throws_perform)

lemma throws_calls:
  assumes "calls_work ev"
  shows "throws E (alive ev p)" "throws E (send_signal ev p n)" "throws E (terminate ev p)" "throws E (pause ev n)"
    "throws E (act ev (Run_Command c))" "throws E (perform ev Get_User)" "throws E (wait ev Sniffer)"
    "throws is_Exception (act ev op)"
  using assms throws_tame(2) [of ev]
  by (auto simp: calls_work_def send_signal_def pause_def terminate_def wait_def
      intro!: throws_alive throws_works throws_seqE throws_gone)

text \<open>The process a status, a wait or a forced end is about.\<close>

lemma leaves_gone: "leaves (\<lambda>s. p \<notin> running s) (gone p)"
  by (simp add: leaves_def gone_def modE_def)

lemma leaves_closed: "leaves (\<lambda>s. f \<notin> open_files s) (close_log f)"
  by (simp add: leaves_def close_log_def modE_def)

lemma alive_cases:
  assumes "alive ev p s = (Inr b, s')"
  shows "host s' = host s" and "open_files s' = open_files s"
    and "running s' = (if b then running s else running s - {p})"
  using assms
  by (auto simp: alive_def perform_def gone_def prog_simps Let_def split: answer.splits if_splits)

end
