(* ===== verification/Agent_Sniffer.thy ===== *)
theory Agent_Sniffer
  imports Agent_World
begin

text \<open>
  The packet sniffer and the Wireshark window the agent starts beside the guest (\<open>run_pcie_agent.py\<close>,
  lines 116 to 303): starting them, and stopping them at the end of a run. A started sniffer is a handle
  with the attributes the agent hangs on the process object.
\<close>

record sniffer_handle =
  pcap_path :: path
  wireshark_proc :: bool
  slog_fd :: bool
  wlog_fd :: bool

section \<open>Starting\<close>

definition sniffer_argv :: "path \<Rightarrow> path \<Rightarrow> path \<Rightarrow> string list" where
  "sniffer_argv sockdump pcap_file_path socket_path =
     [''sudo'', ''-n'', ''python3'', sockdump, ''--format'', ''pcap'', ''--raw'', ''--output'',
       pcap_file_path, ''--flush'', socket_path]"

definition sniffer_cmd :: "path \<Rightarrow> path \<Rightarrow> path \<Rightarrow> string" where
  "sniffer_cmd sockdump pcap_file_path socket_path = join '' '' (sniffer_argv sockdump pcap_file_path socket_path)"

text \<open>
  Opening the log for writing empties it. The file handle is local to the block, so it is closed in the
  handler only when it was opened before the exception.
\<close>

definition open_for_log :: "logfile \<Rightarrow> path \<Rightarrow> (agent, unit) prog" where
  "open_for_log f p = seqE (on_host (write_text [] p)) (open_log f)"

definition start_vfio_user_pkt_sniffer ::
  "env \<Rightarrow> path \<Rightarrow> path \<Rightarrow> path \<Rightarrow> path \<Rightarrow> (agent, sniffer_handle option) prog" where
  "start_vfio_user_pkt_sniffer ev project_root pcap_file_path slog_file_path socket_path =
     (let sockdump = path_join (path_join (path_join project_root ''tools'') ''net'') ''sockdump.py''
      in seqE (on_host (write_text [] pcap_file_path))
        (tryE
          (bindE (open_for_log Sniffer_Log slog_file_path) (\<lambda>_.
           bindE (spawn ev Sniffer (sniffer_cmd sockdump pcap_file_path socket_path)) (\<lambda>_.
           bindE (pause ev 3000) (\<lambda>_.
           bindE (alive ev Sniffer) (\<lambda>up.
             if up then ret (Some \<lparr>pcap_path = pcap_file_path, wireshark_proc = False, slog_fd = True, wlog_fd = False\<rparr>)
             else bindE (close_log Sniffer_Log) (\<lambda>_. ret None))))))
          is_Exception
          (\<lambda>_. bindE (close_log Sniffer_Log) (\<lambda>_. ret None))))"

text \<open>
  The last line of the function prints the process id. When the log cannot be opened there is no handle
  to close, the \<open>return\<close> inside that condition is not reached, and the line reads an unbound name.
\<close>

definition launch_wireshark :: "env \<Rightarrow> path \<Rightarrow> sniffer_handle \<Rightarrow> (agent, sniffer_handle) prog" where
  "launch_wireshark ev log_dir h =
     (let wlog_path = path_join log_dir ''wireshark.log'';
          wireshark_pipe = ''tail -f -n +1 -c +0 '' @ pcap_path h @ '' | wireshark -k -i -''
      in bindE (getE (\<lambda>s. path_exists (host s) wlog_path)) (\<lambda>old.
         bindE (whenE old (ignoring (on_host (os_remove wlog_path)))) (\<lambda>_.
         bindE (tryE (bindE (open_for_log Wireshark_Log wlog_path) (\<lambda>_. ret True)) is_Exception (\<lambda>_. ret False))
           (\<lambda>fd.
           if \<not> fd then raise (UnboundLocalError ''proc'')
           else bindE (tryE (seqE (spawn ev Wireshark wireshark_pipe) (ret True)) is_Exception (\<lambda>_. ret False))
             (\<lambda>started.
             if \<not> started then bindE (close_log Wireshark_Log) (\<lambda>_. ret h)
             else (let h' = h\<lparr>wireshark_proc := True, wlog_fd := True\<rparr>
               in tryE
                 (bindE (pause ev 1500) (\<lambda>_.
                  bindE (alive ev Wireshark) (\<lambda>up.
                    if up then ret h'
                    else bindE (close_log Wireshark_Log) (\<lambda>_. ret (h'\<lparr>wireshark_proc := False\<rparr>)))))
                 is_Exception
                 (\<lambda>_. bindE (close_log Wireshark_Log) (\<lambda>_. ret h'))))))))"

section \<open>Stopping\<close>

text \<open>
  Wireshark first: its process group is asked for and signalled; if any of that fails, it is killed (with
  the group known, else the name is unbound and the handler's own handler takes that too).
\<close>

definition stop_wireshark :: "env \<Rightarrow> (agent, unit) prog" where
  "stop_wireshark ev =
     bindE (alive ev Wireshark) (\<lambda>up.
       whenE up
         (bindE (tryE (seqE (act ev (Group Wireshark)) (ret True)) is_Exception (\<lambda>_. ret False)) (\<lambda>pgid.
            tryE
              (if pgid then seqE (signal_group ev Wireshark 15) (wait ev Wireshark) else raise OSError)
              is_Exception
              (\<lambda>_. ignoring
                (if pgid then seqE (signal_group ev Wireshark 9) (wait ev Wireshark)
                 else raise (UnboundLocalError ''pgid''))))))"

text \<open>The wait for the sniffer's end: 4 seconds, in steps of a tenth.\<close>

primrec await_exit :: "nat \<Rightarrow> env \<Rightarrow> (agent, bool) prog" where
  "await_exit 0 ev = ret False"
| "await_exit (Suc n) ev =
     bindE (alive ev Sniffer) (\<lambda>up.
       if \<not> up then ret True else seqE (pause ev 100) (await_exit n ev))"

text \<open>A signal to the group, or to the process when that fails.\<close>

definition signal_sniffer :: "env \<Rightarrow> nat \<Rightarrow> (agent, unit) prog" where
  "signal_sniffer ev sig =
     tryE (signal_group ev Sniffer sig) is_Exception
       (\<lambda>_. send_signal ev Sniffer sig)"

definition stop_sniffer :: "env \<Rightarrow> (agent, unit) prog" where
  "stop_sniffer ev =
     bindE (alive ev Sniffer) (\<lambda>up.
       whenE up
         (bindE (signal_sniffer ev 2) (\<lambda>_.
          bindE (await_exit 40 ev) (\<lambda>terminated.
            whenE (\<not> terminated) (seqE (signal_sniffer ev 9) (wait ev Sniffer))))))"

definition settle_pcap :: "env \<Rightarrow> path \<Rightarrow> (agent, unit) prog" where
  "settle_pcap ev p =
     bindE (getE (\<lambda>s. path_exists (host s) p)) (\<lambda>there.
       whenE there
         (bindE (perform ev Get_User) (\<lambda>(_, user).
          seqE (act ev (Run_Command (''sudo chown '' @ user @ '':'' @ user @ '' '' @ p)))
            (act ev (Run_Command (''sudo chmod 664 '' @ p))))))"

text \<open>The temporary files of Wireshark that belong to the user.\<close>

definition swap_pattern :: string where
  "swap_pattern = ''/tmp/wireshark_Standard input*.pcapng''"

definition remove_swap_file :: "env \<Rightarrow> path \<Rightarrow> (agent, unit) prog" where
  "remove_swap_file ev temp_file =
     ignoring (bindE (perform ev (Owned temp_file)) (\<lambda>(mine, _). whenE (mine = 1) (on_host (os_remove temp_file))))"

definition clean_swap_files :: "env \<Rightarrow> (agent, unit) prog" where
  "clean_swap_files ev =
     ignoring
       (bindE (perform ev (Glob swap_pattern)) (\<lambda>(_, names).
          let temp_files = splitlines names
          in seqE (forE temp_files (remove_swap_file ev))
            (whenE (temp_files \<noteq> []) (tell ''Removed temporary Wireshark swap files from /tmp''))))"

definition stop_vfio_user_pkt_sniffer :: "env \<Rightarrow> sniffer_handle \<Rightarrow> (agent, unit) prog" where
  "stop_vfio_user_pkt_sniffer ev h =
     seqs
       [whenE (wireshark_proc h) (stop_wireshark ev),
        finallyE
          (tryE (stop_sniffer ev) is_Exception (\<lambda>_. tell ''Fatal: Exception thrown during sniffer teardown''))
          (seqs [whenE (slog_fd h) (close_log Sniffer_Log), whenE (wlog_fd h) (close_log Wireshark_Log)]),
        settle_pcap ev (pcap_path h),
        clean_swap_files ev]"

section \<open>Starting: properties\<close>

lemma throws_open_log: "throws is_Exception (open_for_log f p)"
  unfolding open_for_log_def open_log_def by (intro raising throws_on_host throws_write)

text \<open>
  Starting the sniffer, in any environment: when it gives back no sniffer, the sniffer's log is
  closed; when it gives one back, the log is open, the process has been started and was alive three
  seconds later, and the handle names the capture file and no Wireshark.
\<close>

theorem start_sniffer_outcome:
  assumes "start_vfio_user_pkt_sniffer ev root_dir pcap slog sock s = (Inr r, s')"
  shows "case r of
      None \<Rightarrow> Sniffer_Log \<notin> open_files s'
    | Some h \<Rightarrow> Sniffer_Log \<in> open_files s' \<and> Sniffer \<in> running s' \<and> last (ops s') = Poll Sniffer \<and>
        h = \<lparr>pcap_path = pcap, wireshark_proc = False, slog_fd = True, wlog_fd = False\<rparr>"
  using assms
  by (auto simp: start_vfio_user_pkt_sniffer_def Let_def prog_simps open_for_log_def open_log_def spawn_def
      act_def perform_def alive_def pause_def close_log_def gone_def
      split: prod.splits sum.splits answer.splits if_splits)

definition quiet_env :: env where
  "quiet_env h c = Answer 0 []"

definition sniffer_host :: "(path \<times> node) list \<Rightarrow> agent" where
  "sniffer_host files =
     \<lparr>host = \<lparr>fs = map_of ((''/logs'', Dir) # files), cwd = ''/'', env = (\<lambda>_. None), log = []\<rparr>, ops = [],
      before = [], running = {}, open_files = {}, said = []\<rparr>"

definition demo_handle :: sniffer_handle where
  "demo_handle = \<lparr>pcap_path = ''/logs/p'', wireshark_proc = False, slog_fd = True, wlog_fd = False\<rparr>"

lemma demo_start:
  "start_vfio_user_pkt_sniffer quiet_env ''/p'' ''/logs/p'' ''/logs/s'' ''/sock'' (sniffer_host []) =
     (Inr (Some demo_handle),
      snd (start_vfio_user_pkt_sniffer quiet_env ''/p'' ''/logs/p'' ''/logs/s'' ''/sock'' (sniffer_host [])))"
proof -
  have files: "write_text [] ''/logs/p'' (host (sniffer_host [])) =
      (Inr (), upd ''/logs/p'' (Some (File [])) (host (sniffer_host [])))"
    "write_text [] ''/logs/s'' (upd ''/logs/p'' (Some (File [])) (host (sniffer_host []))) =
      (Inr (), upd ''/logs/s'' (Some (File [])) (upd ''/logs/p'' (Some (File [])) (host (sniffer_host []))))"
    by (simp_all add: write_text_def write_with_def sniffer_host_def at_def max_links_def numeral_eq_Suc
        parent_ok_def dirname_def isdir_def stat_def Let_def)
  show ?thesis
    by (simp add: start_vfio_user_pkt_sniffer_def Let_def prog_simps open_for_log_def open_log_def on_host_def
        files spawn_def act_def perform_def quiet_env_def pause_def alive_def demo_handle_def)
qed

theorem start_sniffer_outcome_witness:
  "Sniffer \<in> running (snd (start_vfio_user_pkt_sniffer quiet_env ''/p'' ''/logs/p'' ''/logs/s'' ''/sock''
     (sniffer_host [])))"
  using start_sniffer_outcome [OF demo_start] by simp

text \<open>
  Opening Wireshark is meant to go on without it when something fails. But when its log cannot be
  opened, the function does not return there: it goes on to print the id of a process it has not
  started, and raises for the unbound name.
\<close>

theorem launch_wireshark_unbound:
  assumes "\<not> path_exists (host s) (path_join dir ''wireshark.log'')"
    and "fst (write_text [] (path_join dir ''wireshark.log'') (host s)) = Inl e"
  shows "fst (launch_wireshark ev dir h s) = Inl (UnboundLocalError ''proc'')"
proof -
  have "is_Exception e"
    using throws_write assms(2) by (auto simp: throws_def)
  then show ?thesis
    using assms
    by (auto simp: launch_wireshark_def Let_def prog_simps open_for_log_def on_host_def split: prod.splits)
qed

theorem launch_wireshark_unbound_witness:
  "fst (launch_wireshark quiet_env ''/none'' demo_handle (sniffer_host [])) = Inl (UnboundLocalError ''proc'')"
proof -
  have "\<not> path_exists (host (sniffer_host [])) (path_join ''/none'' ''wireshark.log'')"
    "fst (write_text [] (path_join ''/none'' ''wireshark.log'') (host (sniffer_host []))) = Inl FileNotFoundError"
    by (simp_all add: write_text_def write_with_def sniffer_host_def at_def max_links_def numeral_eq_Suc
        parent_ok_def dirname_def isdir_def stat_def Let_def path_exists_def path_join_def suffix_def)
  then show ?thesis by (rule launch_wireshark_unbound)
qed

section \<open>Stopping: properties\<close>

text \<open>What the teardown of the sniffer is to leave.\<close>

lemma throws_stop_wireshark: "calls_work ev \<Longrightarrow> throws E (stop_wireshark ev)"
proof -
  assume c: "calls_work ev"
  then have "tame ev" by (simp add: calls_work_def)
  note tame = throws_tame [OF this]
  have "throws is_Exception (seqE (signal_group ev Wireshark n) (wait ev Wireshark))" for n
    by (intro raising tame)
  then have kill: "throws is_Exception (if pgid then seqE (signal_group ev Wireshark n) (wait ev Wireshark) else raise e)"
    if "is_Exception e" for pgid n e
    using that by (auto intro: throws_raise)
  show ?thesis
    unfolding stop_wireshark_def
    by (intro raising throws_calls [OF c] throws_tryE [where E = is_Exception] throws_ignoring kill tame)
      (simp_all add: is_Exception_def)
qed

lemma throws_settle: "calls_work ev \<Longrightarrow> throws E (settle_pcap ev p)"
  unfolding settle_pcap_def by (auto intro!: raising throws_calls)

lemma throws_signal_sniffer: "calls_work ev \<Longrightarrow> throws E (signal_sniffer ev n)"
  unfolding signal_sniffer_def
  by (rule throws_tryE [where E = is_Exception])
    (auto simp: calls_work_def intro!: throws_tame(5) throws_calls(2))

lemma throws_await: "calls_work ev \<Longrightarrow> throws E (await_exit n ev)"
  by (induction n) (auto intro!: raising throws_calls)

lemma throws_stop_sniffer: "calls_work ev \<Longrightarrow> throws E (stop_sniffer ev)"
  unfolding stop_sniffer_def
  by (intro raising throws_calls throws_signal_sniffer throws_await) simp_all

lemma await_exit_gone: "await_exit n ev s = (Inr True, s') \<Longrightarrow> Sniffer \<notin> running s'"
proof (induction n arbitrary: s)
  case 0
  then show ?case by (simp add: ret_def)
next
  case (Suc n)
  then show ?case
    by (auto simp: prog_simps alive_cases split: prod.splits sum.splits if_splits)
qed

lemma stop_sniffer_gone:
  assumes c: "calls_work ev"
  shows "leaves (\<lambda>s. Sniffer \<notin> running s) (stop_sniffer ev)"
proof (rule leavesI)
  fix s
  obtain up s1 where s1: "alive ev Sniffer s = (Inr up, s1)"
    using throws_returns [OF throws_calls(1) [OF c]] by fastforce
  have up: "bindE (alive ev Sniffer) f s = f up s1" for f :: "bool \<Rightarrow> (agent, unit) prog"
    by (simp add: bindE_Inr [where m = "alive ev Sniffer", OF s1])
  show "Sniffer \<notin> running (snd (stop_sniffer ev s))"
  proof (cases up)
    case False
    then show ?thesis
      using alive_cases(3) [OF s1] by (simp add: stop_sniffer_def up whenE_def ret_def)
  next
    case True
    obtain u s2 where s2: "signal_sniffer ev 2 s1 = (Inr u, s2)"
      using throws_returns [OF throws_signal_sniffer [OF c]] by fastforce
    obtain b s3 where s3: "await_exit 40 ev s2 = (Inr b, s3)"
      using throws_returns [OF throws_await [OF c]] by fastforce
    have "leaves (\<lambda>s. Sniffer \<notin> running s) (seqE (signal_sniffer ev 9) (wait ev Sniffer))"
      unfolding wait_def using throws_calls(7) [OF c]
      by (intro leaves_after throws_signal_sniffer [OF c] leaves_gone)
        (use c in \<open>auto simp: calls_work_def intro: throws_works\<close>)
    then have "Sniffer \<notin> running (snd (whenE (\<not> b) (seqE (signal_sniffer ev 9) (wait ev Sniffer)) s3))"
      using await_exit_gone [of 40 ev s2 s3] s3
      by (cases b) (auto simp: whenE_def ret_def leaves_def)
    then show ?thesis
      using True s2 s3 unfolding stop_sniffer_def up
      by (simp add: whenE_def bindE_Inr [where m = "signal_sniffer ev 2"] bindE_Inr [where m = "await_exit 40 ev"]
          del: await_exit.simps)
  qed
qed

text \<open>\<open>shrinks P\<close>: the predicate minds neither a process that goes nor a log that is closed.\<close>

definition shrinks :: "(proc set \<times> logfile set \<Rightarrow> bool) \<Rightarrow> bool" where
  "shrinks P \<longleftrightarrow> (\<forall>R L p f. P (R, L) \<longrightarrow> P (R - {p}, L) \<and> P (R, L - {f}))"

lemma shrinks_simps: "shrinks (\<lambda>(R, L). p \<notin> R)" "shrinks (\<lambda>(R, L). f \<notin> L)"
  by (simp_all add: shrinks_def)

lemma keeps_shrinking:
  assumes "shrinks P"
  shows "keeps (\<lambda>s. P (state_of s)) (alive ev p)" "keeps (\<lambda>s. P (state_of s)) (wait ev p)"
    "keeps (\<lambda>s. P (state_of s)) (terminate ev p)" "keeps (\<lambda>s. P (state_of s)) (expect_eof ev p)"
    "keeps (\<lambda>s. P (state_of s)) (close_log f)"
  using assms by (auto simp: shrinks_def intro!: keeps_leave keeps_close)

lemma keeps_await: "shrinks P \<Longrightarrow> keeps (\<lambda>s. P (state_of s)) (await_exit n ev)"
  by (induction n) (auto intro!: keeps_ret keeps_bindE keeps_if keeps_seqE keeps_pause keeps_shrinking)

lemma keeps_stop_parts:
  assumes "shrinks P"
  shows "keeps (\<lambda>s. P (state_of s)) (stop_wireshark ev)" "keeps (\<lambda>s. P (state_of s)) (stop_sniffer ev)"
    "keeps (\<lambda>s. P (state_of s)) (settle_pcap ev path)"
  unfolding stop_wireshark_def stop_sniffer_def settle_pcap_def signal_sniffer_def
  by (auto intro!: keeps_bindE keeps_ret keeps_whenE keeps_tryE keeps_if keeps_seqE keeps_act keeps_signal
      keeps_perform keeps_getE keeps_raise keeps_ignoring keeps_await keeps_shrinking assms)

lemma keeps_clean: "keeps (\<lambda>s. P (state_of s)) (clean_swap_files ev)"
  unfolding clean_swap_files_def remove_swap_file_def Let_def case_prod_unfold by (intro preserve)

lemma throws_clean: "tame ev \<Longrightarrow> throws E (clean_swap_files ev)"
  unfolding clean_swap_files_def remove_swap_file_def Let_def case_prod_unfold tame_def
  by (intro raising throws_ignoring throws_perform throws_on_host throws_remove) auto

lemma keeps_stop:
  assumes "shrinks P"
  shows "keeps (\<lambda>s. P (state_of s)) (stop_vfio_user_pkt_sniffer ev h)"
  unfolding stop_vfio_user_pkt_sniffer_def
  by (rule keeps_seqs)
    (auto intro!: keeps_whenE keeps_finallyE keeps_tryE keeps_tell keeps_seqE keeps_ret keeps_clean
      keeps_stop_parts keeps_shrinking assms)

lemma throws_stop: "calls_work ev \<Longrightarrow> throws E (stop_vfio_user_pkt_sniffer ev h)"
  unfolding stop_vfio_user_pkt_sniffer_def
  by (rule throws_seqs)
    (auto intro!: throws_whenE throws_stop_wireshark throws_finallyE throws_tryE [where E = "\<lambda>_. False"]
      throws_stop_sniffer throws_seqE throws_ret throws_close throws_settle throws_clean
      simp: calls_work_def)


lemma quiet_calls: "calls_work quiet_env"
  by (simp add: calls_work_def tame_def works_def quiet_env_def)


end
