(* ===== verification/Guest_Tests.thy ===== *)
theory Guest_Tests
  imports Agent_World
begin

text \<open>
  The agent's dialogue with the guest (\<open>run_pcie_agent.py\<close>, lines 331 to 621): logging in and choosing a
  profile, and the four tests. A script writes lines to the guest's terminal and waits for patterns;
  everything the guest does is the environment's. The locale \<open>expect_script\<close> states what the login and
  the tests have in common, and what follows for a run of several of them.
\<close>

section \<open>Profiles\<close>

text \<open>The dictionaries of the profiles have these six keys and no other.\<close>

record profile =
  username :: string
  password :: string
  prompt :: string
  sudo_prefix :: string
  dump_cmd :: string
  interrupt_parse :: string

definition awk_sum :: string where
  "awk_sum = raw ''awk `{sum=0; for(i=2; i<=NF; i++) if($i ~ /^[0-9]+$/) sum+=$i; print sum}`''"

definition awk_second :: string where
  "awk_second = raw ''awk `{print $2}`''"

definition hexdump_words :: string where
  "hexdump_words = raw ''hexdump -e `1/4 \"%08x!n\"`''"

definition ubuntu_profile :: profile where
  "ubuntu_profile =
     \<lparr>username = ''ubuntu'', password = ''ubuntu'', prompt = raw ''root@pcie-cosim:.*#!s*$'',
      sudo_prefix = [], dump_cmd = ''od -t x4'', interrupt_parse = awk_sum\<rparr>"

definition cirros_profile :: profile where
  "cirros_profile =
     \<lparr>username = ''cirros'', password = ''gocubsgo'', prompt = raw ''(!$|#)!s*$'',
      sudo_prefix = ''sudo '', dump_cmd = hexdump_words, interrupt_parse = awk_second\<rparr>"

definition fedora_profile :: profile where
  "fedora_profile =
     \<lparr>username = ''root'', password = ''fedora'', prompt = raw ''![root@.*!]#!s*$'',
      sudo_prefix = [], dump_cmd = ''od -t x4'', interrupt_parse = awk_sum\<rparr>"

definition fallback_profile :: profile where
  "fallback_profile =
     \<lparr>username = ''root'', password = [], prompt = raw ''#!s*$'',
      sudo_prefix = [], dump_cmd = hexdump_words, interrupt_parse = awk_second\<rparr>"

section \<open>Login\<close>

definition login_banners :: "string list" where
  "login_banners =
     [raw ''Fedora.*pcie-cosim login:!s*$'',
      raw ''Ubuntu.*pcie-cosim login:!s*$'',
      raw ''!$!s*$'',
      raw ''cirros login:!s*$'',
      raw ''[!r!n]+![root@.*!]#!s*$'',
      raw ''pcie-cosim login:!s*$'']"

text \<open>The branch for manual login is switched off in the source.\<close>

definition login_ubuntu :: "env \<Rightarrow> (agent, unit) prog" where
  "login_ubuntu ev =
     seqs [pause ev 1000, sendline ev ''ubuntu'',
           expect ev ''Password:'' 10, pause ev 500, sendline ev ''ubuntu'',
           expect ev (raw ''!$!s*$'') 20,
           sendline ev ''sudo -i'',
           expect ev (prompt ubuntu_profile) 15]"

definition login_cirros :: "env \<Rightarrow> nat \<Rightarrow> (agent, unit) prog" where
  "login_cirros ev index =
     (if index = 3 then
        seqs [pause ev 500, sendline ev (username cirros_profile),
              expect ev ''Password:'' 5, pause ev 200, sendline ev (password cirros_profile),
              expect ev (prompt cirros_profile) 10,
              sendline ev ''sudo -i'',
              expect ev (raw ''#!s*$'') 5]
      else if index = 2 then
        seqs [sendline ev ''sudo -i'', expect ev (raw ''#!s*$'') 5]
      else ret ())"

definition login_fedora :: "env \<Rightarrow> (agent, unit) prog" where
  "login_fedora ev =
     seqs [pause ev 1000, sendline ev ''root'',
           expect ev ''Password:'' 10, pause ev 500, sendline ev (password fedora_profile),
           expect ev (prompt fedora_profile) 15]"

text \<open>The branch that is taken behind the banner.\<close>

definition login_as :: "env \<Rightarrow> string \<Rightarrow> nat \<Rightarrow> (agent, profile) prog" where
  "login_as ev distro index =
     (if index \<in> {1, 5} \<and> distro = ''ubuntu'' then
        bindE (login_ubuntu ev) (\<lambda>_. ret ubuntu_profile)
      else if index \<in> {2, 3} \<and> distro = ''cirros'' then
        bindE (login_cirros ev index) (\<lambda>_. ret cirros_profile)
      else if index \<in> {0, 4, 5} \<and> distro = ''fedora'' then
        bindE (login_fedora ev) (\<lambda>_. ret fedora_profile)
      else ret fallback_profile)"

definition detect_and_initialize_guest_os_profile :: "string \<Rightarrow> env \<Rightarrow> (agent, profile) prog" where
  "detect_and_initialize_guest_os_profile distro ev = bindE (expect_any ev login_banners None) (login_as ev distro)"

section \<open>The tests\<close>

definition resource0 :: string where
  "resource0 = ''/sys/bus/pci/devices/0000:01:00.0/resource0''"

definition config :: string where
  "config = ''/sys/bus/pci/devices/0000:01:00.0/config''"

text \<open>\<open>echo -ne 'payload' | [sudo] dd of=...\<close>.\<close>

definition poke :: "profile \<Rightarrow> string \<Rightarrow> string \<Rightarrow> string" where
  "poke p payload dd_args =
     raw ''echo -ne `'' @ payload @ raw ''` | '' @ sudo_prefix p @ ''dd of='' @ dd_args"

definition uses_hexdump :: "profile \<Rightarrow> bool" where
  "uses_hexdump p = contains ''hexdump'' (dump_cmd p)"

definition peek :: "profile \<Rightarrow> string \<Rightarrow> string" where
  "peek p args = sudo_prefix p @ dump_cmd p @ '' '' @ args"

definition burst_data :: string where
  "burst_data = raw ''!x10!x20!x30!x40!x50!x60!x70!x80!x90!xa0!xb0!xc0!xd0!xe0!xf0!xff''"

definition run_test_1_burst_verification :: "env \<Rightarrow> profile \<Rightarrow> (agent, bool) prog" where
  "run_test_1_burst_verification ev p =
     seqE (seqs
       [sendline ev [], expect ev (prompt p) 5,
        sendline ev (poke p burst_data (resource0 @ '' bs=4 count=4'')), expect ev (prompt p) 5,
        (if uses_hexdump p then
           seqs [sendline ev (peek p (resource0 @ '' -n 16'')), expect ev ''40302010'' 10]
         else
           seqs [sendline ev (peek p (resource0 @ '' -N 4'')), expect ev ''0000000 40302010'' 10]),
        expect ev (prompt p) 5,
        tell ''[TEST 1] PASS''])
     (ret True)"

definition cafebabe :: string where
  "cafebabe = raw ''!xCA!xFE!xBA!xBE''"

definition run_test_2_boundary_validation :: "env \<Rightarrow> profile \<Rightarrow> (agent, bool) prog" where
  "run_test_2_boundary_validation ev p =
     seqE (seqs
       [sendline ev [], expect ev (prompt p) 5,
        sendline ev (poke p cafebabe (resource0 @ '' bs=4 seek=512 count=1'')), expect ev (prompt p) 5,
        (if uses_hexdump p then
           seqs [sendline ev (peek p (resource0 @ '' -s 2048 -n 4'')), expect ev ''bebafeca'' 10]
         else
           seqs [sendline ev (peek p (resource0 @ '' -j 2048 -N 4'')), expect ev ''0004000 bebafeca'' 10]),
        expect ev (prompt p) 5,
        tell ''[TEST 2] PASS''])
     (ret True)"

definition run_test_3_bar_isolation :: "env \<Rightarrow> profile \<Rightarrow> (agent, bool) prog" where
  "run_test_3_bar_isolation ev p =
     seqE (seqs
       [sendline ev [], expect ev (prompt p) 5,
        sendline ev (poke p cafebabe (resource0 @ '' bs=4 count=1 conv=notrunc'')), expect ev (prompt p) 5,
        sendline ev (poke p (raw ''!x00!x60!x77!x88'') (config @ '' bs=4 seek=5 count=1 conv=notrunc'')),
        expect ev (prompt p) 5,
        (if uses_hexdump p then
           sendline ev (sudo_prefix p @ hexdump_words @ '' '' @ config @ raw '' | grep -E `88776000`'')
         else
           seqs [sendline ev (sudo_prefix p @ ''od -t x4 '' @ config @ '' -j 20 -N 4''),
                 expect ev ''0000024 88776000'' 10]),
        expect ev (prompt p) 5,
        (if uses_hexdump p then
           seqs [sendline ev (peek p (resource0 @ '' -n 4'')), expect ev ''bebafeca'' 10]
         else
           seqs [sendline ev (peek p (resource0 @ '' -N 4'')), expect ev ''0000000 bebafeca'' 10]),
        expect ev (prompt p) 5,
        tell ''[TEST 3] PASS''])
     (ret True)"

text \<open>
  The count of interrupts: the first line of the output that is a number, 0 when there is none.
\<close>

fun first_number :: "string list \<Rightarrow> nat" where
  "first_number [] = 0"
| "first_number (line # lines) =
     (let clean_line = strip line
      in if str_isdigit clean_line then int_of_digits clean_line else first_number lines)"

definition irq_count :: "string \<Rightarrow> nat" where
  "irq_count output = first_number (splitlines output)"

definition drain :: "env \<Rightarrow> (agent, unit) prog" where
  "drain ev = ignoring (act ev Read_Nonblocking)"

definition count_interrupts :: "env \<Rightarrow> profile \<Rightarrow> (agent, nat) prog" where
  "count_interrupts ev p =
     bindE (seqs
       [sendline ev ''stty -echo'', expect ev (prompt p) 5,
        sendline ev (raw ''cat /proc/interrupts | grep -i `pci-endpoint-test` | '' @ interrupt_parse p),
        expect ev (prompt p) 5]) (\<lambda>_.
     bindE (getE (\<lambda>s. irq_count (before s))) (\<lambda>n.
     bindE (seqs [sendline ev ''stty echo'', expect ev (prompt p) 5]) (\<lambda>_.
     ret n)))"

text \<open>Test 4 once the device is bound: enable it, count, trigger the interrupt, count again.\<close>

definition measure_interrupts :: "env \<Rightarrow> profile \<Rightarrow> (agent, bool) prog" where
  "measure_interrupts ev p =
     bindE (seqs
       [sendline ev (poke p (raw ''!x07!x01'') (config @ '' bs=2 seek=2 count=1 conv=notrunc'')),
        expect ev (prompt p) 5,
        drain ev]) (\<lambda>_.
     bindE (count_interrupts ev p) (\<lambda>baseline_val.
     bindE (seqs
       [sendline ev (poke p (raw ''!xBE!xBA!xDC!xAC'') (resource0 @ '' bs=4 count=1 conv=notrunc'')),
        expect ev (prompt p) 5,
        pause ev 200,
        drain ev]) (\<lambda>_.
     bindE (count_interrupts ev p) (\<lambda>post_val.
       if post_val > baseline_val
       then bindE (tell ''[TEST 4] PASS'') (\<lambda>_. ret True)
       else bindE (tell ''[TEST 4] FAIL'') (\<lambda>_. ret False)))))"

definition bind_device :: "env \<Rightarrow> profile \<Rightarrow> (agent, unit) prog" where
  "bind_device ev p =
     seqs
       [sendline ev (raw ''echo `0000:01:00.0` > /sys/bus/pci/devices/0000:01:00.0/driver/unbind 2>/dev/null || true''),
        expect ev (prompt p) 5,
        sendline ev (raw ''echo `0000:01:00.0` > /sys/bus/pci/drivers/pci-endpoint-test/bind''),
        expect ev (prompt p) 5,
        sendline ev ''ls -l /sys/bus/pci/drivers/pci-endpoint-test/'',
        expect ev (prompt p) 5]"

definition run_test_4_irq_verification :: "env \<Rightarrow> profile \<Rightarrow> (agent, bool) prog" where
  "run_test_4_irq_verification ev p =
     bindE (bind_device ev p) (\<lambda>_.
     bindE (getE (\<lambda>s. contains ''0000:01:00.0'' (before s))) (\<lambda>bound.
     if \<not> bound then
       bindE (tell ''[TEST 4] Fatal: Device 0000:01:00.0 failed to bind'') (\<lambda>_. ret False)
     else measure_interrupts ev p))"

section \<open>Dialogues\<close>

text \<open>
  A dialogue performs operations and nothing else: files, processes and open logs stay as they are, the
  operations of before stay in place, and every exception is one an operation has raised.
\<close>

definition talked :: "env \<Rightarrow> agent \<Rightarrow> exn + 'a \<Rightarrow> agent \<Rightarrow> bool" where
  "talked ev s r s' \<longleftrightarrow>
     prefix (ops s) (ops s') \<and> host s' = host s \<and> running s' = running s \<and>
     open_files s' = open_files s \<and> (\<forall>e. r = Inl e \<longrightarrow> (\<exists>h c. ev h c = Fails e))"

definition dialogue :: "env \<Rightarrow> (agent, 'a) prog \<Rightarrow> bool" where
  "dialogue ev m \<longleftrightarrow> (\<forall>s. talked ev s (fst (m s)) (snd (m s)))"

named_theorems talk "dialogues"

lemma dialogueD: "dialogue ev m \<Longrightarrow> m s = (r, s') \<Longrightarrow> talked ev s r s'"
  unfolding dialogue_def by (metis fst_conv snd_conv)

lemma talked_trans: "talked ev s (Inr x) s1 \<Longrightarrow> talked ev s1 r s2 \<Longrightarrow> talked ev s r s2"
  by (auto simp: talked_def intro: prefix_order.order_trans)

lemma talked_Inr: "talked ev s r s' \<Longrightarrow> talked ev s (Inr x) s'"
  by (simp add: talked_def)

lemma talked_Inl: "talked ev s (Inl e :: exn + 'a) s' \<Longrightarrow> talked ev s (Inl e :: exn + 'b) s'"
  by (simp add: talked_def)

lemma dialogue_ret [talk]: "dialogue ev (ret x)"
  by (simp add: dialogue_def talked_def ret_def)

lemma dialogue_getE [talk]: "dialogue ev (getE f)"
  by (simp add: dialogue_def talked_def getE_def)

lemma dialogue_bindE [talk]:
  assumes m: "dialogue ev m" and f: "\<And>x. dialogue ev (f x)"
  shows "dialogue ev (bindE m f)"
  unfolding dialogue_def
proof
  fix s
  obtain r s1 where first: "m s = (r, s1)" by (cases "m s")
  note t1 = dialogueD [OF m first]
  show "talked ev s (fst (bindE m f s)) (snd (bindE m f s))"
  proof (cases r)
    case (Inl e)
    then show ?thesis using t1 first by (auto simp: bindE_def intro: talked_Inl)
  next
    case (Inr x)
    then show ?thesis
      using talked_trans [OF t1 [unfolded Inr] dialogueD [OF f surjective_pairing]] first
      by (simp add: bindE_def)
  qed
qed

lemma dialogue_seqE [talk]: "dialogue ev m \<Longrightarrow> dialogue ev n \<Longrightarrow> dialogue ev (seqE m n)"
  by (simp add: seqE_def dialogue_bindE)

lemma dialogue_seqs [talk]: "list_all (dialogue ev) ms \<Longrightarrow> dialogue ev (seqs ms)"
  by (induction ms) (simp_all add: dialogue_ret dialogue_seqE)

lemma dialogue_if [talk]: "(b \<Longrightarrow> dialogue ev m) \<Longrightarrow> (\<not> b \<Longrightarrow> dialogue ev n) \<Longrightarrow> dialogue ev (if b then m else n)"
  by simp

lemma dialogue_perform [talk]: "dialogue ev (perform ev c)"
  by (auto simp: dialogue_def talked_def perform_def Let_def split: answer.splits)

lemma dialogue_act [talk]: "dialogue ev (act ev c)"
  unfolding act_def by (intro talk)

lemma dialogue_tell [talk]: "dialogue ev (tell t)"
  by (simp add: dialogue_def talked_def tell_def modE_def)

lemma dialogue_ignoring [talk]:
  assumes "dialogue ev m"
  shows "dialogue ev (ignoring m)"
  unfolding dialogue_def
proof
  fix s
  obtain r s1 where first: "m s = (r, s1)" by (cases "m s")
  note t1 = dialogueD [OF assms first]
  show "talked ev s (fst (ignoring m s)) (snd (ignoring m s))"
    using t1 talked_Inr [OF t1] first by (cases r) (auto simp: ignoring_def tryE_def ret_def)
qed

lemma dialogue_sendline [talk]: "dialogue ev (sendline ev t)"
  unfolding sendline_def by (intro talk)

lemma dialogue_pause [talk]: "dialogue ev (pause ev ms)"
  unfolding pause_def by (intro talk)

lemma dialogue_expect_any [talk]: "dialogue ev (expect_any ev pats timeout)"
proof -
  have "dialogue ev (modE (\<lambda>s. s\<lparr>before := t\<rparr>))" for t
    by (simp add: dialogue_def talked_def modE_def)
  then show ?thesis
    unfolding expect_any_def by (auto intro!: talk split: prod.splits)
qed

lemma dialogue_expect [talk]: "dialogue ev (expect ev pat timeout)"
  unfolding expect_def by (intro talk)

lemma dialogue_drain [talk]: "dialogue ev (drain ev)"
  unfolding drain_def by (intro talk)

lemma dialogue_count [talk]: "dialogue ev (count_interrupts ev p)"
  unfolding count_interrupts_def by (intro talk) (simp_all add: talk)

text \<open>What a script of the agent promises, and what its callers get from it.\<close>

locale expect_script =
  fixes script :: "env \<Rightarrow> (agent, 'a) prog"
  assumes is_dialogue: "dialogue ev (script ev)"
begin

lemma script_talked: "talked ev s (fst (script ev s)) (snd (script ev s))"
  using is_dialogue by (simp add: dialogue_def)

lemma script_frame:
  "host (snd (script ev s)) = host s" "running (snd (script ev s)) = running s"
  "open_files (snd (script ev s)) = open_files s"
  using script_talked by (simp_all add: talked_def)

lemma script_grows: "\<exists>c. ops (snd (script ev s)) = ops s @ c"
  using script_talked by (simp add: talked_def prefix_def)

lemma script_raises: "fst (script ev s) = Inl e \<Longrightarrow> \<exists>h c. ev h c = Fails e"
  using script_talked [of ev s] by (simp add: talked_def)

lemma script_total: "answers_all ev \<Longrightarrow> \<exists>x. fst (script ev s) = Inr x"
  using script_raises [of ev s] by (cases "fst (script ev s)") (auto simp: answers_all_def)

lemma script_errors: "pexpect_errors ev \<Longrightarrow> fst (script ev s) = Inl e \<Longrightarrow> e \<in> {TIMEOUT, EOF, OSError}"
  using script_raises [of ev s e] unfolding pexpect_errors_def by blast

lemma script_exceptions: "tame ev \<Longrightarrow> throws is_Exception (script ev)"
  using script_raises unfolding tame_def throws_def by blast

lemma script_keeps: "keeps (\<lambda>s. P (state_of s)) (script ev)"
  by (simp add: keeps_def state_of_def script_frame)

end

lemma dialogue_login: "dialogue ev (login_ubuntu ev)" "dialogue ev (login_cirros ev i)" "dialogue ev (login_fedora ev)"
  unfolding login_ubuntu_def login_cirros_def login_fedora_def
  by (auto intro!: dialogue_seqs simp: talk)

interpretation login: expect_script "detect_and_initialize_guest_os_profile distro"
  by unfold_locales
    (simp add: detect_and_initialize_guest_os_profile_def login_as_def dialogue_bindE dialogue_expect_any dialogue_ret
      dialogue_login)

interpretation test_1: expect_script "\<lambda>ev. run_test_1_burst_verification ev p"
  by unfold_locales (simp add: run_test_1_burst_verification_def talk)

interpretation test_2: expect_script "\<lambda>ev. run_test_2_boundary_validation ev p"
  by unfold_locales (simp add: run_test_2_boundary_validation_def talk)

interpretation test_3: expect_script "\<lambda>ev. run_test_3_bar_isolation ev p"
  by unfold_locales (simp add: run_test_3_bar_isolation_def talk)

interpretation test_4: expect_script "\<lambda>ev. run_test_4_irq_verification ev p"
  by unfold_locales (auto simp: run_test_4_irq_verification_def bind_device_def measure_interrupts_def intro!: talk)

section \<open>Scripts as lists of operations\<close>

text \<open>
  \<open>plays ev cs x m\<close>: \<open>m\<close> performs exactly the operations \<open>cs\<close>, one after the other, and returns \<open>x\<close> when
  each of them is answered; it raises at the first that is not. (Draining the terminal is never missed.)
  \<open>held\<close> is the text pexpect has in \<open>before\<close> after the operations.
\<close>

definition answers :: "env \<Rightarrow> op list \<Rightarrow> op \<Rightarrow> bool" where
  "answers ev h c =
     (case ev h c of Answer _ _ \<Rightarrow> True | Fails e \<Rightarrow> c = Read_Nonblocking \<and> is_Exception e)"

definition text_of :: "env \<Rightarrow> op list \<Rightarrow> op \<Rightarrow> string" where
  "text_of ev h c = (case ev h c of Answer _ t \<Rightarrow> t | Fails _ \<Rightarrow> [])"

fun answered :: "env \<Rightarrow> op list \<Rightarrow> op list \<Rightarrow> bool" where
  "answered ev h [] = True"
| "answered ev h (c # cs) = (answers ev h c \<and> answered ev (h @ [c]) cs)"

fun held :: "env \<Rightarrow> op list \<Rightarrow> op list \<Rightarrow> string \<Rightarrow> string" where
  "held ev h [] b = b"
| "held ev h (c # cs) b =
     held ev (h @ [c]) cs (case c of Expect _ _ \<Rightarrow> text_of ev h c | _ \<Rightarrow> b)"

lemma answered_append: "answered ev h (cs @ ds) \<longleftrightarrow> answered ev h cs \<and> answered ev (h @ cs) ds"
  by (induction cs arbitrary: h) auto

lemma held_append: "held ev h (cs @ ds) b = held ev (h @ cs) ds (held ev h cs b)"
  by (induction cs arbitrary: h b) auto

definition plays :: "env \<Rightarrow> op list \<Rightarrow> 'a \<Rightarrow> (agent, 'a) prog \<Rightarrow> bool" where
  "plays ev cs x m \<longleftrightarrow>
     (\<forall>s. if answered ev (ops s) cs
       then fst (m s) = Inr x \<and> ops (snd (m s)) = ops s @ cs \<and>
         before (snd (m s)) = held ev (ops s) cs (before s)
       else \<exists>e. fst (m s) = Inl e)"

named_theorems play "scripts as lists of operations"

lemma plays_yes:
  assumes "plays ev cs x m" and "answered ev (ops s) cs"
  obtains s' where "m s = (Inr x, s')" "ops s' = ops s @ cs" "before s' = held ev (ops s) cs (before s)"
  using assms unfolding plays_def by (metis prod.collapse)

lemma plays_no:
  assumes "plays ev cs x m" and "\<not> answered ev (ops s) cs"
  obtains e s' where "m s = (Inl e, s')"
  using assms unfolding plays_def by (metis prod.collapse)

lemma plays_ret [play]: "plays ev [] x (ret x)"
  by (simp add: plays_def ret_def)

lemma plays_bindE:
  assumes m: "plays ev cs x m" and f: "plays ev ds y (f x)"
  shows "plays ev (cs @ ds) y (bindE m f)"
  unfolding plays_def
proof
  fix s
  show "if answered ev (ops s) (cs @ ds)
       then fst (bindE m f s) = Inr y \<and> ops (snd (bindE m f s)) = ops s @ (cs @ ds) \<and>
         before (snd (bindE m f s)) = held ev (ops s) (cs @ ds) (before s)
       else \<exists>e. fst (bindE m f s) = Inl e"
  proof (cases "answered ev (ops s) cs")
    case True
    obtain s1 where s1: "m s = (Inr x, s1)" "ops s1 = ops s @ cs" "before s1 = held ev (ops s) cs (before s)"
      by (rule plays_yes [OF m True])
    then show ?thesis
      using f True unfolding plays_def
      by (auto simp: bindE_Inr answered_append held_append dest: spec [of _ s1])
  next
    case False
    then obtain e s1 where "m s = (Inl e, s1)" by (rule plays_no [OF m])
    then show ?thesis using False by (simp add: bindE_Inl answered_append)
  qed
qed

lemma plays_seqE [play]: "plays ev cs x m \<Longrightarrow> plays ev ds y n \<Longrightarrow> plays ev (cs @ ds) y (seqE m n)"
  unfolding seqE_def by (rule plays_bindE)

text \<open>A block of statements: one list of operations per statement.\<close>

lemma plays_seqs:
  "list_all2 (\<lambda>cs m. plays ev cs () m) css ms \<Longrightarrow> plays ev (concat css) () (seqs ms)"
  by (induction rule: list_all2_induct) (simp_all add: plays_ret plays_seqE)

lemma plays_block:
  "list_all2 (\<lambda>cs m. plays ev cs () m) css ms \<Longrightarrow> cs = concat css \<Longrightarrow> plays ev cs () (seqs ms)"
  by (simp add: plays_seqs)

lemma plays_act: "c \<noteq> Read_Nonblocking \<Longrightarrow> (\<And>p t. c \<noteq> Expect p t) \<Longrightarrow> plays ev [c] () (act ev c)"
  by (auto simp: plays_def act_def perform_def prog_simps answers_def Let_def
      split: answer.splits op.splits)

lemma plays_sendline [play]: "plays ev [Sendline t] () (sendline ev t)"
  unfolding sendline_def by (rule plays_act) simp_all

lemma plays_pause [play]: "plays ev [Pause n] () (pause ev n)"
  unfolding pause_def by (rule plays_act) simp_all

lemma plays_tell [play]: "plays ev [] () (tell t)"
  by (simp add: plays_def tell_def modE_def)

lemma plays_expect [play]: "plays ev [Expect [pat] (Some n)] () (expect ev pat n)"
  by (auto simp: plays_def expect_def expect_any_def perform_def prog_simps answers_def text_of_def Let_def
      split: answer.splits)

lemma plays_drain [play]: "plays ev [Read_Nonblocking] () (drain ev)"
  by (auto simp: plays_def drain_def ignoring_def act_def perform_def prog_simps answers_def Let_def
      split: answer.splits)

lemma plays_if [play]:
  "(b \<Longrightarrow> plays ev cs x m) \<Longrightarrow> (\<not> b \<Longrightarrow> plays ev ds x n) \<Longrightarrow>
   plays ev (if b then cs else ds) x (if b then m else n)"
  by simp

section \<open>The tests as dialogues\<close>

text \<open>A command: the line, and the wait for the prompt. A check: the line, and the wait for its output.\<close>

definition command :: "profile \<Rightarrow> string \<Rightarrow> op list" where
  "command p line = [Sendline line, Expect [prompt p] (Some 5)]"

definition check :: "profile \<Rightarrow> string \<Rightarrow> string \<Rightarrow> op list" where
  "check p line output = [Sendline line, Expect [output] (Some 10), Expect [prompt p] (Some 5)]"

definition test_1_dialogue :: "profile \<Rightarrow> op list" where
  "test_1_dialogue p =
     command p [] @ command p (poke p burst_data (resource0 @ '' bs=4 count=4'')) @
     (if uses_hexdump p then check p (peek p (resource0 @ '' -n 16'')) ''40302010''
      else check p (peek p (resource0 @ '' -N 4'')) ''0000000 40302010'')"

definition test_2_dialogue :: "profile \<Rightarrow> op list" where
  "test_2_dialogue p =
     command p [] @ command p (poke p cafebabe (resource0 @ '' bs=4 seek=512 count=1'')) @
     (if uses_hexdump p then check p (peek p (resource0 @ '' -s 2048 -n 4'')) ''bebafeca''
      else check p (peek p (resource0 @ '' -j 2048 -N 4'')) ''0004000 bebafeca'')"

definition test_3_dialogue :: "profile \<Rightarrow> op list" where
  "test_3_dialogue p =
     command p [] @ command p (poke p cafebabe (resource0 @ '' bs=4 count=1 conv=notrunc'')) @
     command p (poke p (raw ''!x00!x60!x77!x88'') (config @ '' bs=4 seek=5 count=1 conv=notrunc'')) @
     (if uses_hexdump p
      then command p (sudo_prefix p @ hexdump_words @ '' '' @ config @ raw '' | grep -E `88776000`'') @
        check p (peek p (resource0 @ '' -n 4'')) ''bebafeca''
      else check p (sudo_prefix p @ ''od -t x4 '' @ config @ '' -j 20 -N 4'') ''0000024 88776000'' @
        check p (peek p (resource0 @ '' -N 4'')) ''0000000 bebafeca'')"

lemma plays_two [play]:
  "plays ev [c] () m \<Longrightarrow> plays ev [d] () n \<Longrightarrow> plays ev [c, d] () (seqs [m, n])"
  by (rule plays_block [where css = "[[c], [d]]"]) simp_all

text \<open>A test whose statements follow a dialogue returns true at its end.\<close>

lemma plays_verdict:
  "list_all2 (\<lambda>cs m. plays ev cs () m) css ms \<Longrightarrow> cs = concat css \<Longrightarrow> plays ev cs x (seqE (seqs ms) (ret x))"
  using plays_seqE [OF plays_seqs plays_ret] by fastforce

lemmas dialogue_defs = test_1_dialogue_def test_2_dialogue_def test_3_dialogue_def command_def check_def

lemma plays_test_1: "plays ev (test_1_dialogue p) True (run_test_1_burst_verification ev p)"
  unfolding run_test_1_burst_verification_def
  by (rule plays_verdict [where css =
        "[_, _, _, _, (if uses_hexdump p then [_, _] else [_, _]), _, []]"])
    (auto simp: dialogue_defs simp del: seqs.simps intro!: play)

lemma plays_test_2: "plays ev (test_2_dialogue p) True (run_test_2_boundary_validation ev p)"
  unfolding run_test_2_boundary_validation_def
  by (rule plays_verdict [where css =
        "[_, _, _, _, (if uses_hexdump p then [_, _] else [_, _]), _, []]"])
    (auto simp: dialogue_defs simp del: seqs.simps intro!: play)

lemma plays_test_3: "plays ev (test_3_dialogue p) True (run_test_3_bar_isolation ev p)"
  unfolding run_test_3_bar_isolation_def
  by (rule plays_verdict [where css =
        "[_, _, _, _, _, _, (if uses_hexdump p then [_] else [_, _]), _, (if uses_hexdump p then [_, _] else [_, _]), _, []]"])
    (auto simp: dialogue_defs simp del: seqs.simps intro!: play)

text \<open>The parts of test 4, and the point where it looks at the list of bound devices.\<close>

definition bind_dialogue :: "profile \<Rightarrow> op list" where
  "bind_dialogue p =
     command p (raw ''echo `0000:01:00.0` > /sys/bus/pci/devices/0000:01:00.0/driver/unbind 2>/dev/null || true'') @
     command p (raw ''echo `0000:01:00.0` > /sys/bus/pci/drivers/pci-endpoint-test/bind'') @
     command p ''ls -l /sys/bus/pci/drivers/pci-endpoint-test/''"

definition enable_dialogue :: "profile \<Rightarrow> op list" where
  "enable_dialogue p =
     command p (poke p (raw ''!x07!x01'') (config @ '' bs=2 seek=2 count=1 conv=notrunc'')) @ [Read_Nonblocking]"

definition trigger_dialogue :: "profile \<Rightarrow> op list" where
  "trigger_dialogue p =
     command p (poke p (raw ''!xBE!xBA!xDC!xAC'') (resource0 @ '' bs=4 count=1 conv=notrunc'')) @
     [Pause 200, Read_Nonblocking]"

definition count_dialogue :: "profile \<Rightarrow> op list" where
  "count_dialogue p =
     command p ''stty -echo'' @
     command p (raw ''cat /proc/interrupts | grep -i `pci-endpoint-test` | '' @ interrupt_parse p)"

definition echo_dialogue :: "profile \<Rightarrow> op list" where
  "echo_dialogue p = command p ''stty echo''"

lemmas irq_dialogue_defs = bind_dialogue_def enable_dialogue_def trigger_dialogue_def count_dialogue_def
  echo_dialogue_def command_def

text \<open>The text before the last prompt of a list of commands.\<close>

definition output_of :: "env \<Rightarrow> op list \<Rightarrow> op list \<Rightarrow> string" where
  "output_of ev h cs = text_of ev (h @ butlast cs) (last cs)"

lemma held_command: "held ev h (cs @ command p line) b = output_of ev h (cs @ command p line)"
  by (simp add: held_append command_def output_of_def butlast_append)

text \<open>
  \<open>yields ev cs r m\<close>: as \<open>plays\<close>, for a program that returns what it has read; \<open>r\<close> gives the value from
  the operations performed before.
\<close>

definition yields :: "env \<Rightarrow> op list \<Rightarrow> (op list \<Rightarrow> 'a) \<Rightarrow> (agent, 'a) prog \<Rightarrow> bool" where
  "yields ev cs r m \<longleftrightarrow>
     (\<forall>s. if answered ev (ops s) cs
       then fst (m s) = Inr (r (ops s)) \<and> ops (snd (m s)) = ops s @ cs
       else \<exists>e. fst (m s) = Inl e)"

lemma yields_plays: "plays ev cs x m \<Longrightarrow> yields ev cs (\<lambda>_. x) m"
  by (auto simp: plays_def yields_def split: if_splits)

lemma yields_yes:
  assumes "yields ev cs r m" and "answered ev (ops s) cs"
  obtains s' where "m s = (Inr (r (ops s)), s')" "ops s' = ops s @ cs"
  using assms unfolding yields_def by (metis prod.collapse)

lemma yields_no:
  assumes "yields ev cs r m" and "\<not> answered ev (ops s) cs"
  obtains e s' where "m s = (Inl e, s')"
  using assms unfolding yields_def by (metis prod.collapse)

lemma yields_bindE:
  assumes m: "yields ev cs r m" and f: "\<And>x. yields ev ds (q x) (f x)"
  shows "yields ev (cs @ ds) (\<lambda>h. q (r h) (h @ cs)) (bindE m f)"
  unfolding yields_def
proof
  fix s
  show "if answered ev (ops s) (cs @ ds)
       then fst (bindE m f s) = Inr (q (r (ops s)) (ops s @ cs)) \<and> ops (snd (bindE m f s)) = ops s @ (cs @ ds)
       else \<exists>e. fst (bindE m f s) = Inl e"
  proof (cases "answered ev (ops s) cs")
    case True
    obtain s1 where "m s = (Inr (r (ops s)), s1)" "ops s1 = ops s @ cs"
      by (rule yields_yes [OF m True])
    then show ?thesis
      using f [unfolded yields_def, rule_format, of s1 "r (ops s)"] True
      by (auto simp: bindE_Inr answered_append)
  next
    case False
    then obtain e s1 where "m s = (Inl e, s1)" by (rule yields_no [OF m])
    then show ?thesis using False by (simp add: bindE_Inl answered_append)
  qed
qed

text \<open>Commands, then a look at what the last one printed.\<close>

lemma yields_output:
  assumes m: "plays ev cs () m" and cs: "cs = ds @ command p line"
  shows "yields ev cs (\<lambda>h. g (output_of ev h cs)) (bindE m (\<lambda>_. getE (\<lambda>s. g (before s))))"
  unfolding yields_def
proof
  fix s
  show "if answered ev (ops s) cs
       then fst (bindE m (\<lambda>_. getE (\<lambda>s. g (before s))) s) = Inr (g (output_of ev (ops s) cs)) \<and>
         ops (snd (bindE m (\<lambda>_. getE (\<lambda>s. g (before s))) s)) = ops s @ cs
       else \<exists>e. fst (bindE m (\<lambda>_. getE (\<lambda>s. g (before s))) s) = Inl e"
  proof (cases "answered ev (ops s) cs")
    case True
    obtain s1 where "m s = (Inr (), s1)" "ops s1 = ops s @ cs" "before s1 = held ev (ops s) cs (before s)"
      by (rule plays_yes [OF m True])
    then show ?thesis using True by (simp add: bindE_Inr getE_def cs held_command)
  next
    case False
    then obtain e s1 where "m s = (Inl e, s1)" by (rule plays_no [OF m])
    then show ?thesis using False by (simp add: bindE_Inl)
  qed
qed

lemma bindE_assoc: "bindE m (\<lambda>x. bindE (f x) g) = bindE (bindE m f) g"
  by (rule ext) (simp add: bindE_def split: prod.splits sum.splits)

lemma yields_count:
  "yields ev (count_dialogue p @ echo_dialogue p) (\<lambda>h. irq_count (output_of ev h (count_dialogue p)))
     (count_interrupts ev p)"
proof -
  let ?ask = "seqs [sendline ev ''stty -echo'', expect ev (prompt p) 5,
        sendline ev (raw ''cat /proc/interrupts | grep -i `pci-endpoint-test` | '' @ interrupt_parse p),
        expect ev (prompt p) 5]"
    and ?echo = "seqs [sendline ev ''stty echo'', expect ev (prompt p) 5]"
  have "plays ev (count_dialogue p) () ?ask"
    by (rule plays_block [where css = "[_, _, _, _]"]) (auto simp: irq_dialogue_defs intro!: play)
  then have ask: "yields ev (count_dialogue p) (\<lambda>h. irq_count (output_of ev h (count_dialogue p)))
      (bindE ?ask (\<lambda>_. getE (\<lambda>s. irq_count (before s))))"
    by (rule yields_output) (simp add: count_dialogue_def)
  have "plays ev (echo_dialogue p @ []) n (bindE ?echo (\<lambda>_. ret n))" for n :: nat
    by (rule plays_bindE) (auto simp: irq_dialogue_defs simp del: seqs.simps intro!: play)
  then have "yields ev (echo_dialogue p) (\<lambda>_. n) (bindE ?echo (\<lambda>_. ret n))" for n :: nat
    by (simp add: yields_plays)
  from yields_bindE [OF ask this] show ?thesis
    by (simp add: count_interrupts_def bindE_assoc)
qed

text \<open>The part of test 4 from the bus-master write on.\<close>

definition irq_dialogue :: "profile \<Rightarrow> op list" where
  "irq_dialogue p =
     enable_dialogue p @ (count_dialogue p @ echo_dialogue p) @ trigger_dialogue p @
     (count_dialogue p @ echo_dialogue p)"

definition baseline_of :: "env \<Rightarrow> profile \<Rightarrow> op list \<Rightarrow> nat" where
  "baseline_of ev p h = irq_count (output_of ev (h @ enable_dialogue p) (count_dialogue p))"

definition post_of :: "env \<Rightarrow> profile \<Rightarrow> op list \<Rightarrow> nat" where
  "post_of ev p h =
     irq_count (output_of ev
       (h @ enable_dialogue p @ (count_dialogue p @ echo_dialogue p) @ trigger_dialogue p) (count_dialogue p))"

lemma yields_verdict:
  "yields ev [] (\<lambda>_. b) (if b then bindE (tell t) (\<lambda>_. ret True) else bindE (tell u) (\<lambda>_. ret False))"
  by (simp add: yields_def tell_def modE_def bindE_def ret_def)

lemma yields_measure:
  "yields ev (irq_dialogue p) (\<lambda>h. baseline_of ev p h < post_of ev p h) (measure_interrupts ev p)"
proof -
  let ?enable = "seqs
       [sendline ev (poke p (raw ''!x07!x01'') (config @ '' bs=2 seek=2 count=1 conv=notrunc'')),
        expect ev (prompt p) 5, drain ev]"
    and ?trigger = "seqs
       [sendline ev (poke p (raw ''!xBE!xBA!xDC!xAC'') (resource0 @ '' bs=4 count=1 conv=notrunc'')),
        expect ev (prompt p) 5, pause ev 200, drain ev]"
  have enable: "yields ev (enable_dialogue p) (\<lambda>_. ()) ?enable"
    by (rule yields_plays, rule plays_block [where css = "[_, _, _]"])
      (auto simp: irq_dialogue_defs intro!: play)
  have trigger: "yields ev (trigger_dialogue p) (\<lambda>_. ()) ?trigger"
    by (rule yields_plays, rule plays_block [where css = "[_, _, _, _]"])
      (auto simp: irq_dialogue_defs intro!: play)
  note rest = yields_bindE [OF enable yields_bindE [OF yields_count yields_bindE [OF trigger
      yields_bindE [OF yields_count yields_verdict]]]]
  from rest show ?thesis
    by (simp add: measure_interrupts_def irq_dialogue_def baseline_of_def post_of_def)
qed

section \<open>Properties\<close>

lemma plays_result: "plays ev cs True m \<Longrightarrow> fst (m s) = Inr b \<longleftrightarrow> b \<and> answered ev (ops s) cs"
  unfolding plays_def by (auto split: if_splits dest: spec [of _ s])

text \<open>
  C10. Tests 1 to 3 return true or raise, never false: each passes exactly when every operation of its
  dialogue is answered, and a guest that does not show the expected words makes it raise. So of the
  four tests only test 4 can be reported as failed.
\<close>

theorem tests_1_to_3_verdict:
  "(fst (run_test_1_burst_verification ev p s) = Inr b \<longleftrightarrow> b \<and> answered ev (ops s) (test_1_dialogue p)) \<and>
   (fst (run_test_2_boundary_validation ev p s) = Inr b \<longleftrightarrow> b \<and> answered ev (ops s) (test_2_dialogue p)) \<and>
   (fst (run_test_3_bar_isolation ev p s) = Inr b \<longleftrightarrow> b \<and> answered ev (ops s) (test_3_dialogue p))"
  by (intro conjI plays_result plays_test_1 plays_test_2 plays_test_3)

text \<open>
  C11. Test 4 passes exactly when the guest answers every step, lists the device as bound, and counts more
  interrupts of the device after the trigger than before. It fails when the device is not listed, or when
  the count has not grown.
\<close>

theorem test_4_verdict:
  "fst (run_test_4_irq_verification ev p s) = Inr b \<longleftrightarrow>
     answered ev (ops s) (bind_dialogue p) \<and>
     (if contains ''0000:01:00.0'' (output_of ev (ops s) (bind_dialogue p))
      then answered ev (ops s @ bind_dialogue p) (irq_dialogue p) \<and>
        b = (baseline_of ev p (ops s @ bind_dialogue p) < post_of ev p (ops s @ bind_dialogue p))
      else \<not> b)"
proof -
  let ?look = "bindE (bind_device ev p) (\<lambda>_. getE (\<lambda>s. contains ''0000:01:00.0'' (before s)))"
    and ?bound = "contains ''0000:01:00.0'' (output_of ev (ops s) (bind_dialogue p))"
    and ?rest = "\<lambda>bound. if \<not> bound then
       bindE (tell ''[TEST 4] Fatal: Device 0000:01:00.0 failed to bind'') (\<lambda>_. ret False)
     else measure_interrupts ev p"
  have test: "run_test_4_irq_verification ev p = bindE ?look ?rest"
    by (simp add: run_test_4_irq_verification_def bindE_assoc)
  have "plays ev (bind_dialogue p) () (bind_device ev p)"
    unfolding bind_device_def
    by (rule plays_block [where css = "[_, _, _, _, _, _]"]) (auto simp: irq_dialogue_defs intro!: play)
  moreover obtain ds line where "bind_dialogue p = ds @ command p line"
    unfolding bind_dialogue_def append_assoc [symmetric] by blast
  ultimately have look: "yields ev (bind_dialogue p)
      (\<lambda>h. contains ''0000:01:00.0'' (output_of ev h (bind_dialogue p))) ?look"
    by (rule yields_output)
  show ?thesis
  proof (cases "answered ev (ops s) (bind_dialogue p)")
    case True
    obtain s1 where s1: "?look s = (Inr ?bound, s1)" "ops s1 = ops s @ bind_dialogue p"
      by (rule yields_yes [OF look True])
    then show ?thesis
      using True yields_measure [of ev p]
      by (auto simp: test bindE_Inr [where m = ?look, OF s1(1)] yields_def tell_def modE_def bindE_def ret_def
          split: if_splits dest: spec [of _ s1])
  next
    case False
    then obtain e s1 where "?look s = (Inl e, s1)" by (rule yields_no [OF look])
    then show ?thesis using False by (simp add: test bindE_Inl)
  qed
qed

text \<open>The texts a dialogue waits for.\<close>

definition expected :: "op list \<Rightarrow> string list" where
  "expected cs = concat (map (\<lambda>c. case c of Expect pats _ \<Rightarrow> pats | _ \<Rightarrow> []) cs)"

definition looks_for :: "string \<Rightarrow> op list \<Rightarrow> bool" where
  "looks_for t cs = list_ex (contains t) (expected cs)"

text \<open>
  What the checks look for, in the profiles of the program. Test 1 writes a burst of four words and
  looks only for the first of them, with every profile; test 3 looks for the value it has written to
  BAR1 with the profiles of Ubuntu and Fedora, but with those of CirrOS and of the fallback for nothing
  but the value in BAR0: the filtered dump of the configuration space is printed and not looked at.
\<close>

theorem words_looked_for:
  "list_all (\<lambda>p. looks_for ''40302010'' (test_1_dialogue p) \<and>
       \<not> looks_for ''80706050'' (test_1_dialogue p) \<and> \<not> looks_for ''c0b0a090'' (test_1_dialogue p) \<and>
       \<not> looks_for ''fff0e0d0'' (test_1_dialogue p))
     [ubuntu_profile, fedora_profile, cirros_profile, fallback_profile] \<and>
   list_all (\<lambda>p. looks_for ''88776000'' (test_3_dialogue p) \<and> looks_for ''bebafeca'' (test_3_dialogue p))
     [ubuntu_profile, fedora_profile] \<and>
   list_all (\<lambda>p. \<not> looks_for ''88776000'' (test_3_dialogue p) \<and> looks_for ''bebafeca'' (test_3_dialogue p))
     [cirros_profile, fallback_profile]"
  by code_simp

text \<open>The banner the guest showed, and the profile of a distribution.\<close>

definition banner :: "env \<Rightarrow> op list \<Rightarrow> nat" where
  "banner ev h = (case ev h (Expect login_banners None) of Answer i _ \<Rightarrow> i | Fails _ \<Rightarrow> 0)"

definition banner_fits :: "string \<Rightarrow> nat \<Rightarrow> bool" where
  "banner_fits distro i \<longleftrightarrow>
     (distro = ''ubuntu'' \<and> i \<in> {1, 5}) \<or> (distro = ''cirros'' \<and> i \<in> {2, 3}) \<or>
     (distro = ''fedora'' \<and> i \<in> {0, 4, 5})"

definition distro_profile :: "string \<Rightarrow> profile" where
  "distro_profile distro =
     (if distro = ''ubuntu'' then ubuntu_profile
      else if distro = ''cirros'' then cirros_profile
      else fedora_profile)"

text \<open>The root prompt a login ends with.\<close>

definition root_prompt :: "string \<Rightarrow> op" where
  "root_prompt distro =
     (if distro = ''cirros'' then Expect [raw ''#!s*$''] (Some 5)
      else Expect [prompt (distro_profile distro)] (Some 15))"

lemma plays_logins:
  "plays ev ([Pause 1000, Sendline ''ubuntu'', Expect [''Password:''] (Some 10), Pause 500, Sendline ''ubuntu'',
      Expect [raw ''!$!s*$''] (Some 20), Sendline ''sudo -i''] @ [root_prompt ''ubuntu'']) () (login_ubuntu ev)"
  "plays ev ([Pause 1000, Sendline ''root'', Expect [''Password:''] (Some 10), Pause 500,
      Sendline ''fedora''] @ [root_prompt ''fedora'']) () (login_fedora ev)"
  "plays ev ([Pause 500, Sendline ''cirros'', Expect [''Password:''] (Some 5), Pause 200, Sendline ''gocubsgo'',
      Expect [prompt cirros_profile] (Some 10), Sendline ''sudo -i''] @ [root_prompt ''cirros'']) () (login_cirros ev 3)"
  "plays ev ([Sendline ''sudo -i''] @ [root_prompt ''cirros'']) () (login_cirros ev 2)"
proof -
  have names: "password fedora_profile = ''fedora''" "username cirros_profile = ''cirros''"
    "password cirros_profile = ''gocubsgo''"
    by (simp_all add: fedora_profile_def cirros_profile_def)
  have prompts: "root_prompt ''ubuntu'' = Expect [prompt ubuntu_profile] (Some 15)"
    "root_prompt ''fedora'' = Expect [prompt fedora_profile] (Some 15)"
    "root_prompt ''cirros'' = Expect [raw ''#!s*$''] (Some 5)"
    by (simp_all add: root_prompt_def distro_profile_def)
  show "plays ev ([Pause 1000, Sendline ''ubuntu'', Expect [''Password:''] (Some 10), Pause 500, Sendline ''ubuntu'',
      Expect [raw ''!$!s*$''] (Some 20), Sendline ''sudo -i''] @ [root_prompt ''ubuntu'']) () (login_ubuntu ev)"
    unfolding login_ubuntu_def prompts
    by (rule plays_block [where css = "[_, _, _, _, _, _, _, _]"]) (auto intro!: play)
  show "plays ev ([Pause 1000, Sendline ''root'', Expect [''Password:''] (Some 10), Pause 500,
      Sendline ''fedora''] @ [root_prompt ''fedora'']) () (login_fedora ev)"
    unfolding login_fedora_def prompts names
    by (rule plays_block [where css = "[_, _, _, _, _, _]"]) (auto intro!: play)
  show "plays ev ([Pause 500, Sendline ''cirros'', Expect [''Password:''] (Some 5), Pause 200, Sendline ''gocubsgo'',
      Expect [prompt cirros_profile] (Some 10), Sendline ''sudo -i''] @ [root_prompt ''cirros'']) () (login_cirros ev 3)"
    unfolding login_cirros_def prompts names if_P [OF refl]
    by (rule plays_block [where css = "[_, _, _, _, _, _, _, _]"]) (auto intro!: play)
  show "plays ev ([Sendline ''sudo -i''] @ [root_prompt ''cirros'']) () (login_cirros ev 2)"
    unfolding login_cirros_def prompts
    by (auto simp del: seqs.simps intro!: play)
qed

lemma plays_last: "plays ev (cs @ [c]) () m \<Longrightarrow> m s = (Inr x, s') \<Longrightarrow> last (ops s') = c"
  unfolding plays_def by (metis Inl_Inr_False append_assoc fst_conv last_snoc snd_conv)

text \<open>The branch taken behind the banner, and what a login that returned has sent last.\<close>

lemma login_behind_banner:
  assumes "detect_and_initialize_guest_os_profile distro ev s = (Inr p, s')"
  obtains s1 where "login_as ev distro (banner ev (ops s)) s1 = (Inr p, s')" and "ops s1 = ops s @ [Expect login_banners None]"
proof -
  obtain s1 where first: "expect_any ev login_banners None s = (Inr (banner ev (ops s)), s1)"
    and "ops s1 = ops s @ [Expect login_banners None]"
    using assms
    by (auto simp: detect_and_initialize_guest_os_profile_def expect_any_def perform_def prog_simps Let_def
        banner_def split: answer.splits)
  moreover have "login_as ev distro (banner ev (ops s)) s1 = (Inr p, s')"
    using assms
    by (simp add: detect_and_initialize_guest_os_profile_def bindE_Inr [where m = "expect_any ev login_banners None", OF first])
  ultimately show ?thesis using that by blast
qed

lemma login_last:
  assumes "bindE m (\<lambda>_. ret q) s1 = (Inr p, s')" and "plays ev (cs @ [c]) () m"
  shows "p = q \<and> last (ops s') = c"
proof -
  have "m s1 = (Inr (), s') \<and> p = q"
    using assms(1) by (cases "m s1") (auto simp: bindE_def ret_def split: sum.splits)
  then show ?thesis using plays_last [OF assms(2)] by blast
qed

lemma login_fits:
  assumes "banner_fits distro i" and "login_as ev distro i s1 = (Inr p, s')"
  shows "p = distro_profile distro \<and> last (ops s') = root_prompt distro"
proof -
  have names: "''ubuntu'' \<noteq> ''cirros''" "''ubuntu'' \<noteq> ''fedora''" "''cirros'' \<noteq> ''fedora''" by simp_all
  from assms(1) consider "distro = ''ubuntu''" "i \<in> {1, 5}" | "distro = ''cirros''" "i = 2" | "distro = ''cirros''" "i = 3"
    | "distro = ''fedora''" "i \<in> {0, 4, 5}"
    by (elim disjE conjE insertE emptyE banner_fits_def [THEN iffD1, elim_format]) simp_all
  then show ?thesis
  proof cases
    case 1
    then have "bindE (login_ubuntu ev) (\<lambda>_. ret ubuntu_profile) s1 = (Inr p, s')" using assms(2) by (simp add: login_as_def)
    from login_last [OF this plays_logins(1)] show ?thesis using 1(1) by (simp add: distro_profile_def)
  next
    case 2
    then have "bindE (login_cirros ev 2) (\<lambda>_. ret cirros_profile) s1 = (Inr p, s')" using assms(2) by (simp add: login_as_def)
    from login_last [OF this plays_logins(4)] show ?thesis using 2(1) by (simp add: distro_profile_def)
  next
    case 3
    then have "bindE (login_cirros ev 3) (\<lambda>_. ret cirros_profile) s1 = (Inr p, s')" using assms(2) by (simp add: login_as_def)
    from login_last [OF this plays_logins(3)] show ?thesis using 3(1) by (simp add: distro_profile_def)
  next
    case 4
    then have "bindE (login_fedora ev) (\<lambda>_. ret fedora_profile) s1 = (Inr p, s')" using assms(2) by (simp add: login_as_def)
    from login_last [OF this plays_logins(2)] show ?thesis using 4(1) by (simp add: distro_profile_def)
  qed
qed

lemma login_fits_not:
  assumes "\<not> banner_fits distro i" and "login_as ev distro i s1 = (Inr p, s')"
  shows "p = fallback_profile \<and> s' = s1"
proof -
  from assms(1) have "\<not> (i \<in> {1, 5} \<and> distro = ''ubuntu'')" "\<not> (i \<in> {2, 3} \<and> distro = ''cirros'')"
    "\<not> (i \<in> {0, 4, 5} \<and> distro = ''fedora'')"
    unfolding banner_fits_def by blast+
  then have "ret fallback_profile s1 = (Inr p, s')" using assms(2) by (simp only: login_as_def if_False)
  then show ?thesis by (simp add: ret_def)
qed


text \<open>A guest that shows one banner and answers everything, on a machine without files.\<close>

definition banner_env :: "nat \<Rightarrow> env" where
  "banner_env i h c = (case c of Expect _ None \<Rightarrow> Answer i [] | _ \<Rightarrow> Answer 0 [])"

definition no_agent :: agent where
  "no_agent =
     \<lparr>host = \<lparr>fs = (\<lambda>_. None), cwd = ''/'', env = (\<lambda>_. None), log = []\<rparr>, ops = [], before = [],
      running = {}, open_files = {}, said = []\<rparr>"


subsection \<open>Reading the count of interrupts\<close>

definition crlf :: string where
  "crlf = [CHR 0x0D, CHR 0x0A]"

definition one_line :: "string \<Rightarrow> bool" where
  "one_line s = list_all (Not \<circ> is_line_end) s"

lemma splitlines_line:
  "one_line s \<Longrightarrow> splitlines_from acc (s @ crlf @ rest) = (rev acc @ s) # splitlines_from [] rest"
proof (induction s arbitrary: acc)
  case Nil
  then show ?case by (simp add: crlf_def)
next
  case (Cons c s)
  then have "\<not> is_line_end c" "c \<noteq> CHR 0x0D" by (auto simp: one_line_def is_line_end_def)
  with Cons show ?case by (auto simp: one_line_def)
qed

lemma digits_plain:
  assumes "list_all is_digit s"
  shows "strip s = s" and "one_line s"
proof -
  have "\<not> is_space c \<and> \<not> is_line_end c" if "is_digit c" for c
    using that by (auto simp: is_digit_def is_space_def is_line_end_def Let_def)
  then have all: "list_all (Not \<circ> is_space) s" "one_line s"
    using assms by (auto simp: list_all_iff one_line_def)
  then have "dropWhile is_space s = s" "dropWhile is_space (rev s) = rev s"
    by (auto simp: dropWhile_eq_self_iff list_all_iff hd_rev)
  then show "strip s = s" by (simp add: strip_def)
  show "one_line s" by (rule all(2))
qed

definition is_number :: "string \<Rightarrow> bool" where
  "is_number line = str_isdigit (strip line)"

text \<open>
  The count the guest prints is read back: among the lines of the terminal, each ended by a carriage
  return and a line feed, the first that is a number, blanks aside, gives the count, whatever precedes
  (the echoed command) and follows it (the prompt).
\<close>

theorem irq_count_reads_back:
  assumes "list_all (\<lambda>line. one_line line \<and> \<not> is_number line) echo"
  shows "irq_count (concat (map (\<lambda>line. line @ crlf) echo) @ show_nat n @ crlf @ rest) = n"
  using assms
proof (induction echo)
  case Nil
  have n: "list_all is_digit (show_nat n)" by (rule show_nat_digits)
  have "show_nat n \<noteq> []" by (subst show_nat.simps) simp
  then show ?case
    using splitlines_line [OF digits_plain(2) [OF n], of "[]" rest] digits_plain(1) [OF n] n
    by (simp add: irq_count_def splitlines_def Let_def str_isdigit_def int_of_show_nat)
next
  case (Cons line echo)
  then show ?case
    using splitlines_line [of line "[]" "concat (map (\<lambda>line. line @ crlf) echo) @ show_nat n @ crlf @ rest"]
    by (simp add: irq_count_def splitlines_def is_number_def Let_def)
qed

theorem irq_count_reads_back_witness:
  "irq_count (''cat /proc/interrupts'' @ crlf @ show_nat 12 @ crlf @ ''# '') = 12"
proof -
  have "list_all (\<lambda>line. one_line line \<and> \<not> is_number line) [''cat /proc/interrupts'']"
    by code_simp
  from irq_count_reads_back [OF this, of 12 "''# ''"] show ?thesis
    by simp
qed

end
