(* ===== verification/Agent_Main.thy ===== *)
theory Agent_Main
  imports Arg_Parse Agent_Logs Agent_Sniffer Guest_Tests
begin

text \<open>
  The agent itself (\<open>run_pcie_agent.py\<close>, lines 623 to 950): its command line, the command that starts
  QEMU, the run of the tests, and \<open>main\<close> with the teardown of everything it has started.
\<close>

section \<open>The command line\<close>

text \<open>
  \<open>--debug\<close> and \<open>--sniffer\<close> exist only in workspaces with those scopes; without the option the namespace
  has no such attribute (\<open>None\<close>).
\<close>

record agent_args =
  distro :: string
  verbose :: bool
  debug :: "bool option"
  sniffer :: "bool option"
  bridge :: bool

definition option_names :: "bool \<Rightarrow> bool \<Rightarrow> string list" where
  "option_names enable_dbg enable_net =
     [''--help'', ''--distro'', ''--verbose''] @
     (if enable_dbg then [''--debug''] else []) @ (if enable_net then [''--sniffer''] else []) @ [''--bridge'']"

definition distros :: "string list" where
  "distros = [''cirros'', ''fedora'', ''ubuntu'']"

definition set_flag :: "string \<Rightarrow> agent_args \<Rightarrow> agent_args" where
  "set_flag name ns =
     (if name = ''--verbose'' then ns\<lparr>verbose := True\<rparr>
      else if name = ''--debug'' then ns\<lparr>debug := Some True\<rparr>
      else if name = ''--sniffer'' then ns\<lparr>sniffer := Some True\<rparr>
      else ns\<lparr>bridge := True\<rparr>)"

text \<open>From left to right; what is not recognised is reported at the end.\<close>

fun parse_from :: "string list \<Rightarrow> agent_args \<Rightarrow> bool \<Rightarrow> string list \<Rightarrow> exn + agent_args" where
  "parse_from names ns extras [] = (if extras then Inl (SystemExit 2) else Inr ns)"
| "parse_from names ns extras (a # as) =
     (if \<not> is_option a then parse_from names ns True as
      else case resolve names a of
          Unknown \<Rightarrow> parse_from names ns True as
        | Ambiguous \<Rightarrow> Inl (SystemExit 2)
        | Known name val \<Rightarrow>
            if name = ''--distro'' then
              (case val of
                 Some v \<Rightarrow> if v \<in> set distros then parse_from names (ns\<lparr>distro := v\<rparr>) extras as else Inl (SystemExit 2)
               | None \<Rightarrow>
                   (case as of
                      [] \<Rightarrow> Inl (SystemExit 2)
                    | v # as' \<Rightarrow>
                        if \<not> is_option v \<and> v \<in> set distros then parse_from names (ns\<lparr>distro := v\<rparr>) extras as'
                        else Inl (SystemExit 2)))
            else if val \<noteq> None then Inl (SystemExit 2)
            else if name = ''--help'' then Inl (SystemExit 0)
            else parse_from names (set_flag name ns) extras as)"

definition parse_arguments :: "bool \<Rightarrow> bool \<Rightarrow> string list \<Rightarrow> exn + agent_args" where
  "parse_arguments enable_dbg enable_net argv =
     parse_from (option_names enable_dbg enable_net)
       \<lparr>distro = ''cirros'', verbose = False, debug = (if enable_dbg then Some False else None),
        sniffer = (if enable_net then Some False else None), bridge = False\<rparr> False argv"

section \<open>The command of QEMU\<close>

definition boot_kernel :: "path \<Rightarrow> path \<Rightarrow> string \<Rightarrow> world \<Rightarrow> path" where
  "boot_kernel img_root external_kernel link w =
     (if path_exists w external_kernel then external_kernel else path_join img_root link)"

definition drive :: "path \<Rightarrow> string" where
  "drive disk_img = ''-drive file='' @ disk_img @ '',format=qcow2,if=virtio ''"

definition fedora_sha512_hash :: string where
  "fedora_sha512_hash = ''$6$salt1234$o3fWf91zly8GgC008h1qA32W8x07G9v2SOfsXvW9Z7A6p8X4O3gT9ApxE1eZOfsXvW9Z7A6p8X4O3gT9ApxE1.''"

definition small_machine :: string where
  "small_machine = ''-enable-kvm -cpu qemu64,+kvm_pv_unhalt -m 1024M -machine pc -net none -nographic -vga none''"

text \<open>For a distribution the source has a branch for: the disk, the base command and the boot arguments.\<close>

definition boot_setup :: "string \<Rightarrow> path \<Rightarrow> path \<Rightarrow> world \<Rightarrow> (path \<times> string \<times> string) option" where
  "boot_setup d img_root external_kernel w =
     (if d = ''cirros'' then
        (let disk_img = path_join img_root ''disk.cirros''
         in Some (disk_img, ''-enable-kvm -cpu host -m 512M -machine q35 -net none -nographic'',
           ''-kernel '' @ boot_kernel img_root external_kernel ''vmlinuz.cirros'' w @ '' '' @
           ''-initrd '' @ path_join img_root ''initrd.cirros'' @ '' '' @ drive disk_img @
           raw ''-append `console=ttyS0 loglevel=7 root=/dev/vda1 rw nomodeset noefi dslist=none`''))
      else if d = ''fedora'' then
        (let disk_img = path_join img_root ''disk.fedora''
         in Some (disk_img, small_machine,
           ''-kernel '' @ boot_kernel img_root external_kernel ''vmlinuz.fedora'' w @ '' '' @ drive disk_img @
           raw ''-fw_cfg name=opt/io.systemd.Credentials/root.password,string=`'' @ fedora_sha512_hash @ raw ''` '' @
           raw ''-append `console=ttyS0 loglevel=7 root=/dev/vda4 rootflags=subvol=root rw nomodeset noefi selinux=0 enforcing=0 init=/usr/lib/systemd/systemd systemd.default_standard_output=journal+console systemd.unit=multi-user.target plymouth.enable=0 vga=normal rootdelay=1 systemd.mask=local-fs.target systemd.mask=dev-zram0.device systemd.mask=systemd-zram-setup@zram0.service systemd.mask=NetworkManager-wait-online.service`''))
      else if d = ''ubuntu'' then
        (let disk_img = path_join img_root ''disk.ubuntu''
         in Some (disk_img, small_machine,
           ''-kernel '' @ boot_kernel img_root external_kernel ''vmlinuz.ubuntu'' w @ '' '' @ drive disk_img @
           raw ''-append `console=ttyS0 loglevel=7 root=/dev/vda1 rw nomodeset noefi cloud-init=disabled systemd.unified_cgroup_hierarchy=1 systemd.mask=local-fs.target`''))
      else None)"

definition pcie_device :: string where
  "pcie_device =
     ''-device pcie-root-port,id=pcie.1 '' @
     raw ''-device `{\"driver\": \"vfio-user-pci\", \"socket\": {\"type\": \"unix\", \"path\": \"/tmp/vfio-pcie.sock\"}, \"bus\": \"pcie.1\", \"id\": \"pcie_cosim\"}`''"

definition setup_qemu_args :: "string \<Rightarrow> path \<Rightarrow> path \<Rightarrow> world \<Rightarrow> exn + string list" where
  "setup_qemu_args d img_root external_kernel w =
     (case boot_setup d img_root external_kernel w of
        None \<Rightarrow> Inl (UnboundLocalError ''disk_img'')
      | Some (disk_img, base_cmd, append_args) \<Rightarrow>
          if d \<noteq> ''ubuntu'' \<and> \<not> path_exists w disk_img then Inl (SystemExit 1)
          else Inr [base_cmd @ '' '' @ append_args @ '' '' @ pcie_device])"

section \<open>The test matrix\<close>

definition run_test :: "env \<Rightarrow> profile \<Rightarrow> nat \<Rightarrow> (agent, bool) prog" where
  "run_test ev p k =
     (if k = 1 then run_test_1_burst_verification ev p
      else if k = 2 then run_test_2_boundary_validation ev p
      else if k = 3 then run_test_3_bar_isolation ev p
      else run_test_4_irq_verification ev p)"

fun run_matrix :: "env \<Rightarrow> profile \<Rightarrow> nat list \<Rightarrow> (agent, bool list) prog" where
  "run_matrix ev p [] = ret []"
| "run_matrix ev p (k # ks) =
     bindE (run_test ev p k) (\<lambda>r. bindE (run_matrix ev p ks) (\<lambda>rs. ret (r # rs)))"

definition testMatrix :: "nat list" where
  "testMatrix = [1, 2, 3, 4]"

definition failedTests :: "bool list \<Rightarrow> nat list" where
  "failedTests testResults = map fst (filter (\<lambda>(test, res). \<not> res) (zip testMatrix testResults))"

definition report :: "bool list \<Rightarrow> (agent, unit) prog" where
  "report testResults =
     (if list_all (\<lambda>r. r) testResults then tell ''RUN RESULT: AUTOMATED VERIFICATION: PASS''
      else tell (''RUN RESULT: AUTOMATED VERIFICATION: FAIL: '' @ join '', '' (map show_nat (failedTests testResults))))"

text \<open>
  The body of the \<open>try\<close>: no profile has the key \<open>is_boot_failure\<close>, so the branch for a crashed system
  is never taken.
\<close>

definition run_guest :: "env \<Rightarrow> agent_args \<Rightarrow> (agent, unit) prog" where
  "run_guest ev args =
     bindE (detect_and_initialize_guest_os_profile (distro args) ev) (\<lambda>env_profile.
     bindE (run_matrix ev env_profile testMatrix) (\<lambda>testResults.
     seqs [report testResults, pause ev 100, act ev (Interact Qemu)]))"

section \<open>\<open>main\<close>\<close>

text \<open>
  \<open>load_json\<close>, down to what \<open>main\<close> reads of the workspace's configuration: the scopes that were set up.
  The parser is a parameter: no result for a malformed text, \<open>Some None\<close> for an empty document.
\<close>

type_synonym config_parser = "string \<Rightarrow> string list option option"

definition load_json :: "config_parser \<Rightarrow> path \<Rightarrow> (world, string list option) prog" where
  "load_json decode p =
     bindE (getE (\<lambda>w. path_exists w p)) (\<lambda>there.
       if \<not> there then ret None
       else bindE (read_text p) (\<lambda>t. case decode t of None \<Rightarrow> raise (SystemExit 1) | Some c \<Rightarrow> ret c))"

text \<open>An attribute of the namespace, where there is one.\<close>

definition attribute :: "string \<Rightarrow> 'a option \<Rightarrow> (agent, 'a) prog" where
  "attribute name v = (case v of None \<Rightarrow> raise (AttributeError name) | Some x \<Rightarrow> ret x)"

definition bridge_opt :: "agent_args \<Rightarrow> string" where
  "bridge_opt args =
     (let bridge_flags = (if verbose args then ''v'' else []) @ (if bridge args then ''r'' else [])
      in if bridge_flags \<noteq> [] then ''-'' @ bridge_flags else [])"

text \<open>Building the simulation when it is not there, and starting it; false when the build has failed.\<close>

definition start_bridge :: "env \<Rightarrow> agent_args \<Rightarrow> path \<Rightarrow> (agent, bool) prog" where
  "start_bridge ev args root =
     (let bridge_bin = path_join (path_join root ''build'') ''pcie_sim''
      in bindE (getE (\<lambda>s. path_exists (host s) bridge_bin)) (\<lambda>there.
         bindE (if there then ret True
                else tryE (seqE (act ev (Run_Command ''make'')) (ret True)) (\<lambda>e. e = CalledProcessError) (\<lambda>_. ret False))
           (\<lambda>built.
           if \<not> built then ret False
           else seqE (spawn ev Bridge (''stdbuf -oL '' @ bridge_bin @ '' '' @ bridge_opt args)) (ret True))))"

definition ready_message :: string where
  "ready_message = ''[PCIe-SIM] Waiting for PCIe packets''"

text \<open>The handshake: 15 seconds in steps of half a second; the drainer thread fills the log meanwhile.\<close>

primrec handshake :: "nat \<Rightarrow> env \<Rightarrow> path \<Rightarrow> (agent, bool) prog" where
  "handshake 0 ev log_path = ret False"
| "handshake (Suc n) ev log_path =
     bindE (getE (\<lambda>s. path_exists (host s) log_path)) (\<lambda>there.
     bindE (if there then bindE (perform ev Read_Log) (\<lambda>(_, log_content). ret (contains ready_message log_content))
            else ret False) (\<lambda>initialized.
       if initialized then ret True else seqE (pause ev 500) (handshake n ev log_path)))"

definition sync_bridge :: "env \<Rightarrow> path \<Rightarrow> (agent, bool) prog" where
  "sync_bridge ev log_path =
     tryE
       (bindE (handshake 30 ev log_path) (\<lambda>initialized.
          if \<not> initialized then raise TIMEOUT else seqE (pause ev 500) (ret True)))
       (\<lambda>e. e = TIMEOUT)
       (\<lambda>_. seqE (seqs [terminate ev Bridge, close_log Backend_Log]) (ret False))"

definition sockets :: "path list" where
  "sockets = [''/tmp/vfio-pcie.sock'', ''/tmp/pcie-cosim1.sock'', ''/tmp/pcie-cosim2.sock'']"

definition unlink_if_there :: "path \<Rightarrow> (agent, unit) prog" where
  "unlink_if_there p =
     bindE (getE (\<lambda>s. path_exists (host s) p)) (\<lambda>there. whenE there (ignoring (on_host (os_remove p))))"

text \<open>Stopping the simulation: asked to by a signal, forced to when it does not close its output.\<close>

definition reap_bridge :: "env \<Rightarrow> (agent, unit) prog" where
  "reap_bridge ev =
     tryE
       (bindE (alive ev Bridge) (\<lambda>up.
          whenE up (seqs [send_signal ev Bridge 2, expect_eof ev Bridge])))
       (\<lambda>e. e = TIMEOUT \<or> e = EOF)
       (\<lambda>e. if e = TIMEOUT then seqE (terminate ev Bridge) (forE sockets unlink_if_there) else ret ())"

definition run_standalone :: "env \<Rightarrow> (agent, unit) prog" where
  "run_standalone ev =
     seqs [pause ev 100, act ev (Interact Bridge), reap_bridge ev, close_log Backend_Log]"

definition gdb_sock_path :: "nat \<Rightarrow> path" where
  "gdb_sock_path pid = ''/tmp/gdb_'' @ show_nat pid @ ''.sock''"

definition gdb_script_path :: "path \<Rightarrow> nat \<Rightarrow> path" where
  "gdb_script_path root pid = path_join (path_join root ''build'') (''.gdb_init_agent_'' @ show_nat pid)"

definition start_gdb :: "env \<Rightarrow> path \<Rightarrow> nat \<Rightarrow> path \<Rightarrow> (agent, unit) prog" where
  "start_gdb ev root pid external_debug_kernel =
     seqE
       (on_host (write_text (''set architecture i386:x86-64'' @ newline @ ''target remote '' @ gdb_sock_path pid @ newline)
          (gdb_script_path root pid)))
       (spawn ev Gdb (''xterm -hold -title Agent '' @ show_nat pid @ '' GDB Target i386:x86-64 -e gdb-multiarch '' @
          external_debug_kernel @ '' -x '' @ gdb_script_path root pid))"

text \<open>\<open>TimeoutExpired\<close> of a wait is \<open>TIMEOUT\<close> here; after it the process is killed and waited for.\<close>

definition stop_gdb :: "env \<Rightarrow> path \<Rightarrow> nat \<Rightarrow> (agent, unit) prog" where
  "stop_gdb ev root pid =
     seqE
       (bindE (alive ev Gdb) (\<lambda>up.
          whenE up
            (tryE
              (seqs [send_signal ev Gdb 15, wait ev Gdb, unlink_if_there (gdb_script_path root pid)])
              is_Exception
              (\<lambda>e. ignoring
                (seqE (send_signal ev Gdb 9) (whenE (e = TIMEOUT) (wait ev Gdb)))))))
       (unlink_if_there (gdb_sock_path pid))"

definition teardown :: "env \<Rightarrow> path \<Rightarrow> nat \<Rightarrow> sniffer_handle option \<Rightarrow> bool \<Rightarrow> (agent, unit) prog" where
  "teardown ev root pid sniffer_proc gdb_proc =
     seqs
       [(case sniffer_proc of None \<Rightarrow> ret () | Some h \<Rightarrow> stop_vfio_user_pkt_sniffer ev h),
        ignoring (terminate ev Qemu),
        reap_bridge ev,
        whenE gdb_proc (stop_gdb ev root pid),
        close_log Backend_Log]"

definition vfio_socket :: path where
  "vfio_socket = ''/tmp/vfio-pcie.sock''"

definition start_sniffer :: "env \<Rightarrow> path \<Rightarrow> agent_paths \<Rightarrow> (agent, sniffer_handle option) prog" where
  "start_sniffer ev root paths =
     bindE (start_vfio_user_pkt_sniffer ev root (pcap_file_path paths) (slog_file_path paths) vfio_socket) (\<lambda>sniffer_proc.
       case sniffer_proc of
         None \<Rightarrow> ret None
       | Some h \<Rightarrow> bindE (launch_wireshark ev (log_dir paths) h) (\<lambda>h'. ret (Some h')))"

text \<open>The guarded part: the tests and the console; whatever they raise is reported, and all is torn down.\<close>

definition guarded_run ::
  "env \<Rightarrow> agent_args \<Rightarrow> path \<Rightarrow> nat \<Rightarrow> sniffer_handle option \<Rightarrow> bool \<Rightarrow> (agent, unit) prog" where
  "guarded_run ev args root pid sniffer_proc gdb_proc =
     finallyE
       (tryE (run_guest ev args) is_Exception (\<lambda>_. tell ''Fatal: Exception thrown''))
       (teardown ev root pid sniffer_proc gdb_proc)"

text \<open>With a guest: everything is started before the \<open>try\<close>; only from there on does \<open>finally\<close> hold.\<close>

definition run_with_guest ::
  "env \<Rightarrow> agent_args \<Rightarrow> path \<Rightarrow> nat \<Rightarrow> agent_paths \<Rightarrow> string \<Rightarrow> bool \<Rightarrow> bool \<Rightarrow> path \<Rightarrow> (agent, unit) prog" where
  "run_with_guest ev args root pid paths qemu_cmd want_sniffer want_debug external_debug_kernel =
     bindE (if want_sniffer then start_sniffer ev root paths else ret None) (\<lambda>sniffer_proc.
     bindE (spawn ev Qemu qemu_cmd) (\<lambda>_.
     bindE (getE (\<lambda>s. want_debug \<and> path_exists (host s) external_debug_kernel)) (\<lambda>gdb_proc.
     bindE (whenE gdb_proc (start_gdb ev root pid external_debug_kernel)) (\<lambda>_.
     guarded_run ev args root pid sniffer_proc gdb_proc))))"

record site =
  root :: path
  parent :: path
  grandparent :: path
  home :: path
  pid :: nat

definition agent_main :: "env \<Rightarrow> config_parser \<Rightarrow> site \<Rightarrow> string list \<Rightarrow> (agent, unit) prog" where
  "agent_main ev decode here argv =
     bindE (on_host (load_json decode ''.configs.json'')) (\<lambda>config_state.
     case config_state of
       None \<Rightarrow> raise (SystemExit 1)
     | Some config_scopes \<Rightarrow>
         (let enable_dbg = ''debug'' \<in> set config_scopes; enable_net = ''networking'' \<in> set config_scopes
          in bindE (liftE (parse_arguments enable_dbg enable_net argv)) (\<lambda>args.
          bindE (getE (\<lambda>s. resolve_relative_paths (root here) (parent here) (grandparent here) (home here) (host s)))
            (\<lambda>paths.
          bindE (on_host (setup_log_directory (log_dir paths) (log_file_path paths) (pcap_file_path paths)
              (slog_file_path paths) 2)) (\<lambda>_.
          bindE (open_for_log Backend_Log (log_file_path paths)) (\<lambda>_.
          (let img_root = path_join (path_join (path_join (path_join (root here) ''third_party'') ''os'') ''images'') ''linux'';
               external_kernel = path_join img_root ''vmlinuz.v6.8_pcie_cosim'';
               external_debug_kernel = path_join img_root ''vmlinux.v6.8_pcie_cosim''
           in bindE (getE (\<lambda>s. setup_qemu_args (distro args) img_root external_kernel (host s))) (\<lambda>r.
          bindE (liftE r) (\<lambda>qemu_args.
          bindE (if enable_dbg then attribute ''debug'' (debug args) else ret False) (\<lambda>want_debug.
          (let qemu_cmd = ''qemu-system-x86_64 '' @ join '' '' (qemu_args @
                 (if want_debug then [''-gdb'', ''unix:'' @ gdb_sock_path (pid here) @ '',server=on,wait=off'', ''-S''] else []))
           in bindE (start_bridge ev args (root here)) (\<lambda>started.
          if \<not> started then ret ()
          else bindE (sync_bridge ev (log_file_path paths)) (\<lambda>ready.
          if \<not> ready then ret ()
          else if bridge args then run_standalone ev
          else bindE (if enable_net then attribute ''sniffer'' (sniffer args) else ret False) (\<lambda>want_sniffer.
            run_with_guest ev args (root here) (pid here) paths qemu_cmd want_sniffer want_debug
              external_debug_kernel))))))))))))))"

section \<open>The command line: properties\<close>

text \<open>What a namespace, or the exit of the parser, has to be.\<close>

definition namespace_ok :: "bool \<Rightarrow> bool \<Rightarrow> exn + agent_args \<Rightarrow> bool" where
  "namespace_ok enable_dbg enable_net r \<longleftrightarrow>
     (case r of
        Inr ns \<Rightarrow> (debug ns \<noteq> None \<longleftrightarrow> enable_dbg) \<and> (sniffer ns \<noteq> None \<longleftrightarrow> enable_net) \<and> distro ns \<in> set distros
      | Inl e \<Rightarrow> e = SystemExit 0 \<or> e = SystemExit 2)"

lemma namespace_exits: "namespace_ok d n (Inl (SystemExit 0))" "namespace_ok d n (Inl (SystemExit 2))"
  by (simp_all add: namespace_ok_def)

lemma namespace_distro: "namespace_ok d n (Inr ns) \<Longrightarrow> v \<in> set distros \<Longrightarrow> namespace_ok d n (Inr (ns\<lparr>distro := v\<rparr>))"
  by (simp add: namespace_ok_def)

lemma namespace_flag:
  assumes "namespace_ok d n (Inr ns)" and "name \<in> set (option_names d n)"
  shows "namespace_ok d n (Inr (set_flag name ns))"
proof -
  have "name = ''--debug'' \<Longrightarrow> d" "name = ''--sniffer'' \<Longrightarrow> n"
    using assms(2) by (cases d; cases n; simp add: option_names_def)+
  then show ?thesis using assms(1) by (auto simp: namespace_ok_def set_flag_def)
qed

lemma resolve_in_names:
  assumes "resolve (option_names d n) a = Known name val"
  shows "name \<in> set (option_names d n)"
proof -
  have "name \<in> set (option_names d n)" if "filter (prefix x) (option_names d n) = [name]" for x
    using that by (metis filter_is_subset list.set_intros(1) subsetD)
  moreover have "''--help'' \<in> set (option_names d n)" by (simp add: option_names_def)
  ultimately show ?thesis
    using assms unfolding resolve_def by (auto split: prod.splits if_splits list.splits)
qed

lemma parse_from_ok:
  "namespace_ok d n (Inr ns) \<Longrightarrow> names = option_names d n \<Longrightarrow> namespace_ok d n (parse_from names ns extras argv)"
proof (induction names ns extras argv rule: parse_from.induct)
  case (1 names ns extras)
  then show ?case using namespace_exits by simp
next
  case (2 names ns extras a as)
  show ?case
  proof (cases "is_option a")
    case False
    then show ?thesis using 2 by simp
  next
    case opt: True
    show ?thesis
    proof (cases "resolve names a")
      case (Known name val)
      show ?thesis
      proof (cases "name = ''--distro''")
        case True
        then show ?thesis
          using 2 opt Known namespace_exits namespace_distro by (cases val; cases as) simp_all
      next
        case False
        have "namespace_ok d n (Inr (set_flag name ns))"
          using namespace_flag [OF "2.prems"(1)] resolve_in_names [of d n a] Known "2.prems"(2) by simp
        then show ?thesis
          using 2 opt Known False namespace_exits by simp
      qed
    qed (use 2 opt namespace_exits in simp_all)
  qed
qed

lemma parse_arguments_attributes:
  "case parse_arguments enable_dbg enable_net argv of
     Inr ns \<Rightarrow> (debug ns \<noteq> None \<longleftrightarrow> enable_dbg) \<and> (sniffer ns \<noteq> None \<longleftrightarrow> enable_net) \<and> distro ns \<in> set distros
   | Inl e \<Rightarrow> e = SystemExit 0 \<or> e = SystemExit 2"
proof -
  have "namespace_ok enable_dbg enable_net (parse_arguments enable_dbg enable_net argv)"
    unfolding parse_arguments_def by (rule parse_from_ok [OF _ refl]) (auto simp: namespace_ok_def distros_def)
  then show ?thesis by (simp add: namespace_ok_def)
qed

text \<open>
  C36. The namespace has the attributes \<open>debug\<close> and \<open>sniffer\<close> exactly in workspaces with those scopes, so
  \<open>main\<close>, which reads each only there, never fails on a missing one; and the distribution is one the
  rest of the program has a branch for. A call that is not accepted leaves with status 0 or 2.
\<close>

theorem parse_arguments_namespace:
  "case parse_arguments enable_dbg enable_net argv of
     Inr ns \<Rightarrow> (debug ns \<noteq> None \<longleftrightarrow> enable_dbg) \<and> (sniffer ns \<noteq> None \<longleftrightarrow> enable_net) \<and> distro ns \<in> set distros
   | Inl e \<Rightarrow> e = SystemExit 0 \<or> e = SystemExit 2"
  by (rule parse_arguments_attributes)

section \<open>The run of the tests: properties\<close>

text \<open>The matrix and the guest's session, from what a script promises.\<close>

lemma dialogue_test: "dialogue ev (run_test ev p k)"
  unfolding run_test_def
  by (intro dialogue_if test_1.is_dialogue test_2.is_dialogue test_3.is_dialogue test_4.is_dialogue)

lemma dialogue_matrix: "dialogue ev (run_matrix ev p ks)"
  by (induction ks) (auto intro!: talk dialogue_test)

interpretation matrix: expect_script "\<lambda>ev. run_matrix ev p ks"
  by unfold_locales (rule dialogue_matrix)

interpretation guest: expect_script "\<lambda>ev. run_guest ev args"
  by unfold_locales
    (auto simp: run_guest_def report_def intro!: talk login.is_dialogue dialogue_matrix)

text \<open>
  When the matrix of the four tests returns its results, the first three are passes: the report of a
  run either says that everything passed, or names test 4 and no other.
\<close>

theorem only_test_4_fails:
  assumes "run_matrix ev p testMatrix s = (Inr testResults, s')"
  shows "testResults = [True, True, True, testResults ! 3] \<and>
    failedTests testResults = (if testResults ! 3 then [] else [4]) \<and>
    said (snd (report testResults s')) = said s' @
      [if testResults ! 3 then ''RUN RESULT: AUTOMATED VERIFICATION: PASS''
       else ''RUN RESULT: AUTOMATED VERIFICATION: FAIL: 4'']"
proof -
  obtain r1 r2 r3 r4 s1 s2 s3 where
    tests: "run_test_1_burst_verification ev p s = (Inr r1, s1)"
      "run_test_2_boundary_validation ev p s1 = (Inr r2, s2)"
      "run_test_3_bar_isolation ev p s2 = (Inr r3, s3)"
    and res: "testResults = [r1, r2, r3, r4]"
    using assms
    by (auto simp: testMatrix_def run_test_def bindE_def ret_def split: prod.splits sum.splits)
  have "r1" "r2" "r3"
    using plays_result [OF plays_test_1 [of ev p], of s r1] plays_result [OF plays_test_2 [of ev p], of s1 r2]
      plays_result [OF plays_test_3 [of ev p], of s2 r3] tests by auto
  then have rs: "testResults = [True, True, True, r4]" using res by simp
  have four: "show_nat 4 = ''4''" by code_simp
  show ?thesis
    using four by (cases r4)
      (simp_all add: rs failedTests_def testMatrix_def report_def tell_def modE_def)
qed

text \<open>A guest that matches everything and prints the device's name and a growing count of interrupts.\<close>

definition good_guest :: env where
  "good_guest h c =
     (case c of
        Expect _ None \<Rightarrow> Answer 2 []
      | Expect _ _ \<Rightarrow> Answer 0 (if last h = Sendline ''ls -l /sys/bus/pci/drivers/pci-endpoint-test/''
          then ''0000:01:00.0'' else show_nat (length h))
      | _ \<Rightarrow> Answer 0 [])"

theorem only_test_4_fails_witness:
  "\<exists>rs s'. run_matrix good_guest cirros_profile testMatrix no_agent = (Inr rs, s') \<and> rs = [True, True, True, rs ! 3]"
proof -
  have "answers_all good_guest"
    by (simp add: answers_all_def good_guest_def split: op.splits option.splits)
  then obtain rs where "fst (run_matrix good_guest cirros_profile testMatrix no_agent) = Inr rs"
    using matrix.script_total by blast
  then obtain s' where run: "run_matrix good_guest cirros_profile testMatrix no_agent = (Inr rs, s')"
    by (metis prod.collapse)
  show ?thesis using only_test_4_fails [OF run] run by blast
qed

section \<open>The teardown: properties\<close>

lemma throws_unlink: "throws E (unlink_if_there p)"
  unfolding unlink_if_there_def by (intro raising throws_ignoring throws_on_host throws_remove)

lemma keeps_unlink: "keeps (\<lambda>s. P (state_of s)) (unlink_if_there p)"
  unfolding unlink_if_there_def by (intro keeps_bindE keeps_getE keeps_whenE keeps_ignoring keeps_on_host)

lemma throws_eof: "calls_work ev \<Longrightarrow> throws (\<lambda>e. e = TIMEOUT) (expect_eof ev Bridge)"
  unfolding expect_eof_def
  by (intro throws_seqE throws_gone throws_act) (simp add: calls_work_def)

text \<open>The parts of \<open>reap_bridge\<close>: ask, and force.\<close>

definition ask_bridge :: "env \<Rightarrow> (agent, unit) prog" where
  "ask_bridge ev =
     bindE (alive ev Bridge) (\<lambda>up. whenE up (seqs [send_signal ev Bridge 2, expect_eof ev Bridge]))"

definition force_bridge :: "env \<Rightarrow> (agent, unit) prog" where
  "force_bridge ev = seqE (terminate ev Bridge) (forE sockets unlink_if_there)"

lemma throws_ask: "calls_work ev \<Longrightarrow> throws (\<lambda>e. e = TIMEOUT) (ask_bridge ev)"
  unfolding ask_bridge_def by (auto intro!: raising throws_calls throws_eof)

lemma throws_force: "calls_work ev \<Longrightarrow> throws E (force_bridge ev)"
  unfolding force_bridge_def by (intro raising throws_calls throws_unlink)

lemma reap_bridge_eq: "reap_bridge ev = tryE (ask_bridge ev) (\<lambda>e. e = TIMEOUT \<or> e = EOF)
    (\<lambda>e. if e = TIMEOUT then force_bridge ev else ret ())"
  unfolding reap_bridge_def ask_bridge_def force_bridge_def by (rule refl)

lemma throws_reap: "calls_work ev \<Longrightarrow> throws E (reap_bridge ev)"
  unfolding reap_bridge_eq
  by (rule throws_tryE [where E = "\<lambda>e. e = TIMEOUT"]) (auto intro: throws_ask throws_force)

lemma force_gone: "calls_work ev \<Longrightarrow> leaves (\<lambda>s. Bridge \<notin> running s) (force_bridge ev)"
proof -
  assume c: "calls_work ev"
  have "keeps (\<lambda>s. Bridge \<notin> running s) (forE sockets unlink_if_there)"
    using keeps_unlink [of "\<lambda>(R, L). Bridge \<notin> R"] by (intro keeps_forE) (simp add: state_of_def)
  then show ?thesis
    unfolding force_bridge_def terminate_def using c
    by (intro leaves_then leaves_after leaves_gone throws_works) (simp_all add: calls_work_def)
qed

lemma ask_gone:
  assumes c: "calls_work ev" and run: "ask_bridge ev s = (Inr u, s')"
  shows "Bridge \<notin> running s'"
proof -
  obtain up s1 where s1: "alive ev Bridge s = (Inr up, s1)"
    using throws_returns [OF throws_calls(1) [OF c]] by fastforce
  show ?thesis
  proof (cases up)
    case False
    then show ?thesis
      using run s1 alive_cases(3) [OF s1] by (simp add: ask_bridge_def bindE_def whenE_def ret_def)
  next
    case True
    then show ?thesis
      using run s1
      by (auto simp: ask_bridge_def expect_eof_def gone_def prog_simps split: prod.splits sum.splits)
  qed
qed

lemma reap_gone:
  assumes c: "calls_work ev"
  shows "leaves (\<lambda>s. Bridge \<notin> running s) (reap_bridge ev)"
proof (rule leavesI)
  fix s
  obtain r s1 where ask: "ask_bridge ev s = (r, s1)" by (cases "ask_bridge ev s")
  show "Bridge \<notin> running (snd (reap_bridge ev s))"
  proof (cases r)
    case (Inl e)
    then have "e = TIMEOUT" using throwsD [OF throws_ask [OF c]] ask by simp
    then show ?thesis
      using ask Inl leavesD [OF force_gone [OF c], of s1] by (simp add: reap_bridge_eq tryE_def)
  next
    case (Inr u)
    then show ?thesis using ask ask_gone [OF c] by (simp add: reap_bridge_eq tryE_def)
  qed
qed

lemma throws_stop_gdb: "calls_work ev \<Longrightarrow> throws E (stop_gdb ev root_dir n)"
proof -
  assume c: "calls_work ev"
  then have tame: "tame ev" by (simp add: calls_work_def)
  note t = throws_tame [OF tame]
  have "throws is_Exception (seqs [send_signal ev Gdb 15, wait ev Gdb, unlink_if_there (gdb_script_path root_dir n)])"
    by (rule throws_seqs) (auto intro: t throws_unlink)
  moreover have "throws is_Exception (seqE (send_signal ev Gdb 9) (whenE (e = TIMEOUT) (wait ev Gdb)))" for e
    by (intro raising t)
  ultimately show ?thesis
    unfolding stop_gdb_def
    by (intro throws_seqE throws_bindE throws_whenE throws_calls(1) [OF c] throws_unlink
        throws_tryE [where E = is_Exception] throws_ignoring t) simp_all
qed

lemma keeps_stop_gdb: "shrinks P \<Longrightarrow> keeps (\<lambda>s. P (state_of s)) (stop_gdb ev root_dir n)"
  unfolding stop_gdb_def
  by (auto intro!: keeps_seqE keeps_bindE keeps_whenE keeps_tryE keeps_ret keeps_shrinking keeps_signal
      keeps_unlink keeps_ignoring)

lemma keeps_reap: "shrinks P \<Longrightarrow> keeps (\<lambda>s. P (state_of s)) (reap_bridge ev)"
  unfolding reap_bridge_def
  by (auto intro!: keeps_seqE keeps_bindE keeps_whenE keeps_tryE keeps_ret keeps_if keeps_forE keeps_shrinking
      keeps_signal keeps_unlink)

text \<open>
  The teardown where its calls work: nothing stops it, and QEMU, the bridge and the agent's log are
  settled when it is through.
\<close>

lemma teardown_done:
  assumes c: "calls_work ev"
  shows "throws E (teardown ev root_dir n h gdb)"
    and "leaves (\<lambda>s. Qemu \<notin> running s \<and> Bridge \<notin> running s \<and> Backend_Log \<notin> open_files s)
      (teardown ev root_dir n h gdb)"
proof -
  let ?sniff = "case h of None \<Rightarrow> ret () | Some h \<Rightarrow> stop_vfio_user_pkt_sniffer ev h"
    and ?gdb = "whenE gdb (stop_gdb ev root_dir n)"
  have whole: "teardown ev root_dir n h gdb =
      seqE ?sniff (seqE (ignoring (terminate ev Qemu)) (seqE (reap_bridge ev)
        (seqE ?gdb (seqE (close_log Backend_Log) (ret ())))))"
    by (simp add: teardown_def)
  have tame: "tame ev" using c by (simp add: calls_work_def)
  have sniff: "throws F ?sniff" for F using c by (auto split: option.splits intro: throws_ret throws_stop)
  have qemu: "throws F (ignoring (terminate ev Qemu))" for F
    by (intro throws_ignoring throws_tame [OF tame])
  have gdb': "throws F ?gdb" for F by (intro throws_whenE throws_stop_gdb c)
  show "throws E (teardown ev root_dir n h gdb)"
    unfolding whole by (intro throws_seqE sniff qemu throws_reap [OF c] gdb' throws_close throws_ret)
  have rest: "keeps (\<lambda>s. P (state_of s)) ?gdb" "keeps (\<lambda>s. P (state_of s)) (seqE (close_log Backend_Log) (ret ()))"
    "keeps (\<lambda>s. P (state_of s)) (reap_bridge ev)" if "shrinks P" for P
    using that by (auto intro!: keeps_whenE keeps_stop_gdb keeps_seqE keeps_shrinking keeps_ret keeps_reap)
  note Q = rest [OF shrinks_simps(1) [of Qemu], simplified state_of_def prod.case]
    and B = rest [OF shrinks_simps(1) [of Bridge], simplified state_of_def prod.case]
  have works_T: "throws (\<lambda>_. False) (terminate ev Qemu)" by (rule throws_calls [OF c])
  then have "leaves (\<lambda>s. Qemu \<notin> running s) (terminate ev Qemu)"
    unfolding terminate_def using c
    by (intro leaves_after leaves_gone throws_works) (simp add: calls_work_def)
  then have "leaves (\<lambda>s. Qemu \<notin> running s) (ignoring (terminate ev Qemu))"
    unfolding ignoring_def by (rule leaves_try) (rule keeps_ret)
  then have q: "leaves (\<lambda>s. Qemu \<notin> running s) (teardown ev root_dir n h gdb)"
    unfolding whole by (intro leaves_after [OF sniff] leaves_then keeps_seqE Q) auto
  have b: "leaves (\<lambda>s. Bridge \<notin> running s) (teardown ev root_dir n h gdb)"
    unfolding whole
    by (intro leaves_after [OF sniff] leaves_after [OF qemu] leaves_then [OF reap_gone [OF c]] keeps_seqE B)
  have "leaves (\<lambda>s. Backend_Log \<notin> open_files s) (teardown ev root_dir n h gdb)"
    unfolding whole
    by (intro leaves_after [OF sniff] leaves_after [OF qemu] leaves_after [OF throws_reap [OF c]]
        leaves_after [OF gdb'] leaves_then [OF leaves_closed] keeps_ret)
  with q b show "leaves (\<lambda>s. Qemu \<notin> running s \<and> Bridge \<notin> running s \<and> Backend_Log \<notin> open_files s)
      (teardown ev root_dir n h gdb)"
    by (simp add: leaves_def)
qed


text \<open>A guest that never answers.\<close>

definition dead_guest :: env where
  "dead_guest h c = (case c of Expect _ _ \<Rightarrow> Fails EOF | _ \<Rightarrow> Answer 0 [])"

definition demo_args :: agent_args where
  "demo_args = \<lparr>distro = ''cirros'', verbose = False, debug = None, sniffer = None, bridge = False\<rparr>"


text \<open>A started bridge with an open log, and what keeps it.\<close>

definition bridge_up :: "agent \<Rightarrow> bool" where
  "bridge_up s \<longleftrightarrow> Bridge \<in> running s \<and> Backend_Log \<in> open_files s"

named_theorems up_keeps "programs that keep the bridge up"

lemma up_perform [up_keeps]: "keeps bridge_up (perform ev c)" "keeps bridge_up (act ev c)" "keeps bridge_up (pause ev n)"
    "keeps bridge_up (on_host m)" "keeps bridge_up (tell t)"
  using keeps_perform [of "\<lambda>(R, L). Bridge \<in> R \<and> Backend_Log \<in> L"] keeps_act [of "\<lambda>(R, L). Bridge \<in> R \<and> Backend_Log \<in> L"]
    keeps_pause [of "\<lambda>(R, L). Bridge \<in> R \<and> Backend_Log \<in> L"] keeps_on_host [of "\<lambda>(R, L). Bridge \<in> R \<and> Backend_Log \<in> L"]
    keeps_tell [of "\<lambda>(R, L). Bridge \<in> R \<and> Backend_Log \<in> L"]
  by (simp_all add: state_of_def bridge_up_def [abs_def])

lemma up_logs [up_keeps]: "keeps bridge_up (open_log f)" "f \<noteq> Backend_Log \<Longrightarrow> keeps bridge_up (close_log f)"
  "p \<noteq> Bridge \<Longrightarrow> keeps bridge_up (gone p)"
  by (auto simp: keeps_def open_log_def close_log_def gone_def modE_def bridge_up_def)

lemma up_spawn [up_keeps]: "keeps bridge_up (spawn ev p cmd)"
  unfolding spawn_def
  by (intro keeps_seqE up_keeps) (simp add: keeps_def modE_def bridge_up_def)

lemma up_alive [up_keeps]: "p \<noteq> Bridge \<Longrightarrow> keeps bridge_up (alive ev p)"
  unfolding alive_def by (intro keeps_bindE up_keeps) (auto intro!: keeps_ret keeps_bindE up_keeps)

lemma up_open_for [up_keeps]: "keeps bridge_up (open_for_log f p)"
  unfolding open_for_log_def by (intro keeps_seqE up_keeps)

lemma up_start [up_keeps]: "keeps bridge_up (start_vfio_user_pkt_sniffer ev root_dir pcap slog sock)"
  unfolding start_vfio_user_pkt_sniffer_def Let_def
  by (intro keeps_seqE keeps_tryE keeps_bindE keeps_if keeps_ret up_keeps) simp_all

lemma up_wireshark [up_keeps]: "keeps bridge_up (launch_wireshark ev dir h)"
  unfolding launch_wireshark_def Let_def
  by (intro keeps_seqE keeps_tryE keeps_bindE keeps_if keeps_ret keeps_getE keeps_whenE keeps_ignoring keeps_raise
      up_keeps) simp_all

lemma up_start_sniffer [up_keeps]: "keeps bridge_up (start_sniffer ev root_dir paths)"
  unfolding start_sniffer_def
  by (intro keeps_bindE up_keeps) (auto split: option.splits intro!: keeps_bindE keeps_ret up_keeps)

text \<open>
  C40. What comes between the start of the bridge and the guarded part is not guarded: when QEMU cannot be
  started (or the start of the sniffer raises), the run ends with the exception, the bridge keeps running
  and the log stays open.
\<close>

theorem failed_start_leaks_bridge:
  assumes "\<And>h. ev h (Spawn Qemu cmd) = Fails e"
    and "Bridge \<in> running s" and "Backend_Log \<in> open_files s"
  shows "(\<exists>e'. fst (run_with_guest ev args root_dir n paths cmd want_sniffer want_debug k s) = Inl e') \<and>
    Bridge \<in> running (snd (run_with_guest ev args root_dir n paths cmd want_sniffer want_debug k s)) \<and>
    Backend_Log \<in> open_files (snd (run_with_guest ev args root_dir n paths cmd want_sniffer want_debug k s))"
proof -
  let ?first = "if want_sniffer then start_sniffer ev root_dir paths else ret None"
  have "keeps bridge_up ?first" by (intro keeps_if keeps_ret up_keeps)
  then have "bridge_up (snd (?first s))"
    using assms(2,3) by (simp add: keeps_def bridge_up_def)
  moreover have "spawn ev Qemu cmd s1 = (Inl e, s1\<lparr>ops := ops s1 @ [Spawn Qemu cmd]\<rparr>)" for s1
    using assms(1) by (simp add: spawn_def act_def perform_def prog_simps)
  ultimately show ?thesis
    by (cases "?first s"; cases "fst (?first s)")
      (auto simp: run_with_guest_def bindE_def bridge_up_def)
qed

definition no_qemu :: env where
  "no_qemu h c = (case c of Spawn Qemu _ \<Rightarrow> Fails OSError | _ \<Rightarrow> Answer 0 [])"

definition demo_paths :: agent_paths where
  "demo_paths = resolve_relative_paths ''/p'' ''/'' ''/'' ''/home/u'' (host no_agent)"

theorem failed_start_leaks_bridge_witness:
  "Bridge \<in> running (snd (run_with_guest no_qemu demo_args ''/p'' 7 demo_paths ''qemu'' False False ''/k''
     (no_agent\<lparr>running := {Bridge}, open_files := {Backend_Log}\<rparr>)))"
proof -
  have "no_qemu h (Spawn Qemu ''qemu'') = Fails OSError" for h
    by (simp add: no_qemu_def)
  from failed_start_leaks_bridge [where ev = no_qemu and cmd = "''qemu''" and e = OSError, OF this,
      of "no_agent\<lparr>running := {Bridge}, open_files := {Backend_Log}\<rparr>"]
  show ?thesis by simp
qed

section \<open>The handshake: properties\<close>

text \<open>The looks at the log: after \<open>k\<close> rounds, that many reads and pauses have been made.\<close>

definition rounds :: "nat \<Rightarrow> op list" where
  "rounds k = concat (replicate k [Read_Log, Pause 500])"

definition sees_ready :: "env \<Rightarrow> op list \<Rightarrow> nat \<Rightarrow> bool" where
  "sees_ready ev h n = list_ex (\<lambda>k. contains ready_message (text_of ev (h @ rounds k) Read_Log)) [0..<n]"

lemma sees_ready_Suc:
  "sees_ready ev h (Suc n) \<longleftrightarrow>
     contains ready_message (text_of ev h Read_Log) \<or> sees_ready ev (h @ [Read_Log, Pause 500]) n"
proof -
  have "[0..<Suc n] = 0 # map Suc [0..<n]" by (simp add: upt_conv_Cons map_Suc_upt del: upt_Suc)
  then have "sees_ready ev h (Suc n) \<longleftrightarrow>
      list_ex (\<lambda>k. contains ready_message (text_of ev (h @ rounds k) Read_Log)) (0 # map Suc [0..<n])"
    by (simp only: sees_ready_def)
  then show ?thesis
    by (auto simp: sees_ready_def rounds_def list_ex_iff simp del: upt_Suc image_Suc_atLeastLessThan)
qed

lemma handshake_sees:
  assumes "works ev (Pause 500)" and "works ev Read_Log" and "path_exists (host s) p"
  shows "\<exists>s'. handshake n ev p s = (Inr (sees_ready ev (ops s) n), s')"
  using assms(3)
proof (induction n arbitrary: s)
  case 0
  then show ?case by (simp add: ret_def sees_ready_def)
next
  case (Suc n)
  let ?s1 = "s\<lparr>ops := ops s @ [Read_Log]\<rparr>"
  let ?s2 = "?s1\<lparr>ops := ops s @ [Read_Log, Pause 500]\<rparr>"
  have "\<exists>k. ev (ops s) Read_Log = Answer k (text_of ev (ops s) Read_Log)"
    using assms(2) by (cases "ev (ops s) Read_Log") (auto simp: works_def text_of_def)
  then have read: "\<exists>k. perform ev Read_Log s = (Inr (k, text_of ev (ops s) Read_Log), ?s1)"
    by (auto simp: perform_def)
  have pause: "pause ev 500 ?s1 = (Inr (), ?s2)"
    using assms(1)
    by (cases "ev (ops s @ [Read_Log]) (Pause 500)")
      (auto simp: works_def pause_def act_def perform_def prog_simps)
  have ih: "\<exists>s'. handshake n ev p ?s2 = (Inr (sees_ready ev (ops s @ [Read_Log, Pause 500]) n), s')"
    using Suc.IH [of ?s2] Suc.prems by simp
  show ?case
  proof (cases "contains ready_message (text_of ev (ops s) Read_Log)")
    case True
    then show ?thesis
      using read Suc.prems by (auto simp: prog_simps sees_ready_Suc)
  next
    case False
    then have "handshake (Suc n) ev p s = handshake n ev p ?s2"
      using read Suc.prems pause by (auto simp: prog_simps)
    then show ?thesis using ih False by (simp add: sees_ready_Suc)
  qed
qed

text \<open>
  C17. Waiting for the bridge ends after at most thirty looks at its log, half a second apart. It says yes
  exactly when one of them shows the message of a ready simulation; otherwise the bridge has been forced
  to end and the log is closed.
\<close>

theorem sync_bridge_outcome:
  assumes "works ev (Pause 500)" and "works ev Read_Log" and "works ev (Terminate Bridge)"
    and "path_exists (host s) log_path"
  shows "fst (sync_bridge ev log_path s) = Inr (sees_ready ev (ops s) 30) \<and>
    (sees_ready ev (ops s) 30 \<or>
      Bridge \<notin> running (snd (sync_bridge ev log_path s)) \<and>
      Backend_Log \<notin> open_files (snd (sync_bridge ev log_path s)))"
proof -
  obtain s1 where hs: "handshake 30 ev log_path s = (Inr (sees_ready ev (ops s) 30), s1)"
    using handshake_sees [OF assms(1,2,4)] by blast
  note hs' = bindE_Inr [where m = "handshake 30 ev log_path", OF hs]
  have pause: "fst (seqE (pause ev 500) (ret True) s1) = Inr True"
    using assms(1)
    by (cases "ev (ops s1) (Pause 500)") (auto simp: works_def pause_def act_def perform_def prog_simps)
  have stop: "seqs [terminate ev Bridge, close_log Backend_Log] s1 =
      (Inr (), s1\<lparr>ops := ops s1 @ [Terminate Bridge], running := running s1 - {Bridge},
        open_files := open_files s1 - {Backend_Log}\<rparr>)"
    using assms(3)
    by (cases "ev (ops s1) (Terminate Bridge)")
      (auto simp: works_def terminate_def act_def perform_def gone_def close_log_def prog_simps)
  show ?thesis
  proof (cases "sees_ready ev (ops s) 30")
    case True
    then show ?thesis
      using pause by (cases "seqE (pause ev 500) (ret True) s1") (simp add: sync_bridge_def tryE_def hs')
  next
    case False
    then show ?thesis
      using stop by (simp add: sync_bridge_def tryE_def hs' raise_def seqE_Inr ret_def del: seqs.simps)
  qed
qed

theorem sync_bridge_outcome_witness:
  "Bridge \<notin> running (snd (sync_bridge quiet_env ''/logs'' ((sniffer_host [])\<lparr>running := {Bridge}\<rparr>)))"
proof -
  have facts: "works quiet_env (Pause 500)" "works quiet_env Read_Log" "works quiet_env (Terminate Bridge)"
    by (simp_all add: works_def quiet_env_def)
  have "path_exists (host ((sniffer_host [])\<lparr>running := {Bridge}\<rparr>)) ''/logs''"
    by (simp add: sniffer_host_def path_exists_def stat_def at_def max_links_def numeral_eq_Suc)
  moreover have "\<not> sees_ready quiet_env (ops ((sniffer_host [])\<lparr>running := {Bridge}\<rparr>)) 30"
    by (simp add: sees_ready_def list_ex_iff text_of_def quiet_env_def ready_message_def)
  ultimately show ?thesis
    using sync_bridge_outcome [OF facts] by blast
qed

end
