(* ===== verification/Agent_Threads.thy ===== *)
theory Agent_Threads
  imports Agent_Drain Agent_Main
begin

text \<open>
  The two threads of the agent and the bridge, as far as they share the bridge's output and its log
  (\<open>run_pcie_agent.py\<close>, lines 305 to 329, 757 to 790 and 910 to 949). The drainer reads the output and writes
  the log; \<open>main\<close> looks into the log for the ready message, and at the end reads the output itself
  (\<open>bridge.expect(pexpect.EOF)\<close>) and closes the log, while the drainer, a daemon thread that is never joined, may still run.
\<close>

section \<open>The shared state\<close>

datatype drainer = Reading | Writing "nat list" | Stopped | Crashed exn

text \<open>\<open>main\<close> has some looks into the log left, runs the guest, reaps the bridge, or has closed the log.\<close>

datatype main_thread = Syncing nat | Running | Reaping | Closed

text \<open>
  \<open>log_text\<close> is the text in the log, a file in UTF-8. \<open>written\<close> and \<open>drained\<close> record what the bridge has written and what the drainer has read, in blocks.
\<close>

record shared =
  stream :: "byte list list"
  bridge_up :: bool
  log_text :: "nat list"
  log_open :: bool
  drainer_at :: drainer
  main_at :: main_thread
  written :: "byte list list"
  drained :: "byte list list"

definition started :: shared where
  "started =
     \<lparr>stream = [], bridge_up = True, log_text = [], log_open = True, drainer_at = Reading, main_at = Syncing 30,
      written = [], drained = []\<rparr>"

section \<open>Steps\<close>

definition clean_block :: "byte list \<Rightarrow> nat list" where
  "clean_block data = strip_ansi (decode_utf8 data)"

definition shows_ready :: "nat list \<Rightarrow> bool" where
  "shows_ready t = sublist (codes ready_message) t"

inductive drainer_step :: "shared \<Rightarrow> shared \<Rightarrow> bool" where
  reads: "drainer_at s = Reading \<Longrightarrow> stream s = c # cs \<Longrightarrow> clean_block c \<noteq> [] \<Longrightarrow>
    drainer_step s (s\<lparr>stream := cs, drained := drained s @ [c], drainer_at := Writing (clean_block c)\<rparr>)"
| skips: "drainer_at s = Reading \<Longrightarrow> stream s = c # cs \<Longrightarrow> clean_block c = [] \<Longrightarrow>
    drainer_step s (s\<lparr>stream := cs, drained := drained s @ [c]\<rparr>)"
| writes: "drainer_at s = Writing t \<Longrightarrow> log_open s \<Longrightarrow>
    drainer_step s (s\<lparr>log_text := log_text s @ t, drainer_at := Reading\<rparr>)"
| crashes: "drainer_at s = Writing t \<Longrightarrow> \<not> log_open s \<Longrightarrow>
    drainer_step s (s\<lparr>drainer_at := Crashed ValueError\<rparr>)"
| ends: "drainer_at s = Reading \<Longrightarrow> stream s = [] \<Longrightarrow> \<not> bridge_up s \<Longrightarrow>
    drainer_step s (s\<lparr>drainer_at := Stopped\<rparr>)"

inductive main_step :: "shared \<Rightarrow> shared \<Rightarrow> bool" where
  sees: "main_at s = Syncing (Suc n) \<Longrightarrow> shows_ready (log_text s) \<Longrightarrow>
    main_step s (s\<lparr>main_at := Running\<rparr>)"
| waits: "main_at s = Syncing (Suc n) \<Longrightarrow> \<not> shows_ready (log_text s) \<Longrightarrow>
    main_step s (s\<lparr>main_at := Syncing n\<rparr>)"
| gives_up: "main_at s = Syncing 0 \<Longrightarrow>
    main_step s (s\<lparr>bridge_up := False, log_open := False, main_at := Closed\<rparr>)"
| tears_down: "main_at s = Running \<Longrightarrow> main_step s (s\<lparr>main_at := Reaping\<rparr>)"
| takes: "main_at s = Reaping \<Longrightarrow> stream s = c # cs \<Longrightarrow> main_step s (s\<lparr>stream := cs\<rparr>)"
| kills: "main_at s = Reaping \<Longrightarrow> main_step s (s\<lparr>bridge_up := False\<rparr>)"
| closes: "main_at s = Reaping \<Longrightarrow> \<not> bridge_up s \<Longrightarrow> main_step s (s\<lparr>log_open := False, main_at := Closed\<rparr>)"

inductive bridge_step :: "shared \<Rightarrow> shared \<Rightarrow> bool" where
  outputs: "bridge_up s \<Longrightarrow> bridge_step s (s\<lparr>stream := stream s @ [c], written := written s @ [c]\<rparr>)"
| exits: "bridge_up s \<Longrightarrow> bridge_step s (s\<lparr>bridge_up := False\<rparr>)"

inductive step :: "shared \<Rightarrow> shared \<Rightarrow> bool" where
  drainer: "drainer_step s t \<Longrightarrow> step s t"
| main: "main_step s t \<Longrightarrow> step s t"
| bridge: "bridge_step s t \<Longrightarrow> step s t"

inductive reachable :: "shared \<Rightarrow> bool" where
  start: "reachable started"
| after: "reachable s \<Longrightarrow> step s t \<Longrightarrow> reachable t"

inductive_cases drainer_stepE: "drainer_step s t"
inductive_cases main_stepE: "main_step s t"
inductive_cases bridge_stepE: "bridge_step s t"
inductive_cases stepE: "step s t"

section \<open>What the threads keep\<close>

definition cleaned :: "byte list list \<Rightarrow> nat list" where
  "cleaned blocks = concat (map clean_block blocks)"

lemma cleaned_simps [simp]: "cleaned [] = []" "cleaned (c # cs) = clean_block c @ cleaned cs"
    "cleaned (cs @ ds) = cleaned cs @ cleaned ds"
  by (simp_all add: cleaned_def)

text \<open>What the drainer has in hand is behind what is in the log.\<close>

definition log_ok :: "shared \<Rightarrow> bool" where
  "log_ok s \<longleftrightarrow>
     (case drainer_at s of
        Writing t \<Rightarrow> log_text s @ t = cleaned (drained s)
      | Crashed e \<Rightarrow> e = ValueError \<and> \<not> log_open s \<and> prefix (log_text s) (cleaned (drained s))
      | _ \<Rightarrow> log_text s = cleaned (drained s))"

definition stream_ok :: "shared \<Rightarrow> bool" where
  "stream_ok s \<longleftrightarrow>
     subseq (drained s @ stream s) (written s) \<and>
     (case main_at s of Syncing _ \<Rightarrow> drained s @ stream s = written s | Running \<Rightarrow> drained s @ stream s = written s | _ \<Rightarrow> True)"

definition main_ok :: "shared \<Rightarrow> bool" where
  "main_ok s \<longleftrightarrow>
     (log_open s \<longleftrightarrow> main_at s \<noteq> Closed) \<and> (main_at s = Closed \<longrightarrow> \<not> bridge_up s) \<and>
     (main_at s = Running \<or> main_at s = Reaping \<longrightarrow> shows_ready (log_text s))"

lemma ready_append: "shows_ready t \<Longrightarrow> shows_ready (t @ u)"
  unfolding shows_ready_def sublist_def by (metis append_assoc)

lemma log_ok_step: "step s t \<Longrightarrow> log_ok s \<Longrightarrow> log_ok t"
  by (auto simp: log_ok_def elim!: stepE drainer_stepE main_stepE bridge_stepE split: drainer.splits dest: sym)

lemma stream_ok_step:
  assumes "step s t" and "stream_ok s"
  shows "stream_ok t"
  using assms(1)
proof (rule stepE)
  assume "main_step s t"
  then show ?thesis
  proof (rule main_stepE)
    fix c cs assume "t = s\<lparr>stream := cs\<rparr>" "main_at s = Reaping" "stream s = c # cs"
    moreover have "subseq (drained s @ cs) (drained s @ c # cs)" by (simp add: list_emb_Cons subseq_append')
    ultimately show ?thesis using assms(2) by (auto simp: stream_ok_def elim: subseq_order.trans)
  qed (use assms(2) in \<open>auto simp: stream_ok_def split: main_thread.splits\<close>)
next
  assume "drainer_step s t"
  then show ?thesis
    by (rule drainer_stepE) (use assms(2) in \<open>auto simp: stream_ok_def split: main_thread.splits\<close>)
next
  assume "bridge_step s t"
  then show ?thesis
  proof (rule bridge_stepE)
    fix c assume "t = s\<lparr>stream := stream s @ [c], written := written s @ [c]\<rparr>"
    then show ?thesis
      using assms(2) list_emb_append_mono [of "(=)" "drained s @ stream s" "written s" "[c]" "[c]"]
      by (auto simp: stream_ok_def split: main_thread.splits)
  qed (use assms(2) in \<open>auto simp: stream_ok_def split: main_thread.splits\<close>)
qed

lemma main_ok_step: "step s t \<Longrightarrow> main_ok s \<Longrightarrow> main_ok t"
  by (auto simp: main_ok_def ready_append elim!: stepE drainer_stepE main_stepE bridge_stepE)

lemma reachable_ok: "reachable s \<Longrightarrow> log_ok s \<and> stream_ok s \<and> main_ok s"
proof (induction rule: reachable.induct)
  case start
  show ?case by (simp add: started_def log_ok_def stream_ok_def main_ok_def)
next
  case (after s t)
  then show ?case using log_ok_step stream_ok_step main_ok_step by blast
qed

lemma cleaned_scalar: "list_all scalar (cleaned cs)"
proof -
  have "scalar x" if "x \<in> set (clean_block c)" for x c
    using that strip_set [of "decode_utf8 c"] decode_scalar [of c] by (auto simp: clean_block_def list_all_iff)
  then show ?thesis by (auto simp: cleaned_def list_all_iff)
qed



text \<open>A run in which the drainer is overtaken: it holds a block when \<open>main\<close> gives up and closes the log.\<close>

lemma look_away:
  assumes "reachable s" and "main_at s = Syncing (n + m)" and "\<not> shows_ready (log_text s)"
  shows "reachable (s\<lparr>main_at := Syncing m\<rparr>)"
  using assms
proof (induction n arbitrary: s)
  case 0
  then have "s\<lparr>main_at := Syncing m\<rparr> = s" by simp
  then show ?case using 0(1) by (simp only:)
next
  case (Suc n)
  let ?t = "s\<lparr>main_at := Syncing (n + m)\<rparr>"
  have "step s ?t" using Suc.prems by (intro step.main main_step.waits) simp_all
  with Suc.prems(1) have "reachable ?t" by (rule reachable.after)
  from Suc.IH [OF this] Suc.prems show ?case by simp
qed

lemma clean_x: "clean_block [0x78] = [0x78]"
  by (simp add: clean_block_def utf8_char_def match_ansi_first match_first_def escape_def is_c1_def)

definition late_block :: shared where
  "late_block =
     \<lparr>stream = [], bridge_up = False, log_text = [], log_open = False, drainer_at = Crashed ValueError, main_at = Closed,
      written = [[0x78]], drained = [[0x78]]\<rparr>"

lemma late_block_reachable: "reachable late_block"
proof -
  have strip: "clean_block [0x78] = [0x78]" by (rule clean_x)
  have no: "\<not> shows_ready []" by (simp add: shows_ready_def codes_def ready_message_def)
  let ?s0 = "started\<lparr>main_at := Syncing 0\<rparr>"
  have 0: "reachable ?s0"
    using look_away [OF reachable.start, of 30 0] no by (simp add: started_def)
  let ?s1 = "?s0\<lparr>stream := [[0x78]], written := [[0x78]]\<rparr>"
  have "bridge_step ?s0 (?s0\<lparr>stream := stream ?s0 @ [[0x78]], written := written ?s0 @ [[0x78]]\<rparr>)"
    by (rule bridge_step.outputs) (simp add: started_def)
  then have 1: "reachable ?s1" using reachable.after [OF 0 step.bridge] by (simp add: started_def)
  let ?s2 = "?s1\<lparr>stream := [], drained := [[0x78]], drainer_at := Writing [0x78]\<rparr>"
  have "drainer_step ?s1 (?s1\<lparr>stream := [], drained := drained ?s1 @ [[0x78]], drainer_at := Writing (clean_block [0x78])\<rparr>)"
    by (rule drainer_step.reads) (simp_all add: started_def strip del: clean_block_def)
  then have 2: "reachable ?s2" using reachable.after [OF 1 step.drainer] by (simp add: started_def strip del: clean_block_def)
  let ?s3 = "?s2\<lparr>bridge_up := False, log_open := False, main_at := Closed\<rparr>"
  have "main_step ?s2 ?s3" by (rule main_step.gives_up) (simp add: started_def)
  then have 3: "reachable ?s3" by (rule reachable.after [OF 2 step.main])
  have "drainer_step ?s3 (?s3\<lparr>drainer_at := Crashed ValueError\<rparr>)"
    by (rule drainer_step.crashes [where t = "[0x78]"]) simp_all
  then have "reachable (?s3\<lparr>drainer_at := Crashed ValueError\<rparr>)" by (rule reachable.after [OF 3 step.drainer])
  then show ?thesis by (simp add: started_def late_block_def)
qed


section \<open>The drainer ends\<close>

text \<open>How many steps the drainer still has once the bridge is gone.\<close>

definition work :: "shared \<Rightarrow> nat" where
  "work s =
     (case drainer_at s of
        Reading \<Rightarrow> 2 * length (stream s) + 1
      | Writing _ \<Rightarrow> 2 * length (stream s) + 2
      | _ \<Rightarrow> 0)"

lemma drainer_step_work: "drainer_step s t \<Longrightarrow> work t < work s"
  by (auto simp: work_def elim!: drainer_stepE)

lemma drainer_step_bridge: "drainer_step s t \<Longrightarrow> bridge_up t = bridge_up s \<and> log_open t = log_open s"
  by (auto elim!: drainer_stepE)

lemma drainer_progress:
  assumes "\<not> bridge_up s" and "drainer_at s = Reading \<or> (\<exists>t. drainer_at s = Writing t)"
  shows "\<exists>u. drainer_step s u"
  using assms by (cases "stream s"; cases "clean_block (hd (stream s)) = []"; cases "log_open s")
    (force intro: drainer_step.intros)+

lemma drainer_left:
  "drainer_step s t \<Longrightarrow> log_open s \<Longrightarrow>
     log_text t @ (case drainer_at t of Writing x \<Rightarrow> x | _ \<Rightarrow> []) @ cleaned (stream t) =
     log_text s @ (case drainer_at s of Writing x \<Rightarrow> x | _ \<Rightarrow> []) @ cleaned (stream s)"
  by (auto elim!: drainer_stepE)

text \<open>
  C8. Once the bridge is gone, the drainer ends, however it is scheduled: of its own steps it takes at
  most two for each block left and two more, it can take one as long as it has not ended, and when the log is open
  it ends with everything that was left in the log.
\<close>

theorem drainer_ends:
  assumes "\<not> bridge_up s" and "(drainer_step ^^ n) s t"
  shows "n \<le> 2 * length (stream s) + 2 \<and>
    ((\<nexists>u. drainer_step t u) \<longrightarrow> drainer_at t = Stopped \<or> (\<exists>e. drainer_at t = Crashed e)) \<and>
    (log_open s \<and> drainer_at s = Reading \<and> drainer_at t = Stopped \<longrightarrow> log_text t = log_text s @ cleaned (stream s))"
proof -
  have run: "work t + n \<le> work s \<and> \<not> bridge_up t \<and> log_open t = log_open s \<and>
      (log_open s \<longrightarrow>
        log_text t @ (case drainer_at t of Writing x \<Rightarrow> x | _ \<Rightarrow> []) @ cleaned (stream t) =
        log_text s @ (case drainer_at s of Writing x \<Rightarrow> x | _ \<Rightarrow> []) @ cleaned (stream s))"
    using assms(2)
  proof (induction n arbitrary: t)
    case 0
    then show ?case using assms(1) by simp
  next
    case (Suc n)
    then obtain v where v: "(drainer_step ^^ n) s v" "drainer_step v t" by auto
    from Suc.IH [OF v(1)] drainer_step_work [OF v(2)] drainer_step_bridge [OF v(2)] drainer_left [OF v(2)]
    show ?case by auto
  qed
  have empty: "stream t = []" if "drainer_at t = Stopped" "drainer_at s = Reading"
    using assms(2) that
  proof (cases n)
    case (Suc k)
    then obtain v where "drainer_step v t" using assms(2) by auto
    then show ?thesis using that(1) by (auto elim!: drainer_stepE)
  qed simp
  have "work s \<le> 2 * length (stream s) + 2" by (simp add: work_def split: drainer.splits)
  moreover have "drainer_at t = Stopped \<or> (\<exists>e. drainer_at t = Crashed e)" if "\<nexists>u. drainer_step t u"
    using drainer_progress [of t] run that by (cases "drainer_at t") auto
  ultimately show ?thesis using run empty by auto
qed

text \<open>The steps do what the loop does: for blocks that are all there, and nothing else that moves.\<close>

lemma drainer_runs:
  assumes "drainer_at s = Reading" and "log_open s" and "\<not> bridge_up s"
  shows "\<exists>t n. (drainer_step ^^ n) s t \<and> drainer_at t = Stopped \<and> log_text t = log_text s @ cleaned (stream s)"
  using assms
proof (induction "stream s" arbitrary: s)
  case Nil
  then have "drainer_step s (s\<lparr>drainer_at := Stopped\<rparr>)" by (intro drainer_step.ends) simp_all
  then have "(drainer_step ^^ 1) s (s\<lparr>drainer_at := Stopped\<rparr>)" by (simp only: relpowp_1)
  then show ?case using Nil by (intro exI [of _ "s\<lparr>drainer_at := Stopped\<rparr>"] exI [of _ 1]) (simp flip: Nil(1))
next
  case (Cons c cs)
  let ?u = "s\<lparr>stream := cs, drained := drained s @ [c], log_text := log_text s @ clean_block c\<rparr>"
  have "\<exists>k. (drainer_step ^^ k) s ?u"
  proof (cases "clean_block c = []")
    case True
    have "drainer_step s (s\<lparr>stream := cs, drained := drained s @ [c]\<rparr>)"
      using Cons True by (intro drainer_step.skips) simp_all
    then have "(drainer_step ^^ 1) s ?u" using True by (simp add: relpowp_1 del: One_nat_def)
    then show ?thesis by blast
  next
    case False
    let ?v = "s\<lparr>stream := cs, drained := drained s @ [c], drainer_at := Writing (clean_block c)\<rparr>"
    have "drainer_step s ?v" using Cons False by (intro drainer_step.reads) simp_all
    moreover have "drainer_step ?v (?v\<lparr>log_text := log_text ?v @ clean_block c, drainer_at := Reading\<rparr>)"
      using Cons by (intro drainer_step.writes) simp_all
    ultimately have "(drainer_step ^^ 2) s (?v\<lparr>log_text := log_text ?v @ clean_block c, drainer_at := Reading\<rparr>)"
      by (auto simp: numeral_2_eq_2)
    moreover have "?v\<lparr>log_text := log_text ?v @ clean_block c, drainer_at := Reading\<rparr> = ?u" using Cons.prems(1) by simp
    ultimately show ?thesis by metis
  qed
  then obtain k where k: "(drainer_step ^^ k) s ?u" by blast
  obtain t n where t: "(drainer_step ^^ n) ?u t" "drainer_at t = Stopped" "log_text t = log_text ?u @ cleaned (stream ?u)"
    using Cons.hyps(1) [of ?u] Cons.prems by auto
  have "(drainer_step ^^ (k + n)) s t" using k t(1) by (auto simp: relpowp_add)
  then show ?case using t(2,3) Cons.hyps(2) by (intro exI [of _ t] exI [of _ "k + n"]) (simp flip: Cons.hyps(2))
qed

lemma drainer_implements_loop:
  assumes "drainer_at s = Reading" and "log_open s" and "\<not> bridge_up s"
  shows "\<exists>t n. (drainer_step ^^ n) s t \<and>
    continuous_line_drainer (map Data (stream s) @ [End_Of_File]) \<lparr>stdout = out, backend_log = encode_utf8 (log_text s)\<rparr> =
      (Ended, \<lparr>stdout = out @ cleaned (stream s), backend_log = encode_utf8 (log_text t)\<rparr>)"
proof -
  have "list_all (\<lambda>r. case r of Data _ \<Rightarrow> True | Timed_Out \<Rightarrow> True | _ \<Rightarrow> False) (map Data (stream s))"
    by (simp add: list_all_iff)
  moreover have "(\<lambda>x. strip_ansi (decode_utf8 x)) = clean_block" by (simp add: fun_eq_iff clean_block_def)
  ultimately show ?thesis
    using drainer_runs [OF assms] drainer_run [of "map Data (stream s)"]
    by (auto simp: Let_def cleaned_def comp_def)
qed

definition last_words :: shared where
  "last_words = started\<lparr>bridge_up := False, stream := [[0x78]]\<rparr>"

theorem drainer_ends_witness:
  "\<exists>t n. (drainer_step ^^ n) last_words t \<and> n \<le> 4 \<and> drainer_at t = Stopped \<and> log_text t = [0x78]"
proof -
  have facts: "drainer_at last_words = Reading" "log_open last_words" "\<not> bridge_up last_words"
    by (simp_all add: last_words_def started_def)
  obtain t n where t: "(drainer_step ^^ n) last_words t" "drainer_at t = Stopped" using drainer_runs [OF facts] by blast
  have "cleaned (stream last_words) = [0x78]" "length (stream last_words) = 1" "log_text last_words = []"
    by (simp_all add: last_words_def started_def cleaned_def clean_x)
  then show ?thesis using drainer_ends [OF facts(3) t(1)] facts t by auto
qed

end
