(* ===== verification/Setup_Access.thy ===== *)
theory Setup_Access
  imports Host
begin

text \<open>
  The last steps of \<open>workspace_setup.py\<close> (lines 423 to 543 and 841 to 935), which give the user access to
  the tools: the passwordless rules of the sniffer, the Wireshark plugin, the links into \<open>third_party\<close>,
  Wireshark's capture rights, the X resources, and KVM. They run on a machine that may have been set up
  before; the locale \<open>ensure\<close> states what that takes.

  \<open>home\<close> is what \<open>expanduser\<close> makes of a tilde. Commands run with \<open>sudo\<close> are programs of the machine like
  any other: their effect on the files is the shell's, and a theorem that needs one says which.
\<close>

section \<open>Steps that can be repeated\<close>

text \<open>
  A step that ensures something. \<open>tidy\<close> is what the step asks of the programs it runs. When its outcome is
  good, what it ensures is there; and where that is there already, it has a good outcome and changes no file.
\<close>

locale ensure =
  fixes tidy :: "shell \<Rightarrow> bool"
    and step :: "shell \<Rightarrow> (world, 'a) prog"
    and good :: "exn + 'a \<Rightarrow> bool"
    and ensured :: "world \<Rightarrow> bool"
  assumes ensures: "tidy sh \<Longrightarrow> step sh w = (r, w') \<Longrightarrow> good r \<Longrightarrow> ensured w'"
    and stays: "ensured w \<Longrightarrow> \<exists>r. step sh w = (r, w) \<and> good r"
begin

lemma again: "tidy sh \<Longrightarrow> good (fst (step sh w)) \<Longrightarrow>
    snd (step sh (snd (step sh w))) = snd (step sh w) \<and> good (fst (step sh (snd (step sh w))))"
  using ensures [of sh w "fst (step sh w)" "snd (step sh w)"] stays [of "snd (step sh w)" sh]
  by (metis fst_conv prod.collapse snd_conv)

lemma rerun: "tidy sh \<Longrightarrow> good (fst (step sh w)) \<Longrightarrow>
    ((\<lambda>v. snd (step sh v)) ^^ Suc n) w = snd (step sh w)"
proof (induction n)
  case 0
  then show ?case by simp
next
  case (Suc n)
  then show ?case using again [of sh w] by simp
qed

end

section \<open>X resources\<close>

definition bashrc_path :: "path \<Rightarrow> path" where
  "bashrc_path home = home @ ''/.bashrc''"

definition xrdb_cmd :: "path \<Rightarrow> string list" where
  "xrdb_cmd project_root = [''xrdb'', ''-merge'', project_root @ ''/tools/net/.Xresources'']"

definition has_xresources :: "string \<Rightarrow> bool" where
  "has_xresources content =
     list_ex (\<lambda>line. contains ''xrdb -merge'' line \<and> contains ''tools/net/.Xresources'' line) (text_lines content)"

text \<open>The lines are read where the file exists; the test that follows reads them in any case.\<close>

definition configure_x11_resources :: "path \<Rightarrow> path \<Rightarrow> shell \<Rightarrow> (world, unit) prog" where
  "configure_x11_resources home project_root sh =
     bindE (getE (\<lambda>w. path_exists w (bashrc_path home))) (\<lambda>there.
     bindE (if there then read_text (bashrc_path home) else raise (UnboundLocalError ''content'')) (\<lambda>content.
       if has_xresources content then ret ()
       else seqE
         (append_text (newline @ ''xrdb -merge '' @ project_root @ ''/tools/net/.Xresources'' @ newline) (bashrc_path home))
         (tryE (run_check sh (xrdb_cmd project_root) None) (\<lambda>e. e = CalledProcessError) (\<lambda>_. ret ()))))"

section \<open>The Wireshark plugin\<close>

definition plugin_dir :: "path \<Rightarrow> path" where
  "plugin_dir home = home @ ''/.config/wireshark/plugins''"

text \<open>\<open>shutil.copy2\<close> of a file; copying a link's target, as \<open>copy2\<close> does.\<close>

definition copy_file :: "path \<Rightarrow> path \<Rightarrow> (world, unit) prog" where
  "copy_file src dst = bindE (read_text src) (\<lambda>c. write_text c dst)"

definition configure_vfio_user_dissector :: "path \<Rightarrow> path \<Rightarrow> (world, unit) prog" where
  "configure_vfio_user_dissector home project_root_dir =
     (let source_lua = path_join (path_join (path_join project_root_dir ''tools'') ''net'') ''vfio_user.lua'';
          target_lua = path_join (plugin_dir home) ''vfio_user.lua''
      in bindE (getE (\<lambda>w. path_exists w target_lua)) (\<lambda>present.
         if present then ret ()
         else bindE (getE (\<lambda>w. path_exists w source_lua)) (\<lambda>there.
           if \<not> there then say ''Source plugin file missing from repository asset tree''
           else tryE (seqE (os_makedirs (plugin_dir home) True) (copy_file source_lua target_lua))
             is_Exception (\<lambda>_. say ''Failed to mirror plugin''))))"

section \<open>Links into \<open>third_party\<close>\<close>

definition links_to_verify :: "path \<Rightarrow> path \<Rightarrow> path \<Rightarrow> path \<Rightarrow> string list \<Rightarrow> (path \<times> path) list" where
  "links_to_verify project_root_dir tools_dir soc_dir os_dir selected_ids =
     [(path_join soc_dir ''openPCIE'',
       path_join (path_join (path_join project_root_dir ''third_party'') ''hw'') ''openPCIE''),
      (path_join tools_dir ''libvfio-user'',
       path_join (path_join (path_join project_root_dir ''third_party'') ''lib'') ''libvfio-user'')] @
     (if ''linux'' \<in> set selected_ids
      then [(path_join os_dir ''linux'', path_join (path_join (path_join project_root_dir ''third_party'') ''os'') ''linux'')]
      else [])"

definition verify_link :: "path \<times> path \<Rightarrow> (world, unit) prog" where
  "verify_link = (\<lambda>(target_path, symlink_path).
     seqE (os_makedirs (dirname symlink_path) True)
       (bindE (getE (\<lambda>w. islink w symlink_path)) (\<lambda>linked.
         if linked then ret ()
         else bindE (getE (\<lambda>w. path_exists w target_path)) (\<lambda>there.
           if there then os_symlink target_path symlink_path
           else say (''Cannot generate symbolic link. Target directory missing at: '' @ target_path)))))"

definition verify_project_symlinks ::
  "path \<Rightarrow> path \<Rightarrow> path \<Rightarrow> path \<Rightarrow> string list \<Rightarrow> (world, unit) prog" where
  "verify_project_symlinks project_root_dir tools_dir soc_dir os_dir selected_ids =
     forE (links_to_verify project_root_dir tools_dir soc_dir os_dir selected_ids) verify_link"

section \<open>The sniffer's sudo rules\<close>

definition sudoers_file :: path where
  "sudoers_file = ''/etc/sudoers.d/vfio_user_pkt_sniffer''"

text \<open>The user, and what a format string makes of \<open>None\<close>.\<close>

definition local_user :: "world \<Rightarrow> string option" where
  "local_user w = str_or (env w ''USER'') (env w ''LOGNAME'')"

definition show_str :: "string option \<Rightarrow> string" where
  "show_str v = (case v of None \<Rightarrow> ''None'' | Some s \<Rightarrow> s)"

definition exemption_rules :: "string option \<Rightarrow> path \<Rightarrow> string" where
  "exemption_rules user project_root =
     (let u = show_str user;
          sockdump_path = project_root @ ''/tools/net/sockdump.py'';
          pcap_file_path = project_root @ ''/logs/vfio-user.pcap''
      in u @ '' ALL=(ALL) NOPASSWD: /usr/bin/python3 '' @ sockdump_path @ '' *'' @ newline @
         u @ '' ALL=(ALL) NOPASSWD: /usr/bin/chown '' @ u @ raw ''!:'' @ u @ '' '' @ pcap_file_path @ newline @
         u @ '' ALL=(ALL) NOPASSWD: /usr/bin/chmod 664 '' @ pcap_file_path @ newline)"

definition cache_dir :: "path \<Rightarrow> path" where
  "cache_dir home = home @ ''/.config/vfio_user_pkt_sniffer''"

definition cache_file :: "path \<Rightarrow> path" where
  "cache_file home = path_join (cache_dir home) ''vfio_user_pkt_sniffer.cache''"

text \<open>\<open>IOError\<close> is \<open>OSError\<close>: everything the file operations raise.\<close>

definition read_cache :: "path \<Rightarrow> (world, string) prog" where
  "read_cache home =
     bindE (getE (\<lambda>w. path_exists w (cache_file home))) (\<lambda>there.
       if there then tryE (read_text (cache_file home)) is_Exception (\<lambda>_. ret []) else ret [])"

text \<open>The rules that are in place are read back when there is no cache.\<close>

definition fill_cache :: "path \<Rightarrow> shell \<Rightarrow> (world, unit) prog" where
  "fill_cache home sh =
     bindE (getE (\<lambda>w. path_exists w sudoers_file \<and> \<not> path_exists w (cache_file home))) (\<lambda>fill.
       whenE fill
         (tryE
           (bindE (run sh True [''sudo'', ''cat'', sudoers_file] None) (\<lambda>(_, out). write_text out (cache_file home)))
           (\<lambda>e. e = CalledProcessError) (\<lambda>_. ret ())))"

definition visudo_cmd :: "path \<Rightarrow> string list" where
  "visudo_cmd home = [''sudo'', ''visudo'', ''-c'', ''-f'', cache_file home]"

definition install_cmds :: "path \<Rightarrow> string list list" where
  "install_cmds home =
     [[''sudo'', ''cp'', cache_file home, sudoers_file],
      [''sudo'', ''chown'', ''root:root'', sudoers_file],
      [''sudo'', ''chmod'', ''0440'', sudoers_file]]"

text \<open>The check of the written rules, and the installation.\<close>

definition check_and_install :: "path \<Rightarrow> shell \<Rightarrow> (world, bool) prog" where
  "check_and_install home sh =
     bindE (run sh False (visudo_cmd home) None) (\<lambda>(returncode, _).
       if returncode \<noteq> 0 then
         bindE (getE (\<lambda>w. path_exists w (cache_file home))) (\<lambda>there.
           seqE (whenE there (os_remove (cache_file home))) (ret False))
       else seqE (forE (install_cmds home) (\<lambda>c. run_check sh c None)) (ret True))"

definition install_rules :: "path \<Rightarrow> string \<Rightarrow> shell \<Rightarrow> (world, bool) prog" where
  "install_rules home final_sudoers sh =
     tryE
       (seqE (seqs [os_makedirs (cache_dir home) True, write_text final_sudoers (cache_file home)]) (check_and_install home sh))
       (\<lambda>e. e = CalledProcessError) (\<lambda>_. ret False)"

definition configure_vfio_user_pkt_sniffer_sudo_exemption :: "path \<Rightarrow> path \<Rightarrow> shell \<Rightarrow> (world, bool) prog" where
  "configure_vfio_user_pkt_sniffer_sudo_exemption home project_root sh =
     bindE (getE (\<lambda>w. exemption_rules (local_user w) project_root)) (\<lambda>rules.
     bindE (os_makedirs (cache_dir home) True) (\<lambda>_.
     bindE (fill_cache home sh) (\<lambda>_.
     bindE (read_cache home) (\<lambda>cache_content.
       if contains rules cache_content then ret True
       else install_rules home (cache_content @ rules) sh))))"

section \<open>Capture rights of Wireshark\<close>

text \<open>
  The group database: the members of a group, if there is one. The import \<open>from getpass import getpass\<close>
  makes \<open>getpass\<close> a function, which has no attribute \<open>getuser\<close>.
\<close>

type_synonym groups = "string \<Rightarrow> string list option"

definition wireshark_user :: "(world, string) prog" where
  "wireshark_user =
     bindE (getE (\<lambda>w. (env w ''USER'', env w ''LOGNAME''))) (\<lambda>(u, l).
       case str_or u l of
         Some (c # cs) \<Rightarrow> ret (c # cs)
       | _ \<Rightarrow> raise (AttributeError ''getuser''))"

definition dumpcap :: path where
  "dumpcap = ''/usr/bin/dumpcap''"

definition in_group :: "groups \<Rightarrow> string \<Rightarrow> string \<Rightarrow> bool" where
  "in_group grp g u = (case grp g of Some ms \<Rightarrow> u \<in> set ms | None \<Rightarrow> False)"

definition capabilities_set :: "shell \<Rightarrow> (world, bool) prog" where
  "capabilities_set sh =
     bindE (getE (\<lambda>w. path_exists w dumpcap)) (\<lambda>there.
       if there then
         bindE (run sh False [''getcap'', dumpcap] None) (\<lambda>(_, out).
           ret (contains ''cap_net_admin'' out \<and> contains ''cap_net_raw'' out))
       else ret False)"

definition configure_wireshark_permissions :: "groups \<Rightarrow> shell \<Rightarrow> (world, unit) prog" where
  "configure_wireshark_permissions grp sh =
     bindE wireshark_user (\<lambda>user.
       tryE
         (let user_in_wireshark = in_group grp ''wireshark'' user;
              user_in_group = user_in_wireshark \<or> in_group grp ''sudo'' user
          in bindE (capabilities_set sh) (\<lambda>caps.
             if user_in_group \<and> caps then ret ()
             else seqs
               [whenE (grp ''wireshark'' = None) (run_check sh [''sudo'', ''groupadd'', ''-f'', ''wireshark''] None),
                whenE (\<not> user_in_wireshark) (run_check sh [''sudo'', ''usermod'', ''-aG'', ''wireshark'', user] None),
                bindE (getE (\<lambda>w. path_exists w dumpcap)) (\<lambda>there.
                  if there then
                    seqs [run_check sh [''sudo'', ''setcap'', ''CAP_NET_RAW+eip CAP_NET_ADMIN+eip'', dumpcap] None,
                          run_check sh [''sudo'', ''chmod'', ''+x'', dumpcap] None]
                  else say ''/usr/bin/dumpcap not found'')]))
         (\<lambda>e. e = CalledProcessError) (\<lambda>_. say ''Failed to configure Wireshark capabilities''))"

section \<open>KVM\<close>

text \<open>The permission bits are not part of the files here; they are given.\<close>

definition setup_kvm_permissions :: "(path \<Rightarrow> nat) \<Rightarrow> shell \<Rightarrow> (world, bool) prog" where
  "setup_kvm_permissions mode sh =
     bindE (getE (\<lambda>w. path_exists w ''/dev/kvm'')) (\<lambda>there.
       if \<not> there then ret False
       else tryE
         (if mode ''/dev/kvm'' = 438 then ret True
          else seqE (run_check sh [''sudo'', ''chmod'', ''0666'', ''/dev/kvm''] None) (ret True))
         (\<lambda>e. e = CalledProcessError) (\<lambda>_. ret False))"

section \<open>X resources: properties\<close>

text \<open>What a step asks of the programs it runs: they leave the files alone.\<close>

definition leaves_files :: "shell \<Rightarrow> string list \<Rightarrow> bool" where
  "leaves_files sh argv \<longleftrightarrow> (\<forall>l dir f rc out f'. sh l argv dir f = Some (rc, out, f') \<longrightarrow> f' = f)"

definition one_line_path :: "path \<Rightarrow> bool" where
  "one_line_path p \<longleftrightarrow> CHR 0x0A \<notin> set p \<and> CHR 0x0D \<notin> set p"

definition x11_ready :: "path \<Rightarrow> world \<Rightarrow> bool" where
  "x11_ready home w = (case stat w (bashrc_path home) of Some (File c) \<Rightarrow> has_xresources c | _ \<Rightarrow> False)"

lemma added_text_line:
  assumes "one_line_path l"
  shows "l \<in> set (text_lines (c @ newline @ l @ newline))"
proof -
  let ?m = "map (\<lambda>c. if c = CHR 0x0D then CHR 0x0A else c)"
  have "?m l = l" using assms by (intro map_idI) (auto simp: one_line_path_def)
  then show ?thesis
    using split_on_piece [of "CHR 0x0A" l "?m c" "[]"] assms
    by (simp add: text_lines_def newline_def one_line_path_def)
qed

lemma added_line:
  assumes "one_line_path root"
  shows "has_xresources (c @ newline @ ''xrdb -merge '' @ root @ ''/tools/net/.Xresources'' @ newline)"
proof -
  define l where "l = ''xrdb -merge '' @ root @ ''/tools/net/.Xresources''"
  have "one_line_path l" using assms by (simp add: l_def one_line_path_def)
  moreover have "contains ''xrdb -merge'' l"
    unfolding l_def by (intro contains_prefix) simp
  moreover have "contains ''tools/net/.Xresources'' l"
    using contains_later [OF contains_prefix, of "''tools/net/.Xresources''" "''tools/net/.Xresources''"
        "''xrdb -merge '' @ root @ ''/''"] by (simp add: l_def)
  ultimately have "has_xresources (c @ newline @ l @ newline)"
    using added_text_line by (auto simp: has_xresources_def list_ex_iff)
  then show ?thesis by (simp add: l_def)
qed

interpretation x11: ensure
  "\<lambda>sh. one_line_path root \<and> leaves_files sh (xrdb_cmd root)"
  "configure_x11_resources home root" "\<lambda>r. r = Inr ()" "x11_ready home"
proof unfold_locales
  fix sh and w :: world and r w'
  assume tidy: "one_line_path root \<and> leaves_files sh (xrdb_cmd root)"
    and run: "configure_x11_resources home root sh w = (r, w')" and ok: "r = Inr ()"
  have there: "path_exists w (bashrc_path home)"
    using run ok by (auto simp: configure_x11_resources_def prog_simps split: if_splits)
  obtain c where c: "stat w (bashrc_path home) = Some (File c)"
    using run ok there
    by (auto simp: configure_x11_resources_def prog_simps read_text_def split: if_splits option.splits node.splits)
  show "x11_ready home w'"
  proof (cases "has_xresources c")
    case True
    then show ?thesis
      using run there c by (simp add: configure_x11_resources_def prog_simps read_text_def x11_ready_def)
  next
    case False
    let ?add = "append_text (newline @ ''xrdb -merge '' @ root @ ''/tools/net/.Xresources'' @ newline) (bashrc_path home)"
    have main: "seqE ?add
        (tryE (run_check sh (xrdb_cmd root) None) (\<lambda>e. e = CalledProcessError) (\<lambda>_. ret ())) w = (r, w')"
      using run there c False by (simp add: configure_x11_resources_def bindE_def getE_def read_text_def)
    then obtain w1 where w1: "?add w = (Inr (), w1)"
      using ok by (cases "?add w") (auto simp: prog_simps split: sum.splits)
    have "x11_ready home w1"
      using stat_write(1) [OF w1 [unfolded append_text_def]] c added_line tidy by (auto simp: x11_ready_def)
    moreover have "fs w' = fs w1 \<and> cwd w' = cwd w1"
      using main w1 tidy
      by (auto simp: prog_simps run_check_def run_def leaves_files_def Let_def
          split: prod.splits sum.splits option.splits if_splits)
    ultimately show ?thesis using stat_cong [of w' w1] by (simp add: x11_ready_def)
  qed
next
  fix sh and w :: world
  assume ready: "x11_ready home w"
  then have there: "path_exists w (bashrc_path home)"
    by (auto simp: x11_ready_def path_exists_def split: option.splits)
  from ready show "\<exists>r. configure_x11_resources home root sh w = (r, w) \<and> r = Inr ()"
    using there
    by (auto simp: x11_ready_def configure_x11_resources_def prog_simps read_text_def
        split: option.splits node.splits)
qed

text \<open>
  The X resources are set up once: where a run has returned, any number of further runs adds nothing
  to the user's start file, if \<open>xrdb\<close> leaves the files alone.
\<close>

theorem x11_resources_once:
  assumes "one_line_path root" and "leaves_files sh (xrdb_cmd root)"
    and "fst (configure_x11_resources home root sh w) = Inr ()"
  shows "((\<lambda>v. snd (configure_x11_resources home root sh v)) ^^ Suc n) w =
    snd (configure_x11_resources home root sh w)"
  using assms by (intro x11.rerun) simp_all

text \<open>A shell in which every program succeeds and does nothing.\<close>

definition idle_shell :: shell where
  "idle_shell l argv dir f = Some (0, [], f)"

definition home_host :: "(path \<times> node) list \<Rightarrow> world" where
  "home_host files = \<lparr>fs = map_of ((''/h'', Dir) # files), cwd = ''/'', env = (\<lambda>_. None), log = []\<rparr>"

theorem x11_resources_once_witness:
  "((\<lambda>v. snd (configure_x11_resources ''/h'' ''/p'' idle_shell v)) ^^ Suc 4) (home_host [(''/h/.bashrc'', File [])]) =
     snd (configure_x11_resources ''/h'' ''/p'' idle_shell (home_host [(''/h/.bashrc'', File [])]))"
proof -
  have "one_line_path ''/p''" "leaves_files idle_shell (xrdb_cmd ''/p'')"
    by (simp_all add: one_line_path_def leaves_files_def idle_shell_def)
  moreover have "fst (configure_x11_resources ''/h'' ''/p'' idle_shell (home_host [(''/h/.bashrc'', File [])])) = Inr ()"
    by code_simp
  ultimately show ?thesis by (rule x11_resources_once)
qed

text \<open>
  On a machine without a start file the function does not create it: the name it tests is bound only
  where the file exists, and it raises.
\<close>

theorem x11_resources_without_bashrc:
  assumes "\<not> path_exists w (bashrc_path home)"
  shows "configure_x11_resources home root sh w = (Inl (UnboundLocalError ''content''), w)"
  using assms by (simp add: configure_x11_resources_def prog_simps)

theorem x11_resources_without_bashrc_witness:
  "configure_x11_resources ''/h'' ''/p'' idle_shell (home_host []) = (Inl (UnboundLocalError ''content''), home_host [])"
proof -
  have "\<not> path_exists (home_host []) (bashrc_path ''/h'')" by code_simp
  then show ?thesis by (rule x11_resources_without_bashrc)
qed

section \<open>The sudo rules: properties\<close>

text \<open>What is there when the rules are in place: the cache directory, and a cache that holds the rules.\<close>

definition rules_cached :: "path \<Rightarrow> path \<Rightarrow> world \<Rightarrow> bool" where
  "rules_cached home root w \<longleftrightarrow>
     isdir w (cache_dir home) \<and>
     (case stat w (cache_file home) of
        Some (File c) \<Rightarrow> contains (exemption_rules (local_user w) root) c
      | _ \<Rightarrow> False)"

definition sudo_cmds :: "path \<Rightarrow> string list list" where
  "sudo_cmds home = [''sudo'', ''cat'', sudoers_file] # visudo_cmd home # install_cmds home"

definition spares_cache :: "path \<Rightarrow> shell \<Rightarrow> bool" where
  "spares_cache home sh \<longleftrightarrow>
     normal_path (cache_dir home) \<and>
     (\<forall>argv \<in> set (sudo_cmds home). spares sh argv (cache_dir home) \<and> spares sh argv (cache_file home))"

lemma rules_nonempty: "\<not> contains (exemption_rules u root) []"
  by (simp add: exemption_rules_def newline_def Let_def)

lemma cache_paths:
  assumes "normal_path (cache_dir home)"
  shows "prefix ''/'' (cache_dir home)" "prefix ''/'' (cache_file home)"
  using assms by (auto simp: normal_path_def cache_file_def absolute_join)

text \<open>What \<open>write_text\<close> keeps of a directory, and leaves at its path.\<close>

lemma keeps_isdir_write: "keeps (\<lambda>w. isdir w d) (write_text t p)"
proof (rule keepsI)
  fix w :: world assume d: "isdir w d"
  show "isdir (snd (write_text t p w)) d"
  proof (cases "write_text t p w")
    case (Pair r w')
    show ?thesis
    proof (cases r)
      case (Inl e)
      then have "w' = w"
        using Pair by (auto simp: write_text_def write_with_def split: option.splits node.splits if_splits)
      then show ?thesis using d Pair by simp
    next
      case (Inr u)
      then show ?thesis
        using d Pair stat_write(2) [of "\<lambda>_. t" p w w' d] by (simp add: write_text_def isdir_def)
    qed
  qed
qed

text \<open>
  Installing, past \<open>visudo\<close>: whether the installation then succeeds or fails, the cache holds the text that
  was checked. It says yes only when \<open>visudo\<close> has accepted that text.
\<close>

definition accepts :: "shell \<Rightarrow> string list \<Rightarrow> bool" where
  "accepts sh argv \<longleftrightarrow> (\<forall>l dir f rc out f'. sh l argv dir f = Some (rc, out, f') \<longrightarrow> rc = 0)"

lemma rules_cached:
  assumes normal: "normal_path (cache_dir home)" and run: "install_rules home final sh w = (Inr b, w')"
    and checked: "b \<or> fst (os_makedirs (cache_dir home) True w) \<noteq> Inl CalledProcessError"
  obtains w2 where "isdir w2 (cache_dir home)" and "stat w2 (cache_file home) = Some (File final)" and "env w2 = env w"
    and "tryE (check_and_install home sh) (\<lambda>e. e = CalledProcessError) (\<lambda>_. ret False) w2 = (Inr b, w')"
proof -
  have calls: "throws (\<lambda>e. e \<noteq> CalledProcessError) (write_text final (cache_file home))"
    by (auto simp: throws_def write_text_def write_with_def split: option.splits node.splits if_splits)
  obtain w1 where w1: "os_makedirs (cache_dir home) True w = (Inr (), w1)"
    using run checked by (cases "os_makedirs (cache_dir home) True w")
      (auto simp: install_rules_def prog_simps split: prod.splits sum.splits if_splits)
  obtain w2 where w2: "write_text final (cache_file home) w1 = (Inr (), w2)"
    using run w1 throwsD [OF calls] by (cases "write_text final (cache_file home) w1")
      (auto simp: install_rules_def prog_simps split: prod.splits sum.splits if_splits)
  have "isdir w2 (cache_dir home)"
    using keepsD [OF keeps_isdir_write, of w1 "cache_dir home" final "cache_file home"]
      makedirs_isdir [OF normal w1] w2 by simp
  moreover have "stat w2 (cache_file home) = Some (File final)"
    using stat_write(1) [OF w2 [unfolded write_text_def]] by blast
  moreover have "env w2 = env w"
    using keeps_outcome [OF keeps_env_makedirs [of "\<lambda>e. e = env w"] _ w1]
      keeps_outcome [OF keeps_env(4) [of "\<lambda>e. e = env w"] _ w2 [unfolded write_text_def]] by simp
  moreover have "tryE (check_and_install home sh) (\<lambda>e. e = CalledProcessError) (\<lambda>_. ret False) w2 = (Inr b, w')"
    using run w1 w2 unfolding install_rules_def
    by (auto simp: tryE_def seqE_Inr ret_def split: prod.splits sum.splits if_splits)
  ultimately show ?thesis by (rule that)
qed

lemma rules_accepted:
  assumes rest: "tryE (check_and_install home sh) (\<lambda>e. e = CalledProcessError) (\<lambda>_. ret False) w2 = (Inr b, w')"
    and checked: "b \<or> accepts sh (visudo_cmd home)"
  obtains out w3 r where "run sh False (visudo_cmd home) None w2 = (Inr (0, out), w3)"
    and "forE (install_cmds home) (\<lambda>c. run_check sh c None) w3 = (r, w')"
proof (cases "sh (log w2) (visudo_cmd home) None (fs w2)")
  case None
  then show ?thesis using rest by (simp add: check_and_install_def prog_simps run_def)
next
  case (Some a)
  obtain rc out f' where a: "a = (rc, out, f')" by (cases a)
  have "rc = 0"
  proof (cases b)
    case True
    with rest Some a show ?thesis
      by (auto simp: check_and_install_def prog_simps run_def split: if_splits sum.splits prod.splits)
  next
    case False
    with checked Some a show ?thesis unfolding accepts_def by blast
  qed
  then obtain w3 where w3: "run sh False (visudo_cmd home) None w2 = (Inr (0, out), w3)"
    using Some a by (simp add: run_def Let_def)
  then obtain r where "forE (install_cmds home) (\<lambda>c. run_check sh c None) w3 = (r, w')"
    using rest by (cases "forE (install_cmds home) (\<lambda>c. run_check sh c None) w3")
      (auto simp: check_and_install_def tryE_def bindE_def seqE_def ret_def split: sum.splits if_splits)
  with w3 show ?thesis by (rule that)
qed

lemma install_rules_caches:
  assumes tidy: "spares_cache home sh" and run: "install_rules home final sh w = (Inr b, w')"
    and checked: "b \<or> accepts sh (visudo_cmd home) \<and> fst (os_makedirs (cache_dir home) True w) \<noteq> Inl CalledProcessError"
  shows "isdir w' (cache_dir home)" and "stat w' (cache_file home) = Some (File final)"
    and "env w' = env w"
proof -
  have normal: "normal_path (cache_dir home)" using tidy by (simp add: spares_cache_def)
  obtain w2 where d2: "isdir w2 (cache_dir home)" and c2: "stat w2 (cache_file home) = Some (File final)" and e2: "env w2 = env w"
    and rest: "tryE (check_and_install home sh) (\<lambda>e. e = CalledProcessError) (\<lambda>_. ret False) w2 = (Inr b, w')"
    using rules_cached [OF normal run] checked by blast
  obtain out w3 r where w3: "run sh False (visudo_cmd home) None w2 = (Inr (0, out), w3)"
    and install: "forE (install_cmds home) (\<lambda>c. run_check sh c None) w3 = (r, w')"
    using rules_accepted [OF rest] checked by blast
  have sp: "spares sh argv p" if "argv \<in> set (sudo_cmds home)" "p \<in> {cache_dir home, cache_file home}" for argv p
    using tidy that by (auto simp: spares_cache_def)
  have vis: "visudo_cmd home \<in> set (sudo_cmds home)" and ins: "c \<in> set (install_cmds home) \<Longrightarrow> c \<in> set (sudo_cmds home)" for c
    by (simp_all add: sudo_cmds_def)
  have keep: "P (stat w2 p) \<Longrightarrow> P (stat w' p)" if p: "p \<in> {cache_dir home, cache_file home}" for P p
  proof -
    assume "P (stat w2 p)"
    have abs: "prefix ''/'' p" using p cache_paths [of home] normal by auto
    have "P (stat w3 p)"
      by (rule keeps_outcome [where P = "\<lambda>w. P (stat w p)" and m = "run sh False (visudo_cmd home) None",
            OF keeps_run_spares(1) [OF sp [OF vis p] abs] \<open>P (stat w2 p)\<close> w3])
    moreover have "keeps (\<lambda>w. P (stat w p)) (forE (install_cmds home) (\<lambda>c. run_check sh c None))"
      by (intro keeps_forE keeps_run_spares(2) [OF sp [OF ins p] abs])
    ultimately show "P (stat w' p)" using install by (auto dest: keeps_outcome)
  qed
  show "isdir w' (cache_dir home)"
    using keep [of "cache_dir home" "\<lambda>n. n = Some Dir"] d2 by (simp add: isdir_def)
  show "stat w' (cache_file home) = Some (File final)"
    using keep [of "cache_file home" "\<lambda>n. n = Some (File final)"] c2 by simp
  have "env w3 = env w"
    by (rule keeps_outcome [OF keeps_env(6) [of "\<lambda>e. e = env w"] e2 w3])
  moreover have "keeps (\<lambda>v. env v = env w) (forE (install_cmds home) (\<lambda>c. run_check sh c None))"
    unfolding run_check_def by (intro keeps_forE keeps_bindE keeps_ret keeps_env)
  ultimately show "env w' = env w" using install by (auto dest: keeps_outcome)
qed

lemma keeps_isdir_run:
  assumes "spares sh argv d" "prefix ''/'' d"
  shows "keeps (\<lambda>w. isdir w d) (run sh chk argv dir)"
  unfolding isdir_def by (rule keeps_run_spares(1) [OF assms])

lemma keeps_fill_cache:
  assumes "spares_cache home sh"
  shows "keeps (\<lambda>w. isdir w (cache_dir home) \<and> P (env w)) (fill_cache home sh)"
proof -
  have sp: "spares sh [''sudo'', ''cat'', sudoers_file] (cache_dir home)" and abs: "prefix ''/'' (cache_dir home)"
    using assms cache_paths by (auto simp: spares_cache_def sudo_cmds_def)
  have 1: "keeps (\<lambda>w. isdir w (cache_dir home)) (fill_cache home sh)"
    unfolding fill_cache_def
    by (intro preserve keeps_isdir_write keeps_isdir_run sp abs) (auto intro!: preserve keeps_isdir_write split: prod.splits)
  have 2: "keeps (\<lambda>w. P (env w)) (fill_cache home sh)"
    unfolding fill_cache_def write_text_def
    by (intro preserve) (auto intro!: preserve split: prod.splits)
  from 1 2 show ?thesis by (simp add: keeps_def)
qed

lemma read_cache_run:
  assumes "read_cache home w = (r, w')"
  shows "w' = w" and "r = Inr c \<Longrightarrow> c \<noteq> [] \<Longrightarrow> stat w (cache_file home) = Some (File c)" 
  using assms by (auto simp: read_cache_def prog_simps read_text_def split: if_splits option.splits node.splits)

lemma exemption_run:
  assumes tidy: "spares_cache home sh"
    and run: "configure_vfio_user_pkt_sniffer_sudo_exemption home root sh w = (Inr b, w')"
  obtains v c where "isdir v (cache_dir home)" "env v = env w"
    "contains (exemption_rules (local_user w) root) c \<and> b \<and> w' = v \<and> stat v (cache_file home) = Some (File c) \<or>
     \<not> contains (exemption_rules (local_user w) root) c \<and>
       install_rules home (c @ exemption_rules (local_user w) root) sh v = (Inr b, w')"
proof -
  let ?rules = "exemption_rules (local_user w) root"
  have normal: "normal_path (cache_dir home)" using tidy by (simp add: spares_cache_def)
  obtain w1 where w1: "os_makedirs (cache_dir home) True w = (Inr (), w1)"
    using run by (cases "os_makedirs (cache_dir home) True w")
      (auto simp: configure_vfio_user_pkt_sniffer_sudo_exemption_def prog_simps split: sum.splits)
  have 1: "isdir w1 (cache_dir home)" "env w1 = env w"
    using makedirs_isdir [OF normal w1] keeps_outcome [OF keeps_env_makedirs [of "\<lambda>e. e = env w"] _ w1] by auto
  obtain w2 where w2: "fill_cache home sh w1 = (Inr (), w2)"
    using run w1 by (cases "fill_cache home sh w1")
      (auto simp: configure_vfio_user_pkt_sniffer_sudo_exemption_def prog_simps split: sum.splits)
  have 2: "isdir w2 (cache_dir home)" "env w2 = env w"
    using keeps_outcome [OF keeps_fill_cache [OF tidy, of "\<lambda>e. e = env w"] _ w2] 1 by auto
  obtain r w3 where r: "read_cache home w2 = (r, w3)" by (cases "read_cache home w2")
  have w3: "w3 = w2" by (rule read_cache_run(1) [OF r])
  obtain c where c: "r = Inr c"
    using run w1 w2 r by (cases r) (auto simp: configure_vfio_user_pkt_sniffer_sudo_exemption_def bindE_def getE_def)
  have rest: "(if contains ?rules c then ret True else install_rules home (c @ ?rules) sh) w2 = (Inr b, w')"
    using run w1 w2 r w3 c by (simp add: configure_vfio_user_pkt_sniffer_sudo_exemption_def bindE_def getE_def)
  show ?thesis
  proof (cases "contains ?rules c")
    case True
    then have "c \<noteq> []" using rules_nonempty by auto
    with read_cache_run(2) [OF r c] True rest 2 show ?thesis
      by (intro that [of w2 c]) (simp_all add: ret_def)
  next
    case False
    with rest 2 show ?thesis by (intro that [of w2 c]) simp_all
  qed
qed

interpretation sudoers: ensure "spares_cache home"
  "configure_vfio_user_pkt_sniffer_sudo_exemption home root" "\<lambda>r. r = Inr True" "rules_cached home root"
proof unfold_locales
  fix sh and w :: world and r w'
  assume tidy: "spares_cache home sh"
    and run: "configure_vfio_user_pkt_sniffer_sudo_exemption home root sh w = (r, w')" and ok: "r = Inr True"
  let ?rules = "exemption_rules (local_user w) root"
  obtain v c where v: "isdir v (cache_dir home)" "env v = env w"
    "contains ?rules c \<and> w' = v \<and> stat v (cache_file home) = Some (File c) \<or>
       install_rules home (c @ ?rules) sh v = (Inr True, w')"
    using exemption_run [OF tidy] run ok by metis
  from v(3) show "rules_cached home root w'"
  proof (elim disjE conjE)
    assume "install_rules home (c @ ?rules) sh v = (Inr True, w')"
    from install_rules_caches [OF tidy this] show ?thesis
      using v(2) contains_later [OF contains_prefix, of ?rules ?rules c]
      by (simp add: rules_cached_def local_user_def)
  qed (use v in \<open>simp add: rules_cached_def local_user_def\<close>)
next
  fix sh and w :: world
  assume ready: "rules_cached home root w"
  then have "isdir w (cache_dir home)" "path_exists w (cache_file home)"
    by (auto simp: rules_cached_def path_exists_def split: option.splits)
  with ready show "\<exists>r. configure_vfio_user_pkt_sniffer_sudo_exemption home root sh w = (r, w) \<and> r = Inr True"
    by (auto simp: rules_cached_def configure_vfio_user_pkt_sniffer_sudo_exemption_def makedirs_there
        fill_cache_def read_cache_def read_text_def prog_simps split: option.splits node.splits)
qed

lemma failed_install_cached:
  assumes "spares_cache home sh" and "accepts sh (visudo_cmd home)"
    and "configure_vfio_user_pkt_sniffer_sudo_exemption home root sh w = (Inr b, w')"
  shows "rules_cached home root w'"
proof -
  let ?rules = "exemption_rules (local_user w) root"
  obtain v c where v: "isdir v (cache_dir home)" "env v = env w"
    "contains ?rules c \<and> w' = v \<and> stat v (cache_file home) = Some (File c) \<or>
       install_rules home (c @ ?rules) sh v = (Inr b, w')"
    using exemption_run [OF assms(1)] assms(3) by metis
  from v(3) show "rules_cached home root w'"
  proof (elim disjE conjE)
    assume run: "install_rules home (c @ ?rules) sh v = (Inr b, w')"
    have "b \<or> accepts sh (visudo_cmd home) \<and> fst (os_makedirs (cache_dir home) True v) \<noteq> Inl CalledProcessError"
      using assms(2) makedirs_there [OF v(1)] by simp
    from install_rules_caches [OF assms(1) run this] show ?thesis
      using v(2) contains_later [OF contains_prefix, of ?rules ?rules c]
      by (simp add: rules_cached_def local_user_def)
  qed (use v in \<open>simp add: rules_cached_def local_user_def\<close>)
qed

definition rejects :: "shell \<Rightarrow> string list \<Rightarrow> bool" where
  "rejects sh argv \<longleftrightarrow> (\<forall>l dir f rc out f'. sh l argv dir f = Some (rc, out, f') \<longrightarrow> rc \<noteq> 0)"

lemma keeps_after_rejection:
  assumes "rejects sh argv" and "keeps P (run sh False argv dir)"
    and "\<And>rc out. rc \<noteq> 0 \<Longrightarrow> keeps P (f (rc, out))"
  shows "keeps P (bindE (run sh False argv dir) f)"
proof (rule keepsI)
  fix w assume P: "P w"
  show "P (snd (bindE (run sh False argv dir) f w))"
  proof (cases "sh (log w) argv dir (fs w)")
    case None
    then show ?thesis using P by (simp add: prog_simps run_def)
  next
    case (Some a)
    obtain rc out f' where a: "a = (rc, out, f')" by (cases a)
    have "P (snd (run sh False argv dir w))" using assms(2) P by (rule keepsD)
    moreover have "rc \<noteq> 0" using assms(1) Some a unfolding rejects_def by blast
    ultimately show ?thesis
      using Some a assms(3) [of rc out] by (simp add: bindE_def run_def Let_def keeps_def)
  qed
qed

lemma install_not_before: "c \<in> set (install_cmds home) \<Longrightarrow> c \<noteq> visudo_cmd home \<and> c \<noteq> [''sudo'', ''cat'', sudoers_file]"
  by (auto simp: install_cmds_def visudo_cmd_def)

lemma keeps_not_installed:
  assumes "rejects sh (visudo_cmd home)" and "c \<in> set (install_cmds home)"
  shows "keeps (\<lambda>w. \<not> ran c w) (configure_vfio_user_pkt_sniffer_sudo_exemption home root sh)"
proof -
  note other = install_not_before [OF assms(2)]
  have vis: "keeps (\<lambda>w. \<not> ran c w) (run sh False (visudo_cmd home) None)"
    and cat: "keeps (\<lambda>w. \<not> ran c w) (run sh True [''sudo'', ''cat'', sudoers_file] None)"
    using other by (auto intro!: keeps_ran_run)
  have "keeps (\<lambda>w. \<not> ran c w) (fill_cache home sh)"
    unfolding fill_cache_def write_text_def by (intro preserve cat) (auto intro!: preserve split: prod.splits)
  moreover have "keeps (\<lambda>w. \<not> ran c w) (read_cache home)"
    unfolding read_cache_def by (intro preserve)
  moreover have "keeps (\<lambda>w. \<not> ran c w) (install_rules home final sh)" for final
    unfolding install_rules_def check_and_install_def write_text_def
    by (intro keeps_tryE keeps_seqE keeps_seqs keeps_ret keeps_after_rejection [OF assms(1) vis])
      (auto intro!: preserve)
  ultimately show ?thesis
    unfolding configure_vfio_user_pkt_sniffer_sudo_exemption_def by (intro preserve)
qed

text \<open>
  C15. Rules that \<open>visudo\<close> rejects are not installed: none of the commands that copy the file into
  \<open>/etc/sudoers.d\<close> and set its owner and mode is run, however the function ends.
\<close>

theorem rejected_rules_not_installed:
  assumes "rejects sh (visudo_cmd home)" and "c \<in> set (install_cmds home)" and "\<not> ran c w"
  shows "\<not> ran c (snd (configure_vfio_user_pkt_sniffer_sudo_exemption home root sh w))"
  using keepsD [OF keeps_not_installed [OF assms(1,2)], of w] assms(3) by simp

text \<open>A machine whose programs change no file; the named one fails.\<close>

definition failing :: "string \<Rightarrow> shell" where
  "failing name l argv dir f = Some (if name \<in> set argv then 1 else 0, [], f)"

lemma failing_spares: "spares (failing name) argv p" "spares idle_shell argv p"
  by (auto simp: spares_def failing_def idle_shell_def)

theorem rejected_rules_not_installed_witness:
  "\<not> ran [''sudo'', ''cp'', cache_file ''/h'', sudoers_file]
     (snd (configure_vfio_user_pkt_sniffer_sudo_exemption ''/h'' ''/p'' (failing ''visudo'') (home_host [])))"
proof -
  have "rejects (failing ''visudo'') (visudo_cmd ''/h'')"
    by (simp add: rejects_def failing_def visudo_cmd_def)
  moreover have "[''sudo'', ''cp'', cache_file ''/h'', sudoers_file] \<in> set (install_cmds ''/h'')"
    by (simp add: install_cmds_def)
  moreover have "\<not> ran [''sudo'', ''cp'', cache_file ''/h'', sudoers_file] (home_host [])"
    by (simp add: ran_def home_host_def)
  ultimately show ?thesis by (rule rejected_rules_not_installed)
qed

text \<open>
  C30. The sudo rules are written once: where a run says yes, the rules of this user and project are in the
  cache, and any number of further runs runs no program and changes nothing.
\<close>

theorem sudo_rules_once:
  assumes "spares_cache home sh"
    and "fst (configure_vfio_user_pkt_sniffer_sudo_exemption home root sh w) = Inr True"
  shows "rules_cached home root (snd (configure_vfio_user_pkt_sniffer_sudo_exemption home root sh w)) \<and>
    ((\<lambda>v. snd (configure_vfio_user_pkt_sniffer_sudo_exemption home root sh v)) ^^ Suc n) w =
      snd (configure_vfio_user_pkt_sniffer_sudo_exemption home root sh w)"
  using sudoers.rerun [OF assms] sudoers.ensures [OF assms(1) _ assms(2)] by (metis prod.collapse)

lemma demo_spares_cache: "spares_cache ''/h'' (failing name)" "spares_cache ''/h'' idle_shell"
proof -
  have "normal_path (cache_dir ''/h'')" by code_simp
  then show "spares_cache ''/h'' (failing name)" "spares_cache ''/h'' idle_shell"
    by (simp_all add: spares_cache_def failing_spares)
qed

theorem sudo_rules_once_witness:
  "rules_cached ''/h'' ''/p'' (snd (configure_vfio_user_pkt_sniffer_sudo_exemption ''/h'' ''/p'' idle_shell (home_host []))) \<and>
    ((\<lambda>v. snd (configure_vfio_user_pkt_sniffer_sudo_exemption ''/h'' ''/p'' idle_shell v)) ^^ Suc 2) (home_host []) =
      snd (configure_vfio_user_pkt_sniffer_sudo_exemption ''/h'' ''/p'' idle_shell (home_host []))"
proof -
  have "fst (configure_vfio_user_pkt_sniffer_sudo_exemption ''/h'' ''/p'' idle_shell (home_host [])) = Inr True"
    by code_simp
  with demo_spares_cache(2) show ?thesis by (rule sudo_rules_once)
qed

text \<open>
  An installation that fails is taken for one that is done: the cache is written before the rules are
  installed and stays when a step of the installation fails, so the next run finds its rules there, says yes,
  and runs nothing.
\<close>

theorem failed_install_taken_for_done:
  assumes "spares_cache home sh" and "accepts sh (visudo_cmd home)"
    and "configure_vfio_user_pkt_sniffer_sudo_exemption home root sh w = (Inr False, w')"
  shows "configure_vfio_user_pkt_sniffer_sudo_exemption home root sh w' = (Inr True, w')"
  using sudoers.stays [OF failed_install_cached [OF assms]] by auto

theorem failed_install_taken_for_done_witness:
  "configure_vfio_user_pkt_sniffer_sudo_exemption ''/h'' ''/p'' (failing ''cp'')
     (snd (configure_vfio_user_pkt_sniffer_sudo_exemption ''/h'' ''/p'' (failing ''cp'') (home_host []))) =
   (Inr True, snd (configure_vfio_user_pkt_sniffer_sudo_exemption ''/h'' ''/p'' (failing ''cp'') (home_host [])))"
proof -
  have "fst (configure_vfio_user_pkt_sniffer_sudo_exemption ''/h'' ''/p'' (failing ''cp'') (home_host [])) = Inr False"
    by code_simp
  then have run: "configure_vfio_user_pkt_sniffer_sudo_exemption ''/h'' ''/p'' (failing ''cp'') (home_host []) =
      (Inr False, snd (configure_vfio_user_pkt_sniffer_sudo_exemption ''/h'' ''/p'' (failing ''cp'') (home_host [])))"
    by (simp add: prod_eq_iff)
  have "accepts (failing ''cp'') (visudo_cmd ''/h'')"
    by (simp add: accepts_def failing_def visudo_cmd_def cache_file_def cache_dir_def path_join_def)
  from failed_install_taken_for_done [OF demo_spares_cache(1) this run] show ?thesis .
qed

section \<open>The links: properties\<close>

lemma grows_verify_link [growing]: "grows (verify_link l)"
  by (cases l) (auto simp: verify_link_def intro!: growing)

lemma grows_verify_links: "grows (forE ls verify_link)"
  by (intro grows_forE grows_verify_link)

lemma makedirs_no_link: "keeps (\<lambda>w. \<not> islink w p) (os_makedirs d ok)"
proof (rule keepsI)
  fix w :: world assume no: "\<not> islink w p"
  have "keeps (\<lambda>w. \<not> islink w p) (make_dir q)" for q
    by (auto simp: keeps_def make_dir_def islink_def split: option.splits node.splits if_splits)
  then have "keeps (\<lambda>w. \<not> islink w p) (forE (path_chain (at w d)) make_dir)" by (intro keeps_forE)
  with no show "\<not> islink (snd (os_makedirs d ok w)) p"
    by (auto simp: os_makedirs_def dest: keepsD)
qed

text \<open>One link: made where it was none, if its target is there; other links are none of its business.\<close>

lemma verify_link_outcome:
  assumes run: "verify_link (target, link) w = (Inr (), w')"
  shows "\<not> islink w link \<Longrightarrow> path_exists w target \<Longrightarrow> fs w' (at w link) = Some (Symlink target)"
    and "at w p \<noteq> at w link \<Longrightarrow> \<not> islink w p \<Longrightarrow> \<not> islink w' p"
proof -
  obtain v where v: "os_makedirs (dirname link) True w = (Inr (), v)"
    using run by (cases "os_makedirs (dirname link) True w") (auto simp: verify_link_def prog_simps split: sum.splits)
  note grow = growsD [OF grows_makedirs v]
  have ats: "at v q = at w q" for q using grow by (simp add: at_def)
  have rest: "(if islink v link then ret ()
      else if path_exists v target then os_symlink target link
      else say (''Cannot generate symbolic link. Target directory missing at: '' @ target)) v = (Inr (), w')"
    using run v by (simp add: verify_link_def prog_simps split: if_splits)
  {
    assume "\<not> islink w link" "path_exists w target"
    then have "\<not> islink v link" "path_exists v target"
      using keeps_outcome [OF makedirs_no_link _ v] exists_grow grow by auto
    with rest show "fs w' (at w link) = Some (Symlink target)"
      by (auto simp: os_symlink_def ats split: if_splits)
  next
    assume p: "at w p \<noteq> at w link" "\<not> islink w p"
    then have "\<not> islink v p" using keeps_outcome [OF makedirs_no_link _ v] by auto
    moreover have "\<not> islink (upd link n v) p" if "\<not> islink v p" for n
      using that p(1) by (simp add: islink_def ats)
    moreover have "\<not> islink (v\<lparr>log := l\<rparr>) p" if "\<not> islink v p" for l
      using that by (auto simp: islink_def at_def split: if_splits)
    ultimately show "\<not> islink w' p"
      using rest by (auto simp: os_symlink_def prog_simps say_def split: if_splits)
  }
qed

lemma verify_links_outcome:
  assumes "forE ls verify_link w = (Inr (), w')" and "distinct (map (\<lambda>l. at w (snd l)) ls)"
    and "(target, link) \<in> set ls" and "\<not> islink w link" and "path_exists w target"
  shows "fs w' (at w link) = Some (Symlink target)"
  using assms
proof (induction ls arbitrary: w)
  case Nil
  then show ?case by simp
next
  case (Cons l ls)
  obtain v where v: "verify_link l w = (Inr (), v)" and rest: "forE ls verify_link v = (Inr (), w')"
    using Cons.prems(1) by (cases "verify_link l w") (auto simp: prog_simps split: sum.splits)
  note grow = growsD [OF grows_verify_link v]
  have ats: "at v q = at w q" for q using grow by (simp add: at_def)
  show ?case
  proof (cases "l = (target, link)")
    case True
    then have "fs v (at w link) = Some (Symlink target)"
      using verify_link_outcome(1) [OF v [unfolded True]] Cons.prems(4,5) by blast
    moreover have "fs v \<subseteq>\<^sub>m fs w'" 
      using growsD [OF grows_verify_links rest] by simp
    ultimately show ?thesis by (metis domI map_le_def)
  next
    case False
    then have in_ls: "(target, link) \<in> set ls" using Cons.prems(3) by auto
    then have "at w link \<in> set (map (\<lambda>l. at w (snd l)) ls)"
      by (metis (mono_tags, lifting) image_eqI image_set snd_conv)
    moreover have "at w (snd l) \<notin> set (map (\<lambda>l. at w (snd l)) ls)" using Cons.prems(2) by simp
    ultimately have "at w link \<noteq> at w (snd l)" by metis
    then have "\<not> islink v link"
      using verify_link_outcome(2) [of "fst l" "snd l" w v link] v Cons.prems(4) \<open>at w link \<noteq> at w (snd l)\<close>
      unfolding prod.collapse by blast
    moreover have "path_exists v target"
      using exists_grow [of w v target] grow Cons.prems(5) by simp
    moreover have "distinct (map (\<lambda>l. at v (snd l)) ls)"
      unfolding ats using Cons.prems(2) by simp
    ultimately have "fs w' (at v link) = Some (Symlink target)"
      using Cons.IH [OF rest _ in_ls] by blast
    then show ?thesis by (simp only: ats)
  qed
qed

text \<open>
  C31. Setting up the links into \<open>third_party\<close> changes nothing that exists, whether it returns or raises.
  When it returns, every link that was missing and whose target is there points to its target.
\<close>

theorem project_symlinks_set:
  assumes "prefix ''/'' root" and "verify_project_symlinks root tools soc os_root ids w = (r, w')"
  shows "fs w \<subseteq>\<^sub>m fs w' \<and>
    (r = Inr () \<longrightarrow>
      list_all (\<lambda>(target, link). \<not> islink w link \<and> path_exists w target \<longrightarrow> fs w' link = Some (Symlink target))
        (links_to_verify root tools soc os_root ids))"
proof -
  let ?ls = "links_to_verify root tools soc os_root ids"
  have run: "forE ?ls verify_link w = (r, w')" using assms(2) by (simp add: verify_project_symlinks_def)
  have "fs w \<subseteq>\<^sub>m fs w'"
    using growsD [OF grows_verify_links run] by simp
  moreover have abs: "\<And>l. l \<in> set ?ls \<Longrightarrow> prefix ''/'' (snd l)"
    using assms(1) by (auto simp: links_to_verify_def absolute_join)
  moreover have distinct: "distinct (map (\<lambda>l. at w (snd l)) ?ls)"
  proof -
    have "distinct (map (basename \<circ> snd) ?ls)"
      by (simp add: links_to_verify_def basename_join simple_name_def)
    then have "distinct (map snd ?ls)" by (metis distinct_map list.map_comp)
    moreover have "map (\<lambda>l. at w (snd l)) ?ls = map snd ?ls"
      using abs by (intro map_cong refl) (simp add: at_absolute)
    ultimately show ?thesis by (simp only:)
  qed
  moreover have "fs w' link = Some (Symlink target)"
    if "r = Inr ()" "(target, link) \<in> set ?ls" "\<not> islink w link" "path_exists w target" for target link
    using verify_links_outcome [OF run [unfolded that(1)] distinct that(2-4)] abs [OF that(2)]
    by (simp add: at_absolute)
  ultimately show ?thesis by (auto simp: list_all_iff)
qed

definition link_host :: world where
  "link_host = home_host [(''/p'', Dir), (''/s'', Dir), (''/s/openPCIE'', Dir)]"

theorem project_symlinks_set_witness:
  "fs (snd (verify_project_symlinks ''/p'' ''/t'' ''/s'' ''/o'' [] link_host)) ''/p/third_party/hw/openPCIE'' =
     Some (Symlink ''/s/openPCIE'')"
proof -
  let ?m = "verify_project_symlinks ''/p'' ''/t'' ''/s'' ''/o'' [] link_host"
  have r: "fst ?m = Inr ()" by code_simp
  have "prefix ''/'' ''/p''" by simp
  from project_symlinks_set [OF this, of "''/t''" "''/s''" "''/o''" "[]" link_host, OF surjective_pairing]
  have "list_all (\<lambda>(target, link). \<not> islink link_host link \<and> path_exists link_host target \<longrightarrow>
      fs (snd ?m) link = Some (Symlink target)) (links_to_verify ''/p'' ''/t'' ''/s'' ''/o'' [])"
    using r by blast
  moreover have "(''/s/openPCIE'', ''/p/third_party/hw/openPCIE'') \<in> set (links_to_verify ''/p'' ''/t'' ''/s'' ''/o'' [])"
    "\<not> islink link_host ''/p/third_party/hw/openPCIE''" "path_exists link_host ''/s/openPCIE''"
    by code_simp+
  ultimately show ?thesis by (auto simp: list_all_iff)
qed

section \<open>The plugin, the capture rights and KVM: properties\<close>

text \<open>The plugin is never in the way: the function returns on every machine, and a plugin that is there stays.\<close>

lemma dissector_returns: "throws (\<lambda>_. False) (configure_vfio_user_dissector home root)"
proof -
  have basic: "throws is_Exception (make_dir p)" "throws is_Exception (read_text p)" "throws is_Exception (write_text s p)" for p s
    by (auto simp: throws_def make_dir_def read_text_def write_text_def write_with_def is_Exception_def
        split: option.splits node.splits if_splits)
  moreover have "throws is_Exception (os_makedirs p ok)" for p ok
  proof (rule throwsI)
    fix w e assume "fst (os_makedirs p ok w) = Inl e"
    moreover have "throws is_Exception (forE (path_chain (at w p)) make_dir)"
      by (intro throws_forE basic)
    ultimately show "is_Exception e"
      unfolding throws_def os_makedirs_def by (auto simp: is_Exception_def split: if_splits)
  qed
  moreover have "throws E (say s)" for E s by (simp add: throws_def say_def prog_simps)
  ultimately show ?thesis
    unfolding configure_vfio_user_dissector_def Let_def copy_file_def
    by (intro raising throws_tryE [where E = is_Exception]) auto
qed

lemma dissector_kept:
  "path_exists w (path_join (plugin_dir home) ''vfio_user.lua'') \<Longrightarrow> configure_vfio_user_dissector home root w = (Inr (), w)"
  by (simp add: configure_vfio_user_dissector_def Let_def prog_simps)

text \<open>
  Without \<open>USER\<close> and \<open>LOGNAME\<close> the capture rights are not configured, whatever the machine: the name of the
  user is asked of a function. The sudo rules are then written for a user called \<open>None\<close>.
\<close>

lemma wireshark_needs_user:
  "str_or (env w ''USER'') (env w ''LOGNAME'') = None \<Longrightarrow>
     configure_wireshark_permissions grp sh w = (Inl (AttributeError ''getuser''), w)"
  by (simp add: configure_wireshark_permissions_def wireshark_user_def prog_simps)

lemma rules_need_user:
  "str_or (env w ''USER'') (env w ''LOGNAME'') = None \<Longrightarrow>
     prefix ''None ALL=(ALL) NOPASSWD: /usr/bin/python3 '' (exemption_rules (local_user w) root)"
  by (simp add: exemption_rules_def local_user_def show_str_def Let_def)

text \<open>
  A machine that is configured already: a user in one of the two groups, and the two capabilities on
  \<open>dumpcap\<close>. Only the capabilities are looked up; no right is asked for.
\<close>

lemma wireshark_configured:
  assumes "env w ''USER'' = Some (c # cs)" and "in_group grp ''wireshark'' (c # cs) \<or> in_group grp ''sudo'' (c # cs)"
    and "path_exists w dumpcap"
    and "run sh False [''getcap'', dumpcap] None w = (Inr (rc, out), w')"
    and "contains ''cap_net_admin'' out" and "contains ''cap_net_raw'' out"
  shows "configure_wireshark_permissions grp sh w = (Inr (), w')"
  using assms by (simp add: configure_wireshark_permissions_def wireshark_user_def str_or_def capabilities_set_def
      Let_def prog_simps)

text \<open>KVM: it says yes exactly when the device is open to all already or has been opened.\<close>

lemma kvm_outcome:
  "fst (setup_kvm_permissions mode sh w) = Inr True \<Longrightarrow>
     path_exists w ''/dev/kvm'' \<and> (mode ''/dev/kvm'' = 438 \<or>
       ran [''sudo'', ''chmod'', ''0666'', ''/dev/kvm''] (snd (setup_kvm_permissions mode sh w)))"
  by (auto simp: setup_kvm_permissions_def prog_simps run_check_def run_def ran_def Let_def
      split: if_splits option.splits prod.splits sum.splits)

end
