(* ===== verification/Setup_Git.thy ===== *)
theory Setup_Git
  imports Host
begin

text \<open>
  How \<open>workspace_setup.py\<close> brings a cloned repository to the release or branch of its entry (lines 545 to 700),
  by running \<open>git\<close>. What \<open>git\<close> does is the shell's; a theorem that relies on it says so by the predicate
  \<open>git_like\<close>. Messages on branches that go on or return a value are left out.
\<close>

section \<open>Identity and patches\<close>

definition config_cmd :: "path \<Rightarrow> string list \<Rightarrow> string list" where
  "config_cmd repo_path args = [''git'', ''-C'', repo_path, ''config''] @ args"

definition unset :: "int \<times> string \<Rightarrow> bool" where
  "unset = (\<lambda>(returncode, stdout). returncode \<noteq> 0 \<or> strip stdout = [])"

definition align_git_identity :: "shell \<Rightarrow> path \<Rightarrow> (world, unit) prog" where
  "align_git_identity sh repo_path =
     bindE (run sh False (config_cmd repo_path [''user.email'']) None) (\<lambda>email_check.
     bindE (run sh False (config_cmd repo_path [''user.name'']) None) (\<lambda>name_check.
     seqs
       [whenE (unset email_check)
          (run_check sh (config_cmd repo_path [''--local'', ''user.email'', ''purple@purple.ca'']) None),
        whenE (unset name_check)
          (run_check sh (config_cmd repo_path [''--local'', ''user.name'', ''Purple'']) None),
        whenE (unset name_check \<or> unset email_check) (say ''Configured local fallback'')]))"

definition apply_patch :: "shell \<Rightarrow> path \<Rightarrow> string \<Rightarrow> path option \<Rightarrow> (world, bool) prog" where
  "apply_patch sh repo_path branch patch_path =
     (if \<not> truthy patch_path then ret True
      else let patch = the patch_path; dir = Some repo_path in
        bindE (getE (\<lambda>w. path_exists w patch)) (\<lambda>there.
          if \<not> there then ret False
          else tryE
            (bindE (run sh False [''git'', ''apply'', ''--check'', patch] dir) (\<lambda>(returncode, _).
               if returncode = 0 then
                 seqE (seqs
                   [run_check sh [''git'', ''apply'', patch] dir,
                    run_check sh [''git'', ''add'', ''.''] dir,
                    run_check sh [''git'', ''commit'', ''-m'', ''feat: add '' @ basename patch] dir])
                   (ret True)
               else ret False))
            (\<lambda>e. e = CalledProcessError) (\<lambda>_. ret False)))"

section \<open>Alignment\<close>

definition status_cmd :: "string list" where
  "status_cmd = [''git'', ''status'', ''--porcelain'']"

definition stash_cmd :: "string list" where
  "stash_cmd = [''git'', ''stash'']"

definition pop_cmd :: "string list" where
  "pop_cmd = [''git'', ''stash'', ''pop'']"

definition checkout_cmd :: "string \<Rightarrow> string list" where
  "checkout_cmd ref = [''git'', ''checkout'', ref]"

definition current_cmd :: "string list" where
  "current_cmd = [''git'', ''branch'', ''--show-current'']"

definition fetch_cmd :: "string \<Rightarrow> string list" where
  "fetch_cmd tag = [''git'', ''fetch'', ''--depth=1'', ''origin'', ''refs/tags/'' @ tag @ '':refs/tags/'' @ tag]"

definition tag_commit :: "string \<Rightarrow> string" where
  "tag_commit tag = ''refs/tags/'' @ tag @ ''^{commit}''"

definition create_cmd :: "string \<Rightarrow> string \<Rightarrow> string list" where
  "create_cmd branch tag = [''git'', ''checkout'', ''-b'', branch, tag_commit tag]"

text \<open>The text a program prints, without the space around it.\<close>

definition git_says :: "shell \<Rightarrow> bool \<Rightarrow> string list \<Rightarrow> path \<Rightarrow> (world, string) prog" where
  "git_says sh check argv repo_path = bindE (run sh check argv (Some repo_path)) (\<lambda>(_, out). ret (strip out))"

definition run_checkout :: "shell \<Rightarrow> path \<Rightarrow> bool \<Rightarrow> string \<Rightarrow> (world, unit) prog" where
  "run_checkout sh repo_path is_dirty branch =
     seqs
       [whenE is_dirty (run_check sh stash_cmd (Some repo_path)),
        run_check sh (checkout_cmd branch) (Some repo_path),
        whenE is_dirty (run_check sh pop_cmd (Some repo_path))]"

definition align_to_branch :: "shell \<Rightarrow> path \<Rightarrow> bool \<Rightarrow> string \<Rightarrow> (world, unit) prog" where
  "align_to_branch sh repo_path is_dirty branch =
     bindE (git_says sh False current_cmd repo_path) (\<lambda>current_branch.
       if current_branch = branch then ret ()
       else run_checkout sh repo_path is_dirty branch)"

definition align_to_tag :: "shell \<Rightarrow> path \<Rightarrow> bool \<Rightarrow> string \<Rightarrow> (world, unit) prog" where
  "align_to_tag sh repo_path is_dirty tag =
     bindE (run sh False (fetch_cmd tag) (Some repo_path)) (\<lambda>_.
     bindE
       (tryE
         (bindE (git_says sh True [''git'', ''rev-parse'', tag_commit tag] repo_path) (\<lambda>target_tag_hash.
          bindE (git_says sh True [''git'', ''rev-parse'', ''HEAD''] repo_path) (\<lambda>current_head_hash.
            ret (current_head_hash = target_tag_hash))))
         (\<lambda>e. e = CalledProcessError) (\<lambda>_. ret False)) (\<lambda>aligned.
       if aligned then ret () else run_checkout sh repo_path is_dirty tag))"

text \<open>A branch that is not there yet is made from the tag, and patched.\<close>

definition create_branch :: "shell \<Rightarrow> path \<Rightarrow> bool \<Rightarrow> string \<Rightarrow> string \<Rightarrow> path option \<Rightarrow> (world, unit) prog" where
  "create_branch sh repo_path is_dirty tag branch patch_path =
     seqE (whenE is_dirty (run_check sh stash_cmd (Some repo_path)))
       (bindE
         (tryE (seqE (run_check sh (create_cmd branch tag) (Some repo_path)) (ret True))
           (\<lambda>e. e = CalledProcessError) (\<lambda>_. bindE (say (''Failed to checkout '' @ branch)) (\<lambda>_. ret False))) (\<lambda>created.
         if created then
           seqs
             [whenE (truthy patch_path)
                (seqE (align_git_identity sh repo_path)
                  (bindE (apply_patch sh repo_path branch patch_path) (\<lambda>_. ret ()))),
              whenE is_dirty (run_check sh pop_cmd (Some repo_path))]
         else whenE is_dirty (run_check sh pop_cmd (Some repo_path))))"

definition align_repo_state ::
  "shell \<Rightarrow> path \<Rightarrow> string option \<Rightarrow> string option \<Rightarrow> path option \<Rightarrow> (world, unit) prog" where
  "align_repo_state sh repo_path tag branch patch_path =
     (if \<not> truthy tag \<and> \<not> truthy branch then ret ()
      else tryE
        (bindE (git_says sh False status_cmd repo_path) (\<lambda>status.
           let is_dirty = (status \<noteq> [])
           in if truthy branch \<and> \<not> truthy tag then align_to_branch sh repo_path is_dirty (the branch)
              else if truthy tag \<and> \<not> truthy branch then align_to_tag sh repo_path is_dirty (the tag)
              else
                bindE (run sh False (fetch_cmd (the tag)) (Some repo_path)) (\<lambda>_.
                bindE (run sh False [''git'', ''rev-parse'', ''--verify'', the branch] (Some repo_path)) (\<lambda>(returncode, _).
                  if returncode = 0 then align_to_branch sh repo_path is_dirty (the branch)
                  else create_branch sh repo_path is_dirty (the tag) (the branch) patch_path))))
        (\<lambda>e. e = CalledProcessError) (\<lambda>_. say ''Warning: Failed git alignment''))"

section \<open>What is relied on of git\<close>

text \<open>
  A view of a repository: the branch that is checked out, whether there are local changes, how many changes
  are stashed, and whether a branch can be checked out. \<open>git_like\<close> says that the commands of the shell do in the
  repository what the manual of git says of them, where popping a stash meets no conflict.
\<close>

record git_view =
  cur :: "filesystem \<Rightarrow> string"
  dirty :: "filesystem \<Rightarrow> bool"
  depth :: "filesystem \<Rightarrow> nat"
  can :: "filesystem \<Rightarrow> string \<Rightarrow> bool"

definition git_like :: "shell \<Rightarrow> path \<Rightarrow> git_view \<Rightarrow> bool" where
  "git_like sh repo g \<longleftrightarrow>
     (\<forall>l f. \<exists>out. sh l status_cmd (Some repo) f = Some (0, out, f) \<and> (strip out \<noteq> [] \<longleftrightarrow> dirty g f)) \<and>
     (\<forall>l f. \<exists>out. sh l current_cmd (Some repo) f = Some (0, out, f) \<and> strip out = cur g f) \<and>
     (\<forall>l f. dirty g f \<longrightarrow> (\<exists>out f'. sh l stash_cmd (Some repo) f = Some (0, out, f') \<and>
        \<not> dirty g f' \<and> depth g f' = Suc (depth g f) \<and> cur g f' = cur g f \<and> can g f' = can g f)) \<and>
     (\<forall>l f b. \<exists>rc out f'. sh l (checkout_cmd b) (Some repo) f = Some (rc, out, f') \<and>
        (if can g f b then rc = 0 \<and> cur g f' = b \<and> depth g f' = depth g f \<and> dirty g f' = dirty g f
         else rc \<noteq> 0 \<and> f' = f)) \<and>
     (\<forall>l f. 0 < depth g f \<longrightarrow> (\<exists>out f'. sh l pop_cmd (Some repo) f = Some (0, out, f') \<and>
        dirty g f' \<and> Suc (depth g f') = depth g f \<and> cur g f' = cur g f))"

text \<open>The commands as programs of a world.\<close>

lemma git_status:
  assumes "git_like sh repo g"
  obtains out w1 where "git_says sh chk status_cmd repo w = (Inr out, w1)" "out \<noteq> [] \<longleftrightarrow> dirty g (fs w)" "fs w1 = fs w"
proof -
  obtain out where "sh (log w) status_cmd (Some repo) (fs w) = Some (0, out, fs w)" "strip out \<noteq> [] \<longleftrightarrow> dirty g (fs w)"
    using assms unfolding git_like_def by blast
  then show ?thesis by (intro that [of "strip out" "w\<lparr>log := log w @ [Ran status_cmd (Some repo)]\<rparr>"]) (auto simp: git_says_def prog_simps run_def Let_def)
qed

lemma git_current:
  assumes "git_like sh repo g"
  obtains w1 where "git_says sh chk current_cmd repo w = (Inr (cur g (fs w)), w1)" "fs w1 = fs w"
proof -
  obtain out where "sh (log w) current_cmd (Some repo) (fs w) = Some (0, out, fs w)" "strip out = cur g (fs w)"
    using assms unfolding git_like_def by blast
  then show ?thesis by (intro that [of "w\<lparr>log := log w @ [Ran current_cmd (Some repo)]\<rparr>"]) (auto simp: git_says_def prog_simps run_def Let_def)
qed

lemma git_stash:
  assumes "git_like sh repo g" and "dirty g (fs w)"
  obtains w1 where "run_check sh stash_cmd (Some repo) w = (Inr (), w1)" "\<not> dirty g (fs w1)"
    "depth g (fs w1) = Suc (depth g (fs w))" "cur g (fs w1) = cur g (fs w)" "can g (fs w1) = can g (fs w)"
proof -
  obtain out f' where "sh (log w) stash_cmd (Some repo) (fs w) = Some (0, out, f')"
    "\<not> dirty g f'" "depth g f' = Suc (depth g (fs w))" "cur g f' = cur g (fs w)" "can g f' = can g (fs w)"
    using assms unfolding git_like_def by blast
  then show ?thesis by (intro that [of "w\<lparr>fs := f', log := log w @ [Ran stash_cmd (Some repo)]\<rparr>"])
    (simp_all add: run_check_def prog_simps run_def)
qed

lemma git_pop:
  assumes "git_like sh repo g" and "0 < depth g (fs w)"
  obtains w1 where "run_check sh pop_cmd (Some repo) w = (Inr (), w1)" "dirty g (fs w1)"
    "Suc (depth g (fs w1)) = depth g (fs w)" "cur g (fs w1) = cur g (fs w)"
proof -
  obtain out f' where "sh (log w) pop_cmd (Some repo) (fs w) = Some (0, out, f')"
    "dirty g f'" "Suc (depth g f') = depth g (fs w)" "cur g f' = cur g (fs w)"
    using assms unfolding git_like_def by blast
  then show ?thesis by (intro that [of "w\<lparr>fs := f', log := log w @ [Ran pop_cmd (Some repo)]\<rparr>"])
    (simp_all add: run_check_def prog_simps run_def)
qed

lemma git_checkout:
  assumes "git_like sh repo g"
  obtains w1 where "run_check sh (checkout_cmd b) (Some repo) w = (if can g (fs w) b then Inr () else Inl CalledProcessError, w1)"
    "can g (fs w) b \<Longrightarrow> cur g (fs w1) = b \<and> depth g (fs w1) = depth g (fs w) \<and> dirty g (fs w1) = dirty g (fs w)"
    "\<not> can g (fs w) b \<Longrightarrow> fs w1 = fs w"
proof -
  obtain rc out f' where "sh (log w) (checkout_cmd b) (Some repo) (fs w) = Some (rc, out, f')"
    "if can g (fs w) b then rc = 0 \<and> cur g f' = b \<and> depth g f' = depth g (fs w) \<and> dirty g f' = dirty g (fs w)
     else rc \<noteq> 0 \<and> f' = fs w"
    using assms unfolding git_like_def by metis
  then show ?thesis by (intro that [of "w\<lparr>fs := f', log := log w @ [Ran (checkout_cmd b) (Some repo)]\<rparr>"])
    (auto simp: run_check_def prog_simps run_def split: if_splits)
qed

section \<open>Switching branches: properties\<close>

lemma run_checkout_can:
  assumes git: "git_like sh repo g" and can: "can g (fs w) b" and d: "d = dirty g (fs w)"
  obtains w' where "run_checkout sh repo d b w = (Inr (), w')" "cur g (fs w') = b" "depth g (fs w') = depth g (fs w)"
    "dirty g (fs w') = dirty g (fs w)"
proof (cases d)
  case False
  obtain w1 where "run_check sh (checkout_cmd b) (Some repo) w = (Inr (), w1)"
    "cur g (fs w1) = b \<and> depth g (fs w1) = depth g (fs w) \<and> dirty g (fs w1) = dirty g (fs w)"
    using git_checkout [OF git, of b w] can by auto
  with False show ?thesis by (intro that [of w1]) (simp_all add: run_checkout_def prog_simps)
next
  case True
  obtain w1 where w1: "run_check sh stash_cmd (Some repo) w = (Inr (), w1)" "\<not> dirty g (fs w1)"
    "depth g (fs w1) = Suc (depth g (fs w))" "cur g (fs w1) = cur g (fs w)" "can g (fs w1) = can g (fs w)"
    by (rule git_stash [OF git]) (use d True in simp)
  obtain w2 where w2: "run_check sh (checkout_cmd b) (Some repo) w1 = (Inr (), w2)"
    "cur g (fs w2) = b \<and> depth g (fs w2) = depth g (fs w1)"
    using git_checkout [OF git, of b w1] can w1(5) by auto
  then have "0 < depth g (fs w2)" using w1(3) by simp
  then obtain w3 where w3: "run_check sh pop_cmd (Some repo) w2 = (Inr (), w3)" "dirty g (fs w3)"
    "Suc (depth g (fs w3)) = depth g (fs w2)" "cur g (fs w3) = cur g (fs w2)"
    by (rule git_pop [OF git])
  show ?thesis
    using w1 w2 w3 d True by (intro that [of w3]) (simp_all add: run_checkout_def prog_simps)
qed

lemma run_checkout_cannot:
  assumes git: "git_like sh repo g" and can: "\<not> can g (fs w) b" and d: "d = dirty g (fs w)"
  obtains w' where "run_checkout sh repo d b w = (Inl CalledProcessError, w')" "cur g (fs w') = cur g (fs w)"
    "depth g (fs w') = depth g (fs w) + (if d then 1 else 0)" "\<not> dirty g (fs w')"
proof (cases d)
  case False
  obtain w1 where "run_check sh (checkout_cmd b) (Some repo) w = (Inl CalledProcessError, w1)" "fs w1 = fs w"
    using git_checkout [OF git, of b w] can by auto
  with False d show ?thesis by (intro that [of w1]) (simp_all add: run_checkout_def prog_simps)
next
  case True
  obtain w1 where w1: "run_check sh stash_cmd (Some repo) w = (Inr (), w1)" "\<not> dirty g (fs w1)"
    "depth g (fs w1) = Suc (depth g (fs w))" "cur g (fs w1) = cur g (fs w)" "can g (fs w1) = can g (fs w)"
    by (rule git_stash [OF git]) (use d True in simp)
  obtain w2 where "run_check sh (checkout_cmd b) (Some repo) w1 = (Inl CalledProcessError, w2)" "fs w2 = fs w1"
    using git_checkout [OF git, of b w1] can w1(5) by auto
  with w1 True show ?thesis by (intro that [of w2]) (simp_all add: run_checkout_def prog_simps)
qed



text \<open>A repository of two branches, kept in three files of the file system.\<close>

definition text_of_node :: "node option \<Rightarrow> string" where
  "text_of_node n = (case n of Some (File c) \<Rightarrow> c | _ \<Rightarrow> [])"

definition two_branches :: shell where
  "two_branches l argv dir f =
     (if argv = status_cmd then Some (0, if f ''/r/change'' = None then [] else '' M file'', f)
      else if argv = current_cmd then Some (0, text_of_node (f ''/r/HEAD''), f)
      else if argv = stash_cmd then
        Some (0, [], f(''/r/change'' := None, ''/r/stash'' := Some (File (CHR ''x'' # text_of_node (f ''/r/stash'')))))
      else if argv = pop_cmd then
        Some (0, [], f(''/r/change'' := Some (File []), ''/r/stash'' := Some (File (tl (text_of_node (f ''/r/stash''))))))
      else if argv \<in> {checkout_cmd ''main'', checkout_cmd ''dev''} then
        Some (0, [], f(''/r/HEAD'' := Some (File (last argv))))
      else Some (1, [], f))"

definition two_branches_view :: git_view where
  "two_branches_view =
     \<lparr>cur = (\<lambda>f. strip (text_of_node (f ''/r/HEAD''))), dirty = (\<lambda>f. f ''/r/change'' \<noteq> None),
      depth = (\<lambda>f. length (text_of_node (f ''/r/stash''))), can = (\<lambda>f b. b \<in> {''main'', ''dev''})\<rparr>"

lemma two_branches_git: "git_like two_branches repo two_branches_view"
proof -
  note cmds = status_cmd_def current_cmd_def stash_cmd_def pop_cmd_def checkout_cmd_def
  have strips: "strip '' M file'' \<noteq> []" "strip [] = []" "strip ''main'' = ''main''" "strip ''dev'' = ''dev''"
    by code_simp+
  have "length (tl s) = length s - 1" for s :: string by simp
  then show ?thesis
    unfolding git_like_def two_branches_view_def
    using strips by (simp add: two_branches_def cmds text_of_node_def)
qed

definition repo_host :: world where
  "repo_host = \<lparr>fs = map_of [(''/r/HEAD'', File ''main''), (''/r/change'', File [])], cwd = ''/'', env = (\<lambda>_. None), log = []\<rparr>"



section \<open>Making branches, and patches: properties\<close>

text \<open>Commands of git that may not do anything to the local changes.\<close>

definition leaves_work :: "shell \<Rightarrow> path \<Rightarrow> git_view \<Rightarrow> string list \<Rightarrow> (int \<Rightarrow> bool) \<Rightarrow> bool" where
  "leaves_work sh repo g argv status \<longleftrightarrow>
     (\<forall>l f. \<exists>rc out f'. sh l argv (Some repo) f = Some (rc, out, f') \<and> status rc \<and>
        dirty g f' = dirty g f \<and> depth g f' = depth g f \<and> cur g f' = cur g f)"

lemma leaves_work_run:
  assumes "leaves_work sh repo g argv status"
  obtains rc out w1 where "run sh False argv (Some repo) w = (Inr (rc, out), w1)" "status rc"
    "run_check sh argv (Some repo) w = (if rc = 0 then Inr () else Inl CalledProcessError, w1)"
    "dirty g (fs w1) = dirty g (fs w)" "depth g (fs w1) = depth g (fs w)" "cur g (fs w1) = cur g (fs w)"
proof -
  obtain rc out f' where "sh (log w) argv (Some repo) (fs w) = Some (rc, out, f')" "status rc"
    "dirty g f' = dirty g (fs w)" "depth g f' = depth g (fs w)" "cur g f' = cur g (fs w)"
    using assms unfolding leaves_work_def by blast
  then show ?thesis by (intro that [of rc out "w\<lparr>fs := f', log := log w @ [Ran argv (Some repo)]\<rparr>"])
    (simp_all add: run_check_def prog_simps run_def)
qed

lemma leaves_work_fails:
  assumes "leaves_work sh repo g argv (\<lambda>rc. rc \<noteq> 0)"
  obtains w1 where "run_check sh argv (Some repo) w = (Inl CalledProcessError, w1)"
    "dirty g (fs w1) = dirty g (fs w)" "depth g (fs w1) = depth g (fs w)" "cur g (fs w1) = cur g (fs w)"
proof (rule leaves_work_run [OF assms, of w], goal_cases)
  case (1 rc out w1)
  then show ?case by (intro that [of w1]) simp_all
qed

text \<open>
  A branch that cannot be made from its tag leaves the repository as it was: the local changes that
  were stashed for it are popped again.
\<close>

theorem failed_creation_restores:
  assumes git: "git_like sh repo g" and "truthy tag" and "truthy branch"
    and fetch: "leaves_work sh repo g (fetch_cmd (the tag)) (\<lambda>_. True)"
    and verify: "leaves_work sh repo g [''git'', ''rev-parse'', ''--verify'', the branch] (\<lambda>rc. rc \<noteq> 0)"
    and create: "leaves_work sh repo g (create_cmd (the branch) (the tag)) (\<lambda>rc. rc \<noteq> 0)"
  shows "\<exists>w'. align_repo_state sh repo tag branch patch w = (Inr (), w') \<and> cur g (fs w') = cur g (fs w) \<and>
    depth g (fs w') = depth g (fs w) \<and> dirty g (fs w') = dirty g (fs w)"
proof -
  obtain out w1 where w1: "git_says sh False status_cmd repo w = (Inr out, w1)" "out \<noteq> [] \<longleftrightarrow> dirty g (fs w)" "fs w1 = fs w"
    by (rule git_status [OF git])
  obtain rc2 out2 w2 where w2: "run sh False (fetch_cmd (the tag)) (Some repo) w1 = (Inr (rc2, out2), w2)"
    "dirty g (fs w2) = dirty g (fs w1)" "depth g (fs w2) = depth g (fs w1)" "cur g (fs w2) = cur g (fs w1)"
    by (rule leaves_work_run [OF fetch])
  obtain rc3 out3 w3 where w3: "run sh False [''git'', ''rev-parse'', ''--verify'', the branch] (Some repo) w2 = (Inr (rc3, out3), w3)"
    "rc3 \<noteq> 0" "dirty g (fs w3) = dirty g (fs w2)" "depth g (fs w3) = depth g (fs w2)" "cur g (fs w3) = cur g (fs w2)"
    by (rule leaves_work_run [OF verify])
  note same = w1(3) w2(2-4) w3(3-5)
  let ?create = "create_branch sh repo (out \<noteq> []) (the tag) (the branch) patch"
  have start: "align_repo_state sh repo tag branch patch w =
      tryE ?create (\<lambda>e. e = CalledProcessError) (\<lambda>_. say ''Warning: Failed git alignment'') w3"
    using assms(2,3) w1(1) w2(1) w3(1,2) by (simp add: align_repo_state_def tryE_def bindE_def Let_def)
  let ?said = "\<lambda>v. v\<lparr>log := log v @ [Said (''Failed to checkout '' @ the branch)]\<rparr>"
  have "\<exists>w'. ?create w3 = (Inr (), w') \<and> cur g (fs w') = cur g (fs w) \<and>
      depth g (fs w') = depth g (fs w) \<and> dirty g (fs w') = dirty g (fs w)"
  proof (cases "out = []")
    case True
    obtain w4 where "run_check sh (create_cmd (the branch) (the tag)) (Some repo) w3 = (Inl CalledProcessError, w4)"
      "dirty g (fs w4) = dirty g (fs w3)" "depth g (fs w4) = depth g (fs w3)" "cur g (fs w4) = cur g (fs w3)"
      by (rule leaves_work_fails [OF create])
    with True same show ?thesis
      by (intro exI [of _ "?said w4"]) (simp add: create_branch_def prog_simps say_def)
  next
    case False
    then have "dirty g (fs w3)" using w1(2) same by simp
    then obtain w4 where w4: "run_check sh stash_cmd (Some repo) w3 = (Inr (), w4)" "\<not> dirty g (fs w4)"
      "depth g (fs w4) = Suc (depth g (fs w3))" "cur g (fs w4) = cur g (fs w3)"
      by (rule git_stash [OF git])
    obtain w5 where w5: "run_check sh (create_cmd (the branch) (the tag)) (Some repo) w4 = (Inl CalledProcessError, w5)"
      "dirty g (fs w5) = dirty g (fs w4)" "depth g (fs w5) = depth g (fs w4)" "cur g (fs w5) = cur g (fs w4)"
      by (rule leaves_work_fails [OF create])
    have "0 < depth g (fs (?said w5))" using w4(3) w5(3) by simp
    then obtain w6 where "run_check sh pop_cmd (Some repo) (?said w5) = (Inr (), w6)" "dirty g (fs w6)"
      "Suc (depth g (fs w6)) = depth g (fs (?said w5))" "cur g (fs w6) = cur g (fs (?said w5))"
      by (rule git_pop [OF git])
    with False w4 w5 same \<open>dirty g (fs w3)\<close> show ?thesis
      by (intro exI [of _ w6]) (simp add: create_branch_def prog_simps say_def)
  qed
  then show ?thesis unfolding start by (auto simp: tryE_def)
qed

theorem failed_creation_restores_witness:
  "\<exists>w'. align_repo_state two_branches ''/r'' (Some ''v1'') (Some ''work'') None repo_host = (Inr (), w') \<and>
     cur two_branches_view (fs w') = ''main'' \<and> dirty two_branches_view (fs w')"
proof -
  have "strip ''main'' = ''main''" by code_simp
  then have start: "cur two_branches_view (fs repo_host) = ''main''" "dirty two_branches_view (fs repo_host)"
    by (simp_all add: two_branches_view_def repo_host_def text_of_node_def)
  have "truthy (Some ''v1'')" "truthy (Some ''work'')" by (simp_all add: truthy_def)
  moreover have "leaves_work two_branches ''/r'' two_branches_view (fetch_cmd (the (Some ''v1''))) (\<lambda>_. True)"
    "leaves_work two_branches ''/r'' two_branches_view [''git'', ''rev-parse'', ''--verify'', the (Some ''work'')] (\<lambda>rc. rc \<noteq> 0)"
    "leaves_work two_branches ''/r'' two_branches_view (create_cmd (the (Some ''work'')) (the (Some ''v1''))) (\<lambda>rc. rc \<noteq> 0)"
    by (simp_all add: leaves_work_def two_branches_def status_cmd_def current_cmd_def stash_cmd_def pop_cmd_def
        checkout_cmd_def fetch_cmd_def create_cmd_def)
  ultimately show ?thesis
    using failed_creation_restores [OF two_branches_git, of "Some ''v1''" "Some ''work''" "''/r''" None repo_host] start by auto
qed

section \<open>What alignment may raise\<close>

lemma throws_git_says [raising]: "throws run_error (git_says sh chk argv repo)"
  unfolding git_says_def by (intro raising) (auto intro: raising)

lemma throws_steps [raising]:
  "throws run_error (align_git_identity sh repo)" "throws run_error (apply_patch sh repo branch patch)"
  "throws run_error (run_checkout sh repo d ref)" "throws run_error (align_to_branch sh repo d branch)"
proof -
  show "throws run_error (align_git_identity sh repo)"
    unfolding align_git_identity_def by (intro raising) (auto intro!: raising)
  show "throws run_error (apply_patch sh repo branch patch)"
    unfolding apply_patch_def Let_def
    by (intro raising throws_caught) (auto intro!: raising split: prod.splits)
  show checkout: "throws run_error (run_checkout sh repo d ref)" for ref
    unfolding run_checkout_def by (intro raising) (auto intro!: raising)
  show "throws run_error (align_to_branch sh repo d branch)"
    unfolding align_to_branch_def by (intro raising checkout)
qed

lemma throws_align_to [raising]:
  "throws run_error (align_to_tag sh repo d tag)" "throws run_error (create_branch sh repo d tag branch patch)"
proof -
  show "throws run_error (align_to_tag sh repo d tag)"
    unfolding align_to_tag_def by (intro raising throws_caught)
  show "throws run_error (create_branch sh repo d tag branch patch)"
    unfolding create_branch_def by (intro raising throws_caught) (auto intro!: raising)
qed

text \<open>
  Aligning a repository never fails the setup by a command of git that fails: all that can be raised
  is that git, or the directory of the repository, is not there.
\<close>

theorem alignment_errors:
  "case align_repo_state sh repo tag branch patch w of (Inl e, _) \<Rightarrow> e = FileNotFoundError | (Inr _, _) \<Rightarrow> True"
proof -
  have "throws (\<lambda>e. e = FileNotFoundError) (align_repo_state sh repo tag branch patch)"
    unfolding align_repo_state_def Let_def
    by (intro raising throws_tryE [where E = run_error]) (auto simp: run_error_def intro!: raising split: prod.splits)
  then show ?thesis by (auto split: prod.splits sum.splits dest: throwsD)
qed

text \<open>
  Applying a patch is not atomic: where the commit fails, the patch stays in the tree and in the index, and
  the function says no.
\<close>

lemma uncommitted_patch_stays:
  assumes "truthy patch" and "path_exists w (the patch)"
    and "run sh False [''git'', ''apply'', ''--check'', the patch] (Some repo) w = (Inr (0, out), w1)"
    and "run_check sh [''git'', ''apply'', the patch] (Some repo) w1 = (Inr (), w2)"
    and "run_check sh [''git'', ''add'', ''.''] (Some repo) w2 = (Inr (), w3)"
    and "run_check sh [''git'', ''commit'', ''-m'', ''feat: add '' @ basename (the patch)] (Some repo) w3 = (Inl CalledProcessError, w4)"
  shows "apply_patch sh repo branch patch w = (Inr False, w4)"
  using assms by (simp add: apply_patch_def Let_def prog_simps)

end
