(* ===== verification/Setup_Versions.thy ===== *)
theory Setup_Versions
  imports Host "HOL-Library.Char_ord" "HOL-Library.List_Lexorder"
begin

text \<open>
  What \<open>workspace_setup.py\<close> asks about versions (lines 103 to 118, 199 to 247 and 319 to 350): whether a package
  is installed, which QEMU is, whether it has \<open>vfio-user-pci\<close>, and whether a repository has a newer release. The
  regular expressions are written out as the functions they describe; text is ASCII.
\<close>

section \<open>Packages\<close>

definition is_package_installed :: "shell \<Rightarrow> string \<Rightarrow> (world, bool) prog" where
  "is_package_installed sh package_name =
     tryE
       (bindE (run sh False [''dpkg-query'', ''-W'', ''-f=${Status}'', package_name] None) (\<lambda>(_, out).
          ret (contains ''install ok installed'' (strip out))))
       (\<lambda>e. e = FileNotFoundError) (\<lambda>_. bindE (say ''dpkg-query not found'') (\<lambda>_. ret False))"

section \<open>The version of QEMU\<close>

text \<open>The expression \<open>version\s+([0-9]+\.[0-9]+\.[0-9]+)\<close>: its match at the start of a text, and its first match.\<close>

definition match_number :: "string \<Rightarrow> (string \<times> string) option" where
  "match_number s =
     (let d = takeWhile is_digit s in if d = [] then None else Some (d, dropWhile is_digit s))"

definition match_dot :: "string \<Rightarrow> string option" where
  "match_dot s = (case s of c # cs \<Rightarrow> if c = CHR ''.'' then Some cs else None | [] \<Rightarrow> None)"

definition match_triple :: "string \<Rightarrow> string option" where
  "match_triple s =
     Option.bind (match_number s) (\<lambda>(a, s).
     Option.bind (match_dot s) (\<lambda>s.
     Option.bind (match_number s) (\<lambda>(b, s).
     Option.bind (match_dot s) (\<lambda>s.
     Option.bind (match_number s) (\<lambda>(c, _). Some (a @ ''.'' @ b @ ''.'' @ c))))))"

definition match_version :: "string \<Rightarrow> string option" where
  "match_version s =
     (if prefix ''version'' s then
        let rest = drop 7 s
        in if rest \<noteq> [] \<and> is_space (hd rest) then match_triple (dropWhile is_space rest) else None
      else None)"

fun search_version :: "string \<Rightarrow> string option" where
  "search_version [] = None"
| "search_version (c # cs) =
     (case match_version (c # cs) of Some v \<Rightarrow> Some v | None \<Rightarrow> search_version cs)"

text \<open>A program that prints nothing has no first line: IndexError, which is not caught.\<close>

definition get_qemu_system_x86_64_version :: "shell \<Rightarrow> (world, string option) prog" where
  "get_qemu_system_x86_64_version sh =
     tryE
       (bindE (run sh True [''qemu-system-x86_64'', ''--version''] None) (\<lambda>(_, out).
          case splitlines out of
            [] \<Rightarrow> raise IndexError
          | first_line # _ \<Rightarrow> ret (search_version first_line)))
       (\<lambda>e. e = FileNotFoundError \<or> e = CalledProcessError) (\<lambda>_. ret None)"

text \<open>\<open>shutil.which\<close> looks the program up in the search path of the machine, which is given as \<open>which\<close>.\<close>

definition is_qemu_vfio_user_supported ::
  "(world \<Rightarrow> string \<Rightarrow> bool) \<Rightarrow> shell \<Rightarrow> string option \<Rightarrow> (world, bool) prog" where
  "is_qemu_vfio_user_supported which sh tag =
     bindE (getE (\<lambda>w. which w ''qemu-system-x86_64'')) (\<lambda>found.
       if \<not> found then ret False
       else tryE
         (bindE (run sh False [''qemu-system-x86_64'', ''-device'', ''help''] None) (\<lambda>(_, stdout_stream).
            if \<not> contains ''vfio-user-pci'' stdout_stream then ret False
            else if truthy tag then
              bindE (get_qemu_system_x86_64_version sh) (\<lambda>qemu_ver.
                if \<not> truthy qemu_ver then ret False
                else ret (the qemu_ver = lstrip (CHR ''v'') (the tag)))
            else ret True))
         (\<lambda>e. e = FileNotFoundError \<or> e = CalledProcessError) (\<lambda>_. ret False))"

section \<open>Newer releases\<close>

text \<open>The expression \<open>^v\d+(?:\.\d+){0,2}$\<close>.\<close>

definition is_semver :: "string \<Rightarrow> bool" where
  "is_semver t =
     (case t of
        [] \<Rightarrow> False
      | c # cs \<Rightarrow> c = CHR ''v'' \<and> length (split_on (CHR ''.'') cs) \<le> 3 \<and> list_all str_isdigit (split_on (CHR ''.'') cs))"

text \<open>The key of a version, compared as Python compares lists.\<close>

datatype version = Version (numbers: "int list")

instantiation version :: linorder
begin

definition less_eq_version :: "version \<Rightarrow> version \<Rightarrow> bool" where
  "less_eq_version a b = (numbers a \<le> numbers b)"

definition less_version :: "version \<Rightarrow> version \<Rightarrow> bool" where
  "less_version a b = (numbers a < numbers b)"

instance
  by standard (auto simp: less_eq_version_def less_version_def intro: version.expand)

end

definition pad3 :: "int list \<Rightarrow> int list" where
  "pad3 xs = xs @ replicate (3 - length xs) 0"

fun py_ints :: "string list \<Rightarrow> exn + int list" where
  "py_ints [] = Inr []"
| "py_ints (x # xs) =
     (case py_int x of
        Inl e \<Rightarrow> Inl e
      | Inr n \<Rightarrow> (case py_ints xs of Inl e \<Rightarrow> Inl e | Inr ns \<Rightarrow> Inr (n # ns)))"

definition semver_key :: "string \<Rightarrow> exn + version" where
  "semver_key t = map_sum id (\<lambda>ns. Version (pad3 ns)) (py_ints (split_on (CHR ''.'') (lstrip (CHR ''v'') t)))"

text \<open>The tags in the output of \<open>git ls-remote\<close>; a tag and its dereferenced form \<open>^{}\<close> are one.\<close>

definition tag_of_line :: "string \<Rightarrow> string" where
  "tag_of_line line = strip (hd (split_str ''^{}'' (last (split_str ''refs/tags/'' line))))"

definition listed_tags :: "string \<Rightarrow> string list" where
  "listed_tags out =
     remdups (filter is_semver (map tag_of_line (filter (contains ''refs/tags/'') (splitlines out))))"

definition key_of :: "string \<Rightarrow> version" where
  "key_of t = (case semver_key t of Inr k \<Rightarrow> k | Inl _ \<Rightarrow> Version [])"

text \<open>
  \<open>sorted(tags, key=semver_key)[-1]\<close>. The source sorts a set, so of two spellings of the greatest version
  (\<open>v1.0\<close> and \<open>v1.0.0\<close>) it takes either; here it is the last one listed.
\<close>

definition latest :: "string list \<Rightarrow> string" where
  "latest ts = last (sort_key key_of ts)"

definition check_upstream_update :: "shell \<Rightarrow> path \<Rightarrow> string option \<Rightarrow> (world, unit) prog" where
  "check_upstream_update sh repo_path tag =
     (if \<not> truthy tag then ret ()
      else tryE
        (bindE (run sh True [''git'', ''ls-remote'', ''--tags'', ''origin''] (Some repo_path)) (\<lambda>(_, out).
           let tags = listed_tags out
           in if tags = [] then ret ()
              else bindE (liftE (semver_key (the tag))) (\<lambda>k.
                whenE (key_of (latest tags) > k)
                  (say (basename repo_path @ '' upstream update available: configured '' @ the tag @ '', latest '' @ latest tags)))))
        is_Exception (\<lambda>_. ret ()))"

section \<open>Newer releases: properties\<close>

lemma listed_tags_distinct: "distinct (listed_tags out)" and listed_tags_semver: "t \<in> set (listed_tags out) \<Longrightarrow> is_semver t"
  by (auto simp: listed_tags_def)

text \<open>Every tag that is listed has a key of three numbers; the keys of the source never fail.\<close>

lemma digits_py_int:
  assumes "str_isdigit s"
  shows "py_int s = Inr (int (int_of_digits s))"
proof -
  have digit: "is_digit c \<Longrightarrow> \<not> is_space c \<and> c \<noteq> CHR ''-'' \<and> c \<noteq> CHR ''+'' \<and> c \<noteq> CHR ''_''" for c
    by (auto simp: is_digit_def is_space_def Let_def)
  have all: "list_all is_digit s" and ne: "s \<noteq> []" using assms by (auto simp: str_isdigit_def)
  have drop: "dropWhile is_space t = t" if "list_all is_digit t" for t
    using that digit by (cases t) auto
  have strip: "strip s = s" using all by (simp add: strip_def drop list_all_iff)
  have "CHR ''_'' \<notin> set s" using all digit by (auto simp: list_all_iff)
  then have "unsigned_int s = Inr (int (int_of_digits s))"
    using assms by (simp add: unsigned_int_def split_on_whole)
  then show ?thesis
    unfolding py_int_def strip using all ne digit by (cases s) auto
qed

lemma digits_py_ints: "list_all str_isdigit xs \<Longrightarrow> py_ints xs = Inr (map (int \<circ> int_of_digits) xs)"
  by (induction xs) (simp_all add: digits_py_int)

lemma semver_key_semver:
  assumes "is_semver t"
  shows "semver_key t = Inr (Version (pad3 (map (int \<circ> int_of_digits) (split_on (CHR ''.'') (tl t)))))"
    and "length (numbers (key_of t)) = 3"
proof -
  obtain cs where t: "t = CHR ''v'' # cs" and n: "length (split_on (CHR ''.'') cs) \<le> 3"
    and d: "list_all str_isdigit (split_on (CHR ''.'') cs)"
    using assms by (auto simp: is_semver_def split: list.splits)
  have "cs = [] \<or> hd cs \<noteq> CHR ''v''"
  proof (cases cs)
    case (Cons c cs')
    then show ?thesis using d by (auto simp: str_isdigit_def is_digit_def Let_def split: list.splits if_splits)
  qed simp
  then have "lstrip (CHR ''v'') t = cs" by (cases cs) (auto simp: lstrip_def t)
  then show key: "semver_key t = Inr (Version (pad3 (map (int \<circ> int_of_digits) (split_on (CHR ''.'') (tl t)))))"
    using digits_py_ints [OF d] by (simp add: semver_key_def t)
  show "length (numbers (key_of t)) = 3"
    unfolding key_of_def key using n by (simp add: t pad3_def)
qed

lemma latest_greatest:
  assumes "ts \<noteq> []"
  shows "latest ts \<in> set ts" and "t \<in> set ts \<Longrightarrow> key_of t \<le> key_of (latest ts)"
proof -
  let ?s = "sort_key key_of ts"
  have ne: "?s \<noteq> []" using assms by (metis set_empty set_sort)
  then show "latest ts \<in> set ts" using last_in_set [OF ne] by (simp add: latest_def)
  assume "t \<in> set ts"
  then obtain i where i: "i < length ?s" "?s ! i = t" by (metis in_set_conv_nth set_sort)
  moreover have "sorted (map key_of ?s)" by simp
  ultimately have "map key_of ?s ! i \<le> map key_of ?s ! (length ?s - 1)"
    by (intro sorted_nth_mono) auto
  then show "key_of t \<le> key_of (latest ts)" using i ne by (simp add: latest_def last_conv_nth)
qed

text \<open>The notice never fails the setup.\<close>

lemma upstream_update_returns: "throws (\<lambda>_. False) (check_upstream_update sh repo_path tag)"
proof -
  have "throws is_Exception (run sh True argv dir)" for argv dir
    by (auto simp: throws_def run_def is_Exception_def Let_def split: option.splits if_splits)
  moreover have "throws is_Exception (liftE (semver_key t))" for t
  proof -
    have "py_int s = Inl e \<Longrightarrow> e = ValueError" for s e
      by (auto simp: py_int_def unsigned_int_def Let_def split: list.splits if_splits sum.splits)
    then have ints: "py_ints xs = Inl e \<Longrightarrow> e = ValueError" for xs e
      by (induction xs) (auto split: sum.splits)
    show ?thesis
      by (cases "py_ints (split_on (CHR ''.'') (lstrip (CHR ''v'') t))")
        (auto simp: throws_def liftE_def semver_key_def is_Exception_def dest: ints)
  qed
  moreover have "throws is_Exception (say s)" for s by (simp add: throws_def say_def prog_simps)
  ultimately show ?thesis
    unfolding check_upstream_update_def Let_def
    by (intro raising throws_tryE [where E = is_Exception]) (auto intro!: raising split: prod.splits)
qed

text \<open>
  C32. Where git lists the tags of the upstream, the user is told exactly when one of the releases among
  them is newer than the configured one, versions compared number by number; what is named is a greatest one.
\<close>

theorem upstream_notice:
  assumes "truthy tag" and "semver_key (the tag) = Inr k"
    and "sh (log w) [''git'', ''ls-remote'', ''--tags'', ''origin''] (Some repo_path) (fs w) = Some (0, out, f)"
  shows "fst (check_upstream_update sh repo_path tag w) = Inr () \<and>
    log (snd (check_upstream_update sh repo_path tag w)) =
      log w @ Ran [''git'', ''ls-remote'', ''--tags'', ''origin''] (Some repo_path) #
        (if list_ex (\<lambda>t. k < key_of t) (listed_tags out)
         then [Said (basename repo_path @ '' upstream update available: configured '' @ the tag @ '', latest '' @ latest (listed_tags out))]
         else []) \<and>
    (listed_tags out \<noteq> [] \<longrightarrow> latest (listed_tags out) \<in> set (listed_tags out) \<and>
       list_all (\<lambda>t. key_of t \<le> key_of (latest (listed_tags out))) (listed_tags out))"
proof -
  let ?ts = "listed_tags out"
  have newer: "list_ex (\<lambda>t. k < key_of t) ?ts \<longleftrightarrow> ?ts \<noteq> [] \<and> k < key_of (latest ?ts)"
  proof
    assume "list_ex (\<lambda>t. k < key_of t) ?ts"
    then obtain t where t: "t \<in> set ?ts" "k < key_of t" by (auto simp: list_ex_iff)
    then have "?ts \<noteq> []" by auto
    with t latest_greatest(2) [OF this t(1)] show "?ts \<noteq> [] \<and> k < key_of (latest ?ts)" by simp
  qed (auto simp: list_ex_iff intro: latest_greatest(1))
  show ?thesis
    unfolding newer using assms latest_greatest [of ?ts]
    by (simp add: check_upstream_update_def prog_simps run_def say_def Let_def list_all_iff)
qed


text \<open>Programs with given answers, which change no file.\<close>

definition answering :: "(string list \<Rightarrow> (int \<times> string) option) \<Rightarrow> shell" where
  "answering a l argv dir f = (case a argv of None \<Rightarrow> None | Some (rc, out) \<Rightarrow> Some (rc, out, f))"

definition tag_list :: string where
  "tag_list = ''aa'' @ [CHR 0x09] @ ''refs/tags/v9.2.0'' @ newline @
     ''bb'' @ [CHR 0x09] @ ''refs/tags/v10.0.0'' @ newline @ ''cc'' @ [CHR 0x09] @ ''refs/tags/v10.0.0^{}'' @ newline @
     ''dd'' @ [CHR 0x09] @ ''refs/tags/v10.1.0-rc1'' @ newline"

definition bare_host :: world where
  "bare_host = \<lparr>fs = (\<lambda>_. None), cwd = ''/'', env = (\<lambda>_. None), log = []\<rparr>"

theorem upstream_notice_witness:
  "log (snd (check_upstream_update (answering (\<lambda>_. Some (0, tag_list))) ''/t/qemu'' (Some ''v9.2.0'') bare_host)) =
     [Ran [''git'', ''ls-remote'', ''--tags'', ''origin''] (Some ''/t/qemu''),
      Said ''qemu upstream update available: configured v9.2.0, latest v10.0.0'']"
proof -
  have tags: "listed_tags tag_list = [''v9.2.0'', ''v10.0.0'']" by code_simp
  have key: "semver_key (the (Some ''v9.2.0'')) = Inr (Version [9, 2, 0])" by code_simp
  have "list_ex (\<lambda>t. Version [9, 2, 0] < key_of t) [''v9.2.0'', ''v10.0.0'']" "latest [''v9.2.0'', ''v10.0.0''] = ''v10.0.0''"
    "basename ''/t/qemu'' = ''qemu''"
    by code_simp+
  then show ?thesis
    using upstream_notice [OF _ key, of "answering (\<lambda>_. Some (0, tag_list))" bare_host "''/t/qemu''" tag_list "fs bare_host"]
    by (simp add: tags answering_def truthy_def bare_host_def)
qed

section \<open>QEMU: properties\<close>

lemma match_number_digits:
  "str_isdigit a \<Longrightarrow> rest = [] \<or> \<not> is_digit (hd rest) \<Longrightarrow> match_number (a @ rest) = Some (a, rest)"
proof -
  assume a: "str_isdigit a" and rest: "rest = [] \<or> \<not> is_digit (hd rest)"
  then have "takeWhile is_digit (a @ rest) = a" "dropWhile is_digit (a @ rest) = rest"
    by (cases rest; auto simp: str_isdigit_def list_all_iff takeWhile_append dropWhile_append takeWhile_eq_all_conv)+
  then show ?thesis using a by (simp add: match_number_def str_isdigit_def Let_def)
qed

lemma match_triple_digits:
  assumes "str_isdigit a" "str_isdigit b" "str_isdigit c" and "rest = [] \<or> \<not> is_digit (hd rest)"
  shows "match_triple (a @ ''.'' @ b @ ''.'' @ c @ rest) = Some (a @ ''.'' @ b @ ''.'' @ c)"
proof -
  have dot: "\<not> is_digit (CHR ''.'')" by (simp add: is_digit_def)
  have "match_number (a @ CHR ''.'' # b @ CHR ''.'' # c @ rest) = Some (a, CHR ''.'' # b @ CHR ''.'' # c @ rest)"
    "match_number (b @ CHR ''.'' # c @ rest) = Some (b, CHR ''.'' # c @ rest)"
    "match_number (c @ rest) = Some (c, rest)"
    using assms dot by (auto intro!: match_number_digits)
  then show ?thesis by (simp add: match_triple_def match_dot_def)
qed

lemma qemu_banner_version:
  assumes "str_isdigit a" "str_isdigit b" "str_isdigit c" and "rest = [] \<or> \<not> is_digit (hd rest)"
  shows "search_version (''QEMU emulator version '' @ a @ ''.'' @ b @ ''.'' @ c @ rest) = Some (a @ ''.'' @ b @ ''.'' @ c)"
proof -
  have "\<not> is_space (hd a)" "a \<noteq> []"
    using assms(1) by (auto simp: str_isdigit_def is_digit_def is_space_def Let_def list_all_iff dest!: hd_in_set)
  then have "dropWhile is_space (a @ x) = a @ x" for x by (cases a) auto
  then show ?thesis
    using match_triple_digits [OF assms] by (simp add: match_version_def is_space_def)
qed


text \<open>
  C33. A build of the release that is asked for is recognised: where QEMU names itself with the numbers of
  the tag and offers \<open>vfio-user-pci\<close>, the check says yes, so the setup does not build it again; with other numbers it says no.
\<close>

theorem built_release_recognised:
  assumes "which w ''qemu-system-x86_64''"
    and "sh (log w) [''qemu-system-x86_64'', ''-device'', ''help''] None (fs w) = Some (rc, help, f)"
    and "contains ''vfio-user-pci'' help"
    and "sh (log w @ [Ran [''qemu-system-x86_64'', ''-device'', ''help''] None]) [''qemu-system-x86_64'', ''--version''] None f =
      Some (0, out, f')"
    and "splitlines out = (''QEMU emulator version '' @ a @ ''.'' @ b @ ''.'' @ c @ rest) # lines"
    and "str_isdigit a" "str_isdigit b" "str_isdigit c" "rest = [] \<or> \<not> is_digit (hd rest)"
    and "truthy tag"
  shows "fst (is_qemu_vfio_user_supported which sh tag w) = Inr (a @ ''.'' @ b @ ''.'' @ c = lstrip (CHR ''v'') (the tag))"
proof -
  have "truthy (Some (a @ ''.'' @ b @ ''.'' @ c))"
    by (cases a) (simp_all add: truthy_def)
  moreover have "fst (get_qemu_system_x86_64_version sh
      (w\<lparr>fs := f, log := log w @ [Ran [''qemu-system-x86_64'', ''-device'', ''help''] None]\<rparr>)) = Inr (Some (a @ ''.'' @ b @ ''.'' @ c))"
    unfolding get_qemu_system_x86_64_version_def prog_simps run_def
    using assms(4,5) qemu_banner_version [OF assms(6-9)] by (simp add: Let_def)
  ultimately show ?thesis
    using assms(1-3,10)
    by (auto simp: is_qemu_vfio_user_supported_def prog_simps run_def Let_def split: prod.splits sum.splits)
qed

definition qemu_answers :: "string list \<Rightarrow> (int \<times> string) option" where
  "qemu_answers argv =
     (if ''help'' \<in> set argv then Some (0, ''name vfio-user-pci, bus PCI'')
      else Some (0, ''QEMU emulator version 11.1.0 (v11.1.0)'' @ newline @ ''Copyright''))"

theorem built_release_recognised_witness:
  "fst (is_qemu_vfio_user_supported (\<lambda>_ _. True) (answering qemu_answers) (Some ''v11.1.0'') bare_host) = Inr True"
proof -
  have listed: "contains ''vfio-user-pci'' ''name vfio-user-pci, bus PCI''" by code_simp
  have out: "splitlines (''QEMU emulator version 11.1.0 (v11.1.0)'' @ newline @ ''Copyright'') =
      (''QEMU emulator version '' @ ''11'' @ ''.'' @ ''1'' @ ''.'' @ ''0'' @ '' (v11.1.0)'') # [''Copyright'']"
    by code_simp
  have digits: "str_isdigit ''11''" "str_isdigit ''1''" "str_isdigit ''0''" "\<not> is_digit (hd '' (v11.1.0)'')" "truthy (Some ''v11.1.0'')"
    by code_simp+
  have "fst (is_qemu_vfio_user_supported (\<lambda>_ _. True) (answering qemu_answers) (Some ''v11.1.0'') bare_host) =
      Inr (''11'' @ ''.'' @ ''1'' @ ''.'' @ ''0'' = lstrip (CHR ''v'') (the (Some ''v11.1.0'')))"
    by (rule built_release_recognised [OF _ _ listed _ out digits(1-3) disjI2 [OF digits(4)] digits(5)])
      (simp_all add: answering_def qemu_answers_def)
  then show ?thesis by (simp add: lstrip_def)
qed

text \<open>A QEMU that prints no version makes the check fail with IndexError; nothing catches it.\<close>

lemma silent_qemu_raises:
  "sh (log w) [''qemu-system-x86_64'', ''--version''] None (fs w) = Some (0, [], f) \<Longrightarrow>
     fst (get_qemu_system_x86_64_version sh w) = Inl IndexError"
  by (simp add: get_qemu_system_x86_64_version_def prog_simps run_def splitlines_def Let_def)

end
