(* ===== verification/Setup_Build.thy ===== *)
theory Setup_Build
  imports Setup_Versions
begin

text \<open>
  The build recipes of \<open>workspace_setup.py\<close> and what removes earlier builds from the host (lines 120 to 197, 249
  to 317 and 702 to 839). \<open>glob\<close> gives the paths that match a pattern in the file system, and \<open>cpus\<close> the number of
  processors; both are the machine's. With \<open>shell=True\<close>, \<open>subprocess\<close> runs \<open>/bin/sh -c\<close> followed by the list it
  is given. Messages are kept where they report an outcome.
\<close>

section \<open>Removing QEMU\<close>

type_synonym glob = "string \<Rightarrow> filesystem \<Rightarrow> path list"

definition get_qemu_dirs :: "world \<Rightarrow> path list" where
  "get_qemu_dirs w =
     (if path_exists w ''/usr/bin/qemu-system-x86_64'' then [''/usr/bin''] else []) @
     (if path_exists w ''/usr/local/bin/qemu-system-x86_64'' then [''/usr/local/bin''] else [])"

text \<open>A command that is allowed to fail.\<close>

definition attempt :: "shell \<Rightarrow> string list \<Rightarrow> path option \<Rightarrow> (world, unit) prog" where
  "attempt sh argv dir = tryE (run_check sh argv dir) (\<lambda>e. e = CalledProcessError) (\<lambda>_. ret ())"

definition remove_if_there :: "shell \<Rightarrow> string \<Rightarrow> path \<Rightarrow> (world, unit) prog" where
  "remove_if_there sh flag p =
     bindE (getE (\<lambda>w. path_exists w p)) (\<lambda>there. whenE there (attempt sh [''sudo'', ''rm'', flag, p] None))"

definition qemu_binaries :: "string list" where
  "qemu_binaries =
     [''qemu-system-i386'', ''qemu-system-x86_64'', ''qemu-system-arm'', ''qemu-system-aarch64'', ''qemu-system-riscv32'',
      ''qemu-system-riscv64'', ''qemu-ga'', ''qemu-img'', ''qemu-io'', ''qemu-nbd'', ''qemu-storage-daemon'', ''qemu-edid'',
      ''qemu-pr-helper'', ''qemu-vmsr-helper'']"

definition qemu_files :: "path list" where
  "qemu_files =
     [''/usr/libexec/qemu-bridge-helper'', ''/usr/include/qemu-plugin.h'', ''/usr/share/applications/qemu.desktop'']"

definition qemu_directories :: "path list" where
  "qemu_directories =
     [''/usr/share/qemu/firmware'', ''/usr/share/qemu/dtb'', ''/usr/share/qemu/keymaps'', ''/usr/share/qemu'']"

definition ninja_uninstall :: "string list" where
  "ninja_uninstall = [''sudo'', ''ninja'', ''uninstall'']"

definition uninstall_qemu_distro :: "glob \<Rightarrow> shell \<Rightarrow> path \<Rightarrow> (world, unit) prog" where
  "uninstall_qemu_distro glob sh repo_path =
     (let build_dir = path_join repo_path ''build'';
          install_log = path_join (path_join build_dir ''meson-logs'') ''install-log.txt''
      in bindE (getE (\<lambda>w. path_exists w install_log)) (\<lambda>there.
         bindE (whenE there (attempt sh ninja_uninstall (Some build_dir))) (\<lambda>_.
         bindE (getE get_qemu_dirs) (\<lambda>qemu_dirs.
         seqs
           [forE qemu_dirs (\<lambda>d. forE qemu_binaries (\<lambda>item. remove_if_there sh ''-f'' (path_join d item))),
            forE qemu_files (remove_if_there sh ''-f''),
            forE qemu_directories (remove_if_there sh ''-rf''),
            bindE (getE (\<lambda>w. glob ''/usr/share/icons/hicolor/*/apps/qemu.*'' (fs w))) (\<lambda>icons.
              forE icons (\<lambda>icon. attempt sh [''sudo'', ''rm'', ''-f'', icon] None)),
            say ''QEMU distro uninstalled from host system'']))))"

section \<open>Removing Verilator\<close>

definition by_shell :: "string list \<Rightarrow> string list" where
  "by_shell argv = [''/bin/sh'', ''-c''] @ argv"

text \<open>The lines of an installation manifest that are not blank.\<close>

definition manifest_files :: "string \<Rightarrow> path list" where
  "manifest_files c = filter (\<lambda>l. l \<noteq> []) (map strip (text_lines c))"

definition remove_installed :: "shell \<Rightarrow> path \<Rightarrow> (world, unit) prog" where
  "remove_installed sh build_dir =
     tryE
       (bindE (read_text (path_join build_dir ''install_manifest.txt'')) (\<lambda>c.
          whenE (manifest_files c \<noteq> []) (run_check sh ([''sudo'', ''rm'', ''-f''] @ manifest_files c) None)))
       (\<lambda>e. e = CalledProcessError) (\<lambda>_. attempt sh ninja_uninstall (Some build_dir))"

text \<open>What is found under a pattern is to be removed with one command, given as a list to a shell.\<close>

definition remove_matches :: "glob \<Rightarrow> shell \<Rightarrow> string \<Rightarrow> (world, unit) prog" where
  "remove_matches glob sh pattern =
     bindE (getE (\<lambda>w. glob pattern (fs w))) (\<lambda>ps.
       whenE (ps \<noteq> []) (attempt sh (by_shell ([''sudo'', ''rm'', ''-f''] @ ps)) None))"

definition verilator_directories :: "path list" where
  "verilator_directories = [''/usr/local/include/fstcpp'', ''/usr/local/include/vltstd'', ''/usr/local/examples'']"

definition verilator_files :: "path list" where
  "verilator_files = [''/usr/local/verilator-config.cmake'', ''/usr/local/verilator-config-version.cmake'']"

definition uninstall_verilator_distro :: "glob \<Rightarrow> shell \<Rightarrow> path \<Rightarrow> (world, unit) prog" where
  "uninstall_verilator_distro glob sh repo_path =
     (let build_dir = path_join repo_path ''build''
      in bindE (getE (\<lambda>w. path_exists w build_dir \<and> path_exists w (path_join build_dir ''install_manifest.txt''))) (\<lambda>there.
         seqs
           [whenE there (remove_installed sh build_dir),
            remove_matches glob sh ''/usr/local/bin/verilator*'',
            forE verilator_directories (remove_if_there sh ''-rf''),
            forE verilator_files (remove_if_there sh ''-f''),
            remove_matches glob sh ''/usr/local/include/verilated*'',
            say ''Verilator distro uninstalled from host system'']))"

section \<open>Building\<close>

text \<open>\<open>str(os.cpu_count() or 2)\<close>.\<close>

definition cpu_jobs :: "nat option \<Rightarrow> string" where
  "cpu_jobs cpus = show_nat (case cpus of None \<Rightarrow> 2 | Some n \<Rightarrow> if n = 0 then 2 else n)"

text \<open>\<open>tag in text\<close> and \<open>tag.lstrip('v')\<close>, which fail on \<open>None\<close>.\<close>

definition tag_in :: "string option \<Rightarrow> string \<Rightarrow> (world, bool) prog" where
  "tag_in tag s = (case tag of None \<Rightarrow> raise TypeError | Some t \<Rightarrow> ret (contains t s))"

definition bare_tag :: "string option \<Rightarrow> (world, string) prog" where
  "bare_tag tag = (case tag of None \<Rightarrow> raise (AttributeError ''lstrip'') | Some t \<Rightarrow> ret (lstrip (CHR ''v'') t))"

definition rebuild_dir :: "shell \<Rightarrow> path \<Rightarrow> (world, unit) prog" where
  "rebuild_dir sh build_dir =
     bindE (getE (\<lambda>w. path_exists w build_dir)) (\<lambda>there.
       seqE (whenE there (run_check sh [''sudo'', ''rm'', ''-rf'', build_dir] None))
         (os_makedirs build_dir False))"

text \<open>Configuring, a second time in a fresh directory when the first fails.\<close>

definition configure_build :: "shell \<Rightarrow> string list \<Rightarrow> path \<Rightarrow> (world, unit) prog" where
  "configure_build sh config_cmd build_dir =
     seqE (rebuild_dir sh build_dir)
       (tryE (run_check sh config_cmd (Some build_dir)) (\<lambda>e. e = CalledProcessError)
         (\<lambda>_. seqE (rebuild_dir sh build_dir) (run_check sh config_cmd (Some build_dir))))"

definition verilator_config :: "string list" where
  "verilator_config =
     [''cmake'', ''-G'', ''Ninja'', ''-Wno-dev'', ''-DCMAKE_BUILD_TYPE=Release'', ''-DCMAKE_INSTALL_PREFIX=/usr/local'', ''..'']"

definition qemu_config :: "string list" where
  "qemu_config =
     [''../configure'', ''--prefix=/usr'', ''--enable-kvm'', ''--enable-slirp'', ''--disable-user'', ''--extra-cflags=-g -O2'',
      ''--target-list='' @ ''i386-softmmu,x86_64-softmmu,'' @ ''arm-softmmu,aarch64-softmmu,'' @ ''riscv32-softmmu,riscv64-softmmu'']"

definition build_libvfio_user :: "shell \<Rightarrow> path \<Rightarrow> (world, unit) prog" where
  "build_libvfio_user sh repo_path =
     (let build_dir = path_join repo_path ''build''
      in bindE (getE (\<lambda>w. path_exists w build_dir)) (\<lambda>there.
         seqs
           [whenE there (rmtree build_dir),
            run_check sh [''meson'', ''setup'', ''build'', ''-Dc_args=\"-Wno-error=deprecated-declarations\"''] (Some repo_path),
            run_check sh [''meson'', ''compile'', ''-C'', ''build''] (Some repo_path)]))"

definition build_verilator :: "nat option \<Rightarrow> shell \<Rightarrow> path \<Rightarrow> string option \<Rightarrow> (world, unit) prog" where
  "build_verilator cpus sh build_dir tag =
     seqE (configure_build sh verilator_config build_dir)
       (tryE
         (bindE
           (seqs
             [run_check sh [''ninja'', ''-j'', cpu_jobs cpus] (Some build_dir),
              run_check sh [''sudo'', ''cmake'', ''--install'', ''.''] (Some build_dir),
              bindE (run sh False (by_shell [''hash'', ''-r'']) None) (\<lambda>_. ret ())]) (\<lambda>_.
          bindE (run sh False [''verilator'', ''--version''] None) (\<lambda>(_, out).
          bindE (tag_in tag out) (\<lambda>same.
            say (if same then ''Verified Verilator installation'' else ''Warning: Verilator version mismatch'')))))
         (\<lambda>e. e = CalledProcessError) (\<lambda>_. say ''Error: Failed to compile Verilator''))"

definition build_qemu :: "nat option \<Rightarrow> shell \<Rightarrow> path \<Rightarrow> string option \<Rightarrow> (world, unit) prog" where
  "build_qemu cpus sh build_dir tag =
     seqE (configure_build sh qemu_config build_dir)
       (tryE
         (bindE
           (seqs
             [run_check sh [''ninja'', ''-j'', cpu_jobs cpus] (Some build_dir),
              run_check sh [''sudo'', ''-E'', ''ninja'', ''install''] (Some build_dir),
              bindE (run sh False (by_shell [''hash'', ''-r'']) None) (\<lambda>_. ret ())]) (\<lambda>_.
          bindE (get_qemu_system_x86_64_version sh) (\<lambda>qemu_ver.
          bindE (bare_tag tag) (\<lambda>expected_ver.
            say (if qemu_ver = Some expected_ver then ''Verified QEMU installation'' else ''Warning: QEMU version mismatch'')))))
         (\<lambda>e. e = CalledProcessError) (\<lambda>_. say ''Error: Failed to compile QEMU''))"

text \<open>Whether there is something to build; an installation of another version is removed first.\<close>

definition needs_build ::
  "glob \<Rightarrow> (world \<Rightarrow> string \<Rightarrow> bool) \<Rightarrow> shell \<Rightarrow> string \<Rightarrow> path \<Rightarrow> string option \<Rightarrow> (world, bool) prog" where
  "needs_build glob which sh repo_name repo_path tag =
     (if repo_name \<in> {''linux'', ''openPCIE''} then ret False
      else if repo_name = ''libvfio-user'' then
        getE (\<lambda>w. \<not> path_exists w (path_join (path_join (path_join repo_path ''build'') ''lib'') ''libvfio-user.so''))
      else if repo_name = ''verilator'' then
        bindE (check_upstream_update sh repo_path tag) (\<lambda>_.
        bindE (run sh False [''which'', ''verilator''] None) (\<lambda>(returncode, _).
          if returncode = 0 then
            bindE (run sh False [''verilator'', ''--version''] None) (\<lambda>(_, out).
            bindE (tag_in tag out) (\<lambda>same.
              if same then ret False
              else bindE (uninstall_verilator_distro glob sh repo_path) (\<lambda>_. ret True)))
          else ret True))
      else if repo_name = ''qemu'' then
        bindE (check_upstream_update sh repo_path tag) (\<lambda>_.
        bindE (is_qemu_vfio_user_supported which sh tag) (\<lambda>supported.
          if supported then ret False
          else bindE (getE get_qemu_dirs) (\<lambda>qemu_dirs.
            bindE (whenE (qemu_dirs \<noteq> []) (uninstall_qemu_distro glob sh repo_path)) (\<lambda>_. ret True))))
      else ret False)"

definition build_repo ::
  "glob \<Rightarrow> (world \<Rightarrow> string \<Rightarrow> bool) \<Rightarrow> nat option \<Rightarrow> shell \<Rightarrow> string \<Rightarrow> path \<Rightarrow> string option \<Rightarrow> (world, unit) prog" where
  "build_repo glob which cpus sh repo_name repo_path tag =
     bindE (needs_build glob which sh repo_name repo_path tag) (\<lambda>build.
       whenE build
         (let build_dir = path_join repo_path ''build''
          in tryE
            (seqE
              (if repo_name = ''libvfio-user'' then build_libvfio_user sh repo_path
               else if repo_name = ''verilator'' then build_verilator cpus sh build_dir tag
               else build_qemu cpus sh build_dir tag)
              (say (''Finished compiling '' @ repo_name)))
            (\<lambda>e. e = CalledProcessError)
            (\<lambda>_. say (''Compilation failed for '' @ repo_name))))"

section \<open>Removing QEMU: properties\<close>

text \<open>A loop whose steps return and keep a predicate, one of which makes it hold.\<close>

lemma leaves_forE:
  assumes "\<And>x. x \<in> set xs \<Longrightarrow> throws (\<lambda>_. False) (f x)" and "\<And>x. x \<in> set xs \<Longrightarrow> keeps P (f x)"
    and "x \<in> set xs" and "leaves P (f x)"
  shows "leaves P (forE xs f)"
  using assms(1-3)
proof (induction xs)
  case (Cons y ys)
  show ?case
  proof (cases "x \<in> set ys")
    case True
    then show ?thesis using Cons by (auto intro!: leaves_after)
  next
    case False
    then have "x = y" using Cons.prems(3) by simp
    then show ?thesis using Cons.prems(2) assms(4) by (auto intro!: leaves_then keeps_forE)
  qed
qed simp

text \<open>
  What is relied on: \<open>rm\<close> removes what it is given, with what is below it, and reports success; the
  uninstaller of the build removes files, and nothing else.
\<close>

definition rm_like :: "shell \<Rightarrow> bool" where
  "rm_like sh \<longleftrightarrow> (\<forall>l flag p f. \<exists>out. sh l [''sudo'', ''rm'', flag, p] None f =
     Some (0, out, \<lambda>q. if q = p \<or> prefix (p @ ''/'') q then None else f q))"

definition only_removes :: "shell \<Rightarrow> string list \<Rightarrow> bool" where
  "only_removes sh argv \<longleftrightarrow> (\<forall>l dir f. \<exists>rc out f'. sh l argv dir f = Some (rc, out, f') \<and> f' \<subseteq>\<^sub>m f)"

lemma rm_only_removes: "rm_like sh \<Longrightarrow> \<exists>rc out f'. sh l [''sudo'', ''rm'', flag, p] None f = Some (rc, out, f') \<and> f' \<subseteq>\<^sub>m f"
  unfolding rm_like_def by (fastforce simp: map_le_def split: if_splits)

text \<open>A path that is gone stays gone, whatever else is removed; and every step returns.\<close>

definition removes :: "(world, unit) prog \<Rightarrow> bool" where
  "removes m \<longleftrightarrow> (\<forall>w. \<exists>w'. m w = (Inr (), w') \<and> fs w' \<subseteq>\<^sub>m fs w \<and> cwd w' = cwd w)"

lemma removes_keeps: "removes m \<Longrightarrow> keeps (\<lambda>w. \<not> path_exists w p) m"
proof (rule keepsI)
  fix w :: world assume "removes m" "\<not> path_exists w p"
  then obtain w' where "m w = (Inr (), w')" "fs w' \<subseteq>\<^sub>m fs w" "cwd w' = cwd w"
    unfolding removes_def by blast
  with \<open>\<not> path_exists w p\<close> show "\<not> path_exists (snd (m w)) p" using exists_grow [of w' w p] by auto
qed

lemma removes_throws: "removes m \<Longrightarrow> throws (\<lambda>_. False) m"
  by (simp add: removes_def throws_def) (metis fst_conv sum.distinct(1))

named_theorems removing "programs that return and only remove"

lemma removes_ret [removing]: "removes (ret ())" and removes_say [removing]: "removes (say s)"
  by (simp_all add: removes_def prog_simps say_def)

lemma removes_seqE [removing]:
  assumes "removes m" and "removes n"
  shows "removes (seqE m n)"
  unfolding removes_def
proof
  fix w :: world
  obtain v where v: "m w = (Inr (), v)" "fs v \<subseteq>\<^sub>m fs w" "cwd v = cwd w" using assms(1) unfolding removes_def by blast
  obtain u where "n v = (Inr (), u)" "fs u \<subseteq>\<^sub>m fs v" "cwd u = cwd v" using assms(2) unfolding removes_def by blast
  with v show "\<exists>u. seqE m n w = (Inr (), u) \<and> fs u \<subseteq>\<^sub>m fs w \<and> cwd u = cwd w"
    by (intro exI [of _ u]) (auto simp: prog_simps intro: map_le_trans)
qed

lemma removes_getE [removing]: "(\<And>x. removes (f x)) \<Longrightarrow> removes (bindE (getE g) f)"
  by (simp add: removes_def prog_simps)

lemma removes_whenE [removing]: "removes m \<Longrightarrow> removes (whenE b m)"
  by (simp add: whenE_def removes_ret)

lemma removes_seqs [removing]: "(\<And>m. m \<in> set ms \<Longrightarrow> removes m) \<Longrightarrow> removes (seqs ms)"
  by (induction ms) (simp_all add: removes_ret removes_seqE)

lemma removes_forE [removing]: "(\<And>x. x \<in> set xs \<Longrightarrow> removes (f x)) \<Longrightarrow> removes (forE xs f)"
  by (induction xs) (simp_all add: removes_ret removes_seqE)

lemma removes_attempt:
  assumes "\<And>l f. \<exists>rc out f'. sh l argv dir f = Some (rc, out, f') \<and> f' \<subseteq>\<^sub>m f"
  shows "removes (attempt sh argv dir)"
  unfolding removes_def
proof
  fix w :: world
  obtain rc out f' where "sh (log w) argv dir (fs w) = Some (rc, out, f')" "f' \<subseteq>\<^sub>m fs w" using assms by blast
  then show "\<exists>w'. attempt sh argv dir w = (Inr (), w') \<and> fs w' \<subseteq>\<^sub>m fs w \<and> cwd w' = cwd w"
    by (simp add: attempt_def run_check_def run_def prog_simps Let_def)
qed

lemma removes_rm [removing]: "rm_like sh \<Longrightarrow> removes (attempt sh [''sudo'', ''rm'', flag, p] None)"
  by (intro removes_attempt) (rule rm_only_removes)

lemma removes_if_there [removing]: "rm_like sh \<Longrightarrow> removes (remove_if_there sh flag p)"
  unfolding remove_if_there_def by (intro removing)

text \<open>The path itself is gone.\<close>

lemma rm_removes:
  assumes "rm_like sh" and "prefix ''/'' p"
  shows "leaves (\<lambda>w. \<not> path_exists w p) (remove_if_there sh flag p)"
proof (rule leavesI)
  fix w :: world
  show "\<not> path_exists (snd (remove_if_there sh flag p w)) p"
  proof (cases "path_exists w p")
    case True
    obtain out where "sh (log w) [''sudo'', ''rm'', flag, p] None (fs w) =
        Some (0, out, \<lambda>q. if q = p \<or> prefix (p @ ''/'') q then None else fs w q)"
      using assms(1) unfolding rm_like_def by blast
    then have "fs (snd (remove_if_there sh flag p w)) p = None"
      using True by (simp add: remove_if_there_def attempt_def run_check_def run_def prog_simps Let_def)
    then show ?thesis using assms(2) by (simp add: path_exists_def stat_plain at_absolute)
  next
    case False
    then show ?thesis by (simp add: remove_if_there_def prog_simps)
  qed
qed

lemma qemu_gone_from:
  assumes rm: "rm_like sh" and ninja: "only_removes sh ninja_uninstall"
    and d: "d = ''/usr/bin'' \<or> d = ''/usr/local/bin''"
  shows "\<not> path_exists (snd (uninstall_qemu_distro glob sh repo_path w)) (path_join d ''qemu-system-x86_64'')"
    and "fst (uninstall_qemu_distro glob sh repo_path w) = Inr ()"
proof -
  let ?p = "path_join d ''qemu-system-x86_64''" and ?build = "path_join repo_path ''build''"
  define loop where "loop = (\<lambda>d. forE qemu_binaries (\<lambda>item. remove_if_there sh ''-f'' (path_join d item)))"
  define rest where "rest = seqs
     [forE qemu_files (remove_if_there sh ''-f''), forE qemu_directories (remove_if_there sh ''-rf''),
      bindE (getE (\<lambda>w. glob ''/usr/share/icons/hicolor/*/apps/qemu.*'' (fs w))) (\<lambda>icons.
        forE icons (\<lambda>icon. attempt sh [''sudo'', ''rm'', ''-f'', icon] None)),
      say ''QEMU distro uninstalled from host system'']"
  have loops: "removes (forE ds loop)" for ds unfolding loop_def by (intro removing rm)
  have rest: "removes rest" unfolding rest_def using rm by (auto intro!: removing)
  have first: "removes (whenE b (attempt sh ninja_uninstall (Some ?build)))" for b
    using ninja unfolding only_removes_def by (intro removing removes_attempt) blast
  obtain w1 where w1: "whenE (path_exists w (path_join (path_join ?build ''meson-logs'') ''install-log.txt''))
      (attempt sh ninja_uninstall (Some ?build)) w = (Inr (), w1)"
    using first unfolding removes_def by blast
  have run: "uninstall_qemu_distro glob sh repo_path w = seqE (forE (get_qemu_dirs w1) loop) rest w1"
    using w1 by (simp add: uninstall_qemu_distro_def Let_def bindE_def getE_def loop_def rest_def)
  have "\<not> path_exists (snd (forE (get_qemu_dirs w1) loop w1)) ?p"
  proof (cases "d \<in> set (get_qemu_dirs w1)")
    case True
    have one: "removes (loop d)" for d unfolding loop_def by (intro removing rm)
    have "leaves (\<lambda>w. \<not> path_exists w ?p) (loop d)"
      unfolding loop_def
    proof (rule leaves_forE [where x = "''qemu-system-x86_64''"])
      show "leaves (\<lambda>w. \<not> path_exists w ?p) (remove_if_there sh ''-f'' ?p)"
        using d by (intro rm_removes rm) (auto simp: path_join_def)
    qed (auto simp: qemu_binaries_def intro!: removes_throws removes_keeps removes_if_there rm)
    then have "leaves (\<lambda>w. \<not> path_exists w ?p) (forE (get_qemu_dirs w1) loop)"
      using True one by (intro leaves_forE [where x = d]) (auto intro: removes_throws removes_keeps)
    then show ?thesis by (rule leavesD)
  next
    case False
    then have "\<not> path_exists w1 ?p"
      using d by (auto simp: get_qemu_dirs_def path_join_def suffix_def)
    then show ?thesis using keepsD [OF removes_keeps [OF loops]] by blast
  qed
  moreover obtain w2 w3 where "forE (get_qemu_dirs w1) loop w1 = (Inr (), w2)" "rest w2 = (Inr (), w3)"
    using loops rest unfolding removes_def by blast
  ultimately show "\<not> path_exists (snd (uninstall_qemu_distro glob sh repo_path w)) ?p"
    and "fst (uninstall_qemu_distro glob sh repo_path w) = Inr ()"
    unfolding run using keepsD [OF removes_keeps [OF rest], of w2 ?p] by (simp_all add: seqE_Inr)
qed



definition rm_shell :: shell where
  "rm_shell l argv dir f =
     (case argv of
        [a, b, flag, p] \<Rightarrow>
          if a = ''sudo'' \<and> b = ''rm'' then Some (0, [], \<lambda>q. if q = p \<or> prefix (p @ ''/'') q then None else f q)
          else Some (1, [], f)
      | _ \<Rightarrow> Some (1, [], f))"

definition qemu_host :: world where
  "qemu_host = \<lparr>fs = map_of [(''/usr/bin/qemu-system-x86_64'', File []), (''/usr/bin/qemu-img'', File [])], cwd = ''/'',
     env = (\<lambda>_. None), log = []\<rparr>"


section \<open>Removing Verilator: properties\<close>

text \<open>
  What is relied on: a shell given a command string and further words runs the command without them; and
  \<open>sudo\<close> without a command prints its usage and fails.
\<close>

definition sh_c_like :: "shell \<Rightarrow> bool" where
  "sh_c_like sh \<longleftrightarrow>
     (\<forall>l c args dir f. sh l (by_shell (c # args)) dir f = sh l [c] dir f) \<and>
     (\<forall>l dir f. \<exists>out. sh l [''sudo''] dir f = Some (1, out, f))"

lemma keeps_remove_matches:
  assumes "sh_c_like sh"
  shows "keeps (\<lambda>w. P (fs w p)) (remove_matches glob sh pattern)"
proof (rule keepsI)
  fix w :: world assume P: "P (fs w p)"
  have sudo: "sh (log w) (by_shell (''sudo'' # args)) None (fs w) = sh (log w) [''sudo''] None (fs w)" for args
    using assms unfolding sh_c_like_def by blast
  obtain out where "sh (log w) [''sudo''] None (fs w) = Some (1, out, fs w)"
    using assms unfolding sh_c_like_def by blast
  with P show "P (fs (snd (remove_matches glob sh pattern w)) p)"
    using sudo [of "''rm'' # ''-f'' # glob pattern (fs w)"]
    by (simp add: remove_matches_def attempt_def run_check_def run_def prog_simps Let_def)
qed

definition spares_node :: "path \<Rightarrow> shell \<Rightarrow> string list \<Rightarrow> bool" where
  "spares_node p sh argv \<longleftrightarrow> (\<forall>l dir f rc out f'. sh l argv dir f = Some (rc, out, f') \<longrightarrow> f' p = f p)"

lemma keeps_remove_if_there:
  assumes "spares_node p sh [''sudo'', ''rm'', flag, q]"
  shows "keeps (\<lambda>w. P (fs w p)) (remove_if_there sh flag q)"
proof -
  have "keeps (\<lambda>w. P (fs w p)) (run sh True [''sudo'', ''rm'', flag, q] None)"
  proof (rule keepsI)
    fix w :: world assume "P (fs w p)"
    then show "P (fs (snd (run sh True [''sudo'', ''rm'', flag, q] None w)) p)"
      using assms [unfolded spares_node_def, rule_format, of "log w" None "fs w"]
      by (cases "sh (log w) [''sudo'', ''rm'', flag, q] None (fs w)") (auto simp: run_def Let_def)
  qed
  then show ?thesis
    unfolding remove_if_there_def attempt_def run_check_def by (intro preserve)
qed

text \<open>
  Removing Verilator leaves its programs and headers behind: they are found by their patterns, and
  the command that is to remove them is a list given to a shell, which runs only its first word. So where the
  build left no manifest, a file that is not among the three directories and two files removed one by one is still there.
\<close>

theorem verilator_programs_stay:
  assumes "sh_c_like sh"
    and "list_all (\<lambda>d. spares_node p sh [''sudo'', ''rm'', ''-rf'', d]) verilator_directories"
    and "list_all (\<lambda>f. spares_node p sh [''sudo'', ''rm'', ''-f'', f]) verilator_files"
    and "\<not> path_exists w (path_join (path_join repo_path ''build'') ''install_manifest.txt'')"
  shows "fs (snd (uninstall_verilator_distro glob sh repo_path w)) p = fs w p"
proof -
  have 1: "keeps (\<lambda>v. fs v p = fs w p) (remove_matches glob sh pattern)" for pattern
    by (rule keeps_remove_matches [OF assms(1)])
  have 2: "keeps (\<lambda>v. fs v p = fs w p) (forE verilator_directories (remove_if_there sh ''-rf''))"
    using assms(2) by (intro keeps_forE keeps_remove_if_there) (simp add: list_all_iff)
  have 3: "keeps (\<lambda>v. fs v p = fs w p) (forE verilator_files (remove_if_there sh ''-f''))"
    using assms(3) by (intro keeps_forE keeps_remove_if_there) (simp add: list_all_iff)
  have 4: "keeps (\<lambda>v. fs v p = fs w p) (say s)" for s
    by (simp add: keeps_def say_def prog_simps)
  let ?ms = "[whenE False (remove_installed sh (path_join repo_path ''build'')),
      remove_matches glob sh ''/usr/local/bin/verilator*'', forE verilator_directories (remove_if_there sh ''-rf''),
      forE verilator_files (remove_if_there sh ''-f''), remove_matches glob sh ''/usr/local/include/verilated*'',
      say ''Verilator distro uninstalled from host system'']"
  have keep: "keeps (\<lambda>v. fs v p = fs w p) (seqs ?ms)"
  proof (rule keeps_seqs)
    fix m assume "m \<in> set ?ms"
    then show "keeps (\<lambda>v. fs v p = fs w p) m"
      unfolding list.set by (elim insertE emptyE) (simp_all only: whenE_def if_False keeps_ret 1 2 3 4)
  qed
  have "uninstall_verilator_distro glob sh repo_path w = seqs ?ms w"
    using assms(4) by (simp add: uninstall_verilator_distro_def Let_def bindE_def getE_def del: seqs.simps)
  then show ?thesis using keepsD [OF keep, of w] by (simp only: simp_thms)
qed

text \<open>A machine with \<open>rm\<close>, and \<open>sh\<close> as it is.\<close>

definition first_word :: "string list \<Rightarrow> string list" where
  "first_word argv =
     (case argv of
        a # b # c # _ \<Rightarrow> if a = ''/bin/sh'' \<and> b = ''-c'' then [c] else argv
      | _ \<Rightarrow> argv)"

definition rm_sh :: shell where
  "rm_sh l argv dir f = rm_shell l (first_word argv) dir f"

definition verilator_host :: world where
  "verilator_host = \<lparr>fs = map_of [(''/usr/local/bin/verilator'', File ''x''), (''/usr/local/examples'', Dir)], cwd = ''/'',
     env = (\<lambda>_. None), log = []\<rparr>"

theorem verilator_programs_stay_witness:
  "fs (snd (uninstall_verilator_distro (\<lambda>pattern f. [''/usr/local/bin/verilator'']) rm_sh ''/t/verilator'' verilator_host))
     ''/usr/local/bin/verilator'' = Some (File ''x'')"
proof -
  have "sh_c_like rm_sh"
    by (simp add: sh_c_like_def rm_sh_def first_word_def by_shell_def rm_shell_def)
  moreover have "list_all (\<lambda>d. spares_node ''/usr/local/bin/verilator'' rm_sh [''sudo'', ''rm'', ''-rf'', d]) verilator_directories"
    "list_all (\<lambda>d. spares_node ''/usr/local/bin/verilator'' rm_sh [''sudo'', ''rm'', ''-f'', d]) verilator_files"
    by (simp_all add: verilator_directories_def verilator_files_def spares_node_def rm_sh_def first_word_def rm_shell_def)
  moreover have "\<not> path_exists verilator_host (path_join (path_join ''/t/verilator'' ''build'') ''install_manifest.txt'')"
    by code_simp
  ultimately have "fs (snd (uninstall_verilator_distro (\<lambda>pattern f. [''/usr/local/bin/verilator'']) rm_sh ''/t/verilator'' verilator_host))
     ''/usr/local/bin/verilator'' = fs verilator_host ''/usr/local/bin/verilator''"
    by (rule verilator_programs_stay)
  then show ?thesis by (simp add: verilator_host_def)
qed

section \<open>Building: properties\<close>

text \<open>
  A build that fails is reported as finished: a failure of Ninja or of the installation is caught
  inside the recipe of QEMU, so the message of success that follows the recipe is printed after it.
\<close>

theorem failed_build_reported_finished:
  assumes "needs_build glob which sh ''qemu'' repo_path tag w = (Inr True, w1)"
    and "configure_build sh qemu_config (path_join repo_path ''build'') w1 = (Inr (), w2)"
    and "run_check sh [''ninja'', ''-j'', cpu_jobs cpus] (Some (path_join repo_path ''build'')) w2 = (Inl CalledProcessError, w3)"
  shows "build_repo glob which cpus sh ''qemu'' repo_path tag w =
    (Inr (), w3\<lparr>log := log w3 @ [Said ''Error: Failed to compile QEMU'', Said ''Finished compiling qemu'']\<rparr>)"
  using assms by (simp add: build_repo_def build_qemu_def Let_def prog_simps say_def)

definition broken_tools :: "string list \<Rightarrow> (int \<times> string) option" where
  "broken_tools argv = (if hd argv = ''ninja'' then Some (1, []) else Some (0, []))"

theorem failed_build_reported_finished_witness:
  "Said ''Finished compiling qemu'' \<in>
     set (log (snd (build_repo (\<lambda>_ _. []) (\<lambda>_ _. False) None (answering broken_tools) ''qemu'' ''/t/qemu'' None bare_host)))"
proof -
  let ?sh = "answering broken_tools" and ?dir = "path_join ''/t/qemu'' ''build''"
  let ?n = "needs_build (\<lambda>_ _. []) (\<lambda>_ _. False) ?sh ''qemu'' ''/t/qemu'' None bare_host"
  let ?c = "configure_build ?sh qemu_config ?dir (snd ?n)"
  have 1: "?n = (Inr True, snd ?n)" and 2: "?c = (Inr (), snd ?c)"
    and 3: "run_check ?sh [''ninja'', ''-j'', cpu_jobs None] (Some ?dir) (snd ?c) =
      (Inl CalledProcessError, snd (run_check ?sh [''ninja'', ''-j'', cpu_jobs None] (Some ?dir) (snd ?c)))"
  proof -
    have "fst ?n = Inr True" by code_simp
    then show "?n = (Inr True, snd ?n)" by (metis prod.collapse)
    have "fst ?c = Inr ()" by code_simp
    then show "?c = (Inr (), snd ?c)" by (metis prod.collapse)
    show "run_check ?sh [''ninja'', ''-j'', cpu_jobs None] (Some ?dir) (snd ?c) =
      (Inl CalledProcessError, snd (run_check ?sh [''ninja'', ''-j'', cpu_jobs None] (Some ?dir) (snd ?c)))"
      by (simp add: run_check_def run_def prog_simps answering_def broken_tools_def Let_def)
  qed
  from failed_build_reported_finished [OF 1 2 3] show ?thesis by simp
qed

text \<open>What is built already is left alone.\<close>

lemma built_libvfio_user_left:
  "path_exists w (path_join (path_join (path_join repo_path ''build'') ''lib'') ''libvfio-user.so'') \<Longrightarrow>
     build_repo glob which cpus sh ''libvfio-user'' repo_path tag w = (Inr (), w)"
  by (simp add: build_repo_def needs_build_def prog_simps)

lemma supported_qemu_left:
  "check_upstream_update sh repo_path tag w = (Inr (), w1) \<Longrightarrow>
   is_qemu_vfio_user_supported which sh tag w1 = (Inr True, w2) \<Longrightarrow>
     build_repo glob which cpus sh ''qemu'' repo_path tag w = (Inr (), w2)"
  by (simp add: build_repo_def needs_build_def prog_simps)

text \<open>Without a tag, a Verilator that is installed makes the setup fail with TypeError.\<close>

lemma untagged_verilator_raises:
  "run sh False [''which'', ''verilator''] None w = (Inr (0, out), w1) \<Longrightarrow>
   run sh False [''verilator'', ''--version''] None w1 = (Inr (rc, v), w2) \<Longrightarrow>
     build_repo glob which cpus sh ''verilator'' repo_path None w = (Inl TypeError, w2)"
  by (simp add: build_repo_def needs_build_def check_upstream_update_def truthy_def tag_in_def prog_simps)

end
