(* ===== verification/Setup_Config.thy ===== *)
theory Setup_Config
  imports Host "HOL-Library.Char_ord" "HOL-Library.List_Lexorder" "HOL-Library.Multiset"
begin

text \<open>
  The configuration \<open>workspace_setup.py\<close> compiles (its \<open>main\<close>, lines 1088 to 1239): from the blueprint in
  \<open>prerequisites_config.json\<close>, the configuration of an earlier run, and the scopes selected in the menu, to the
  dictionary that is written to \<open>.configs.json\<close> and that drives the rest of the setup.

  The dictionaries read from JSON are records with a field for each key the program uses. A key that is absent
  and one that is \<open>null\<close> are both \<open>None\<close>; a list that is absent is empty. The values have the types they have in
  the two files. What the menu and the prompts return is an argument.
\<close>

section \<open>Data\<close>

text \<open>
  An entry for a repository, of the blueprint or of a configuration: the blueprint's keys \<open>clone_depth\<close> and
  \<open>upstream_url\<close> are called \<open>depth\<close> and \<open>url\<close> in a configuration.
\<close>

record repo =
  r_id :: "string option"
  r_slug :: "string option"
  r_type :: "string option"
  r_dir :: "string option"
  r_rdir :: "path option"
  r_tag :: "string option"
  r_branch :: "string option"
  r_clone_depth :: "nat option"
  r_upstream_url :: "string option"
  r_depth :: "nat option"
  r_url :: "string option"
  r_patch :: "path option"
  r_sparse :: "string list option"

record scope =
  scope_id :: string
  scope_name :: string
  scope_packages :: "string list"
  scope_repos :: "repo list"

record blueprint =
  clone_tools_dir :: "path option"
  clone_os_dir :: "path option"
  clone_soc_dir :: "path option"
  base_packages :: "string list"
  base_repos :: "repo list"
  scopes :: "scope list"

record config =
  clone_tools_directory :: path
  clone_os_directory :: path
  clone_soc_directory :: path
  meta_repos :: "string list"
  selected_repos :: "string list"
  selected_scopes :: "string list"
  packages :: "string list"
  repos :: "repo list"

text \<open>What the user types at the three prompts.\<close>

record prompts =
  os_input :: string
  soc_input :: string
  tools_input :: string

section \<open>Directories\<close>

text \<open>\<open>os.path.normpath\<close> of an absolute path, \<open>expanduser\<close> and \<open>abspath\<close>.\<close>

definition norm_step :: "string list \<Rightarrow> string \<Rightarrow> string list" where
  "norm_step parts c =
     (if c = [] \<or> c = ''.'' then parts
      else if c = ''..'' then butlast parts
      else parts @ [c])"

definition path_parts :: "path \<Rightarrow> string list" where
  "path_parts p = foldl norm_step [] (split_on (CHR ''/'') p)"

definition normpath :: "path \<Rightarrow> path" where
  "normpath p = ''/'' @ join ''/'' (path_parts p)"

definition expanduser :: "path \<Rightarrow> path \<Rightarrow> path" where
  "expanduser home p = (if p = ''~'' \<or> prefix ''~/'' p then home @ tl p else p)"

definition resolve_dir :: "path \<Rightarrow> path \<Rightarrow> path \<Rightarrow> path" where
  "resolve_dir home dir p = normpath (path_join dir (expanduser home p))"

record dirs =
  os_root :: path
  soc_root :: path
  tools_root :: path

definition resolved_dirs :: "dirs \<Rightarrow> string option \<Rightarrow> path option" where
  "resolved_dirs ds t =
     (if t = Some ''os'' then Some (os_root ds)
      else if t = Some ''soc'' then Some (soc_root ds)
      else if t = Some ''tools'' then Some (tools_root ds)
      else None)"

text \<open>\<open>path_defaults.get(key, default)\<close>.\<close>

definition get_default :: "path option \<Rightarrow> path \<Rightarrow> path" where
  "get_default v d = (case v of None \<Rightarrow> d | Some p \<Rightarrow> p)"

definition default_dirs :: "blueprint \<Rightarrow> dirs" where
  "default_dirs bp =
     \<lparr>os_root = get_default (clone_os_dir bp) ''~/kernel'',
      soc_root = get_default (clone_soc_dir bp) ''~/soc'',
      tools_root = get_default (clone_tools_dir bp) ''~/tools''\<rparr>"

definition has_type :: "string \<Rightarrow> repo list \<Rightarrow> bool" where
  "has_type t rs = list_ex (\<lambda>r. r_type r = Some t) rs"

text \<open>An input that is blank stands for the default.\<close>

definition typed_or :: "string \<Rightarrow> path \<Rightarrow> path" where
  "typed_or s d = (if strip s \<noteq> [] then strip s else d)"

text \<open>The first setup asks for the directories it needs; later ones take those of the configuration.\<close>

definition choose_dirs :: "path \<Rightarrow> path \<Rightarrow> blueprint \<Rightarrow> config option \<Rightarrow> prompts \<Rightarrow> repo list \<Rightarrow> dirs" where
  "choose_dirs home dir bp st inp rs =
     (let res = resolve_dir home dir; ds = default_dirs bp
      in case st of
           Some c \<Rightarrow>
             \<lparr>os_root = res (clone_os_directory c), soc_root = res (clone_soc_directory c),
              tools_root = res (clone_tools_directory c)\<rparr>
         | None \<Rightarrow>
             \<lparr>os_root = res (if has_type ''os'' rs then typed_or (os_input inp) (os_root ds) else os_root ds),
              soc_root = res (if has_type ''soc'' rs then typed_or (soc_input inp) (soc_root ds) else soc_root ds),
              tools_root = res (if has_type ''tools'' rs then typed_or (tools_input inp) (tools_root ds) else tools_root ds)\<rparr>)"

section \<open>Selections\<close>

text \<open>The ids of the repositories of the selected scopes are taken out of the ids of those scopes.\<close>

fun remove_ids :: "string option list \<Rightarrow> string list \<Rightarrow> exn + string list" where
  "remove_ids [] ids = Inr ids"
| "remove_ids (r # rs) ids =
     (case r of
        None \<Rightarrow> Inl ValueError
      | Some i \<Rightarrow> if i \<in> set ids then remove_ids rs (remove1 i ids) else Inl ValueError)"

text \<open>Repositories are added to the mandatory ones, each id once.\<close>

fun add_optional :: "repo list \<Rightarrow> string list \<Rightarrow> repo list" where
  "add_optional [] optional_repo_ids = []"
| "add_optional (r # rs) optional_repo_ids =
     (case r_id r of
        Some i \<Rightarrow>
          if i \<noteq> [] \<and> i \<notin> set optional_repo_ids then r # add_optional rs (i # optional_repo_ids)
          else add_optional rs optional_repo_ids
      | None \<Rightarrow> add_optional rs optional_repo_ids)"

text \<open>The repositories selected by an earlier run, as its configuration describes them.\<close>

definition previous_repos :: "config option \<Rightarrow> repo list" where
  "previous_repos st =
     (case st of
        None \<Rightarrow> []
      | Some c \<Rightarrow> filter (\<lambda>r. case r_id r of Some i \<Rightarrow> i \<in> set (selected_repos c) | None \<Rightarrow> False) (repos c))"

definition previous_repo_ids :: "config option \<Rightarrow> string list" where
  "previous_repo_ids st = (case st of None \<Rightarrow> [] | Some c \<Rightarrow> selected_repos c)"

definition previous_scope_ids :: "config option \<Rightarrow> string list" where
  "previous_scope_ids st = (case st of None \<Rightarrow> [] | Some c \<Rightarrow> selected_scopes c)"

section \<open>Compiling\<close>

text \<open>\<open>sorted\<close> of a set.\<close>

definition sorted_set :: "string list \<Rightarrow> string list" where
  "sorted_set xs = sort (remdups xs)"

text \<open>One entry of \<open>final_repos\<close>, under its slug.\<close>

definition compile_entry :: "dirs \<Rightarrow> repo \<Rightarrow> exn + (string \<times> repo)" where
  "compile_entry ds r =
     (case r_id r of
        None \<Rightarrow> Inl (KeyError ''id'')
      | Some i \<Rightarrow>
          (case r_slug r of
             None \<Rightarrow> Inl (KeyError ''slug'')
           | Some s \<Rightarrow> Inr (s,
               \<lparr>r_id = Some i, r_slug = Some s, r_type = None, r_dir = r_dir r,
                r_rdir = str_or (r_rdir r) (resolved_dirs ds (r_type r)), r_tag = r_tag r, r_branch = r_branch r,
                r_clone_depth = None, r_upstream_url = None,
                r_depth = r_clone_depth r, r_url = r_upstream_url r,
                r_patch = r_patch r, r_sparse = r_sparse r\<rparr>)))"

fun compile_entries :: "dirs \<Rightarrow> repo list \<Rightarrow> exn + (string \<times> repo) list" where
  "compile_entries ds [] = Inr []"
| "compile_entries ds (r # rs) =
     (case compile_entry ds r of
        Inl e \<Rightarrow> Inl e
      | Inr x \<Rightarrow> (case compile_entries ds rs of Inl e \<Rightarrow> Inl e | Inr xs \<Rightarrow> Inr (x # xs)))"

text \<open>The dictionary: a later entry replaces an earlier one with its slug. It is listed in the order of the slugs.\<close>

definition by_slug :: "(string \<times> repo) list \<Rightarrow> repo list" where
  "by_slug es = map (\<lambda>s. the (map_of (rev es) s)) (sorted_set (map fst es))"

text \<open>The ids of the repositories that no selection has brought in.\<close>

definition base_ids :: "string list \<Rightarrow> repo list \<Rightarrow> string list" where
  "base_ids selected_ids rs =
     concat (map (\<lambda>r. case r_id r of Some i \<Rightarrow> if i \<noteq> [] \<and> i \<notin> set selected_ids then [i] else [] | None \<Rightarrow> []) rs)"

text \<open>
  The configuration, with the directories and the selected ids the rest of \<open>main\<close> goes on with. The order of
  the ids in \<open>selected_ids\<close>, made from sets, is not fixed in the source; only membership is asked of them.
\<close>

definition compile_config ::
  "path \<Rightarrow> path \<Rightarrow> blueprint \<Rightarrow> config option \<Rightarrow> scope list \<Rightarrow> prompts \<Rightarrow> exn + (config \<times> dirs \<times> string list)" where
  "compile_config home dir bp st selections inp =
     (let chosen = concat (map scope_repos selections)
      in case remove_ids (map r_id chosen) (map scope_id selections) of
           Inl e \<Rightarrow> Inl e
         | Inr scope_ids \<Rightarrow>
             (let rs = base_repos bp @ add_optional (chosen @ previous_repos st) [];
                  selected_repo_ids = sorted_set (map (the \<circ> r_id) chosen @ previous_repo_ids st);
                  selected_scope_ids = sorted_set (scope_ids @ previous_scope_ids st);
                  selected_ids = selected_repo_ids @ selected_scope_ids;
                  ds = choose_dirs home dir bp st inp rs
              in case compile_entries ds rs of
                   Inl e \<Rightarrow> Inl e
                 | Inr es \<Rightarrow> Inr (
                     \<lparr>clone_tools_directory = tools_root ds, clone_os_directory = os_root ds,
                      clone_soc_directory = soc_root ds,
                      meta_repos = sort (base_ids selected_ids rs), selected_repos = selected_repo_ids,
                      selected_scopes = selected_scope_ids,
                      packages = sorted_set (base_packages bp @ concat (map scope_packages selections)),
                      repos = by_slug es\<rparr>, ds, selected_ids)))"

section \<open>The blueprint of the repository\<close>

text \<open>\<open>prerequisites_config.json\<close>.\<close>

definition no_repo :: repo where
  "no_repo =
     \<lparr>r_id = None, r_slug = None, r_type = None, r_dir = None, r_rdir = None, r_tag = None, r_branch = None,
      r_clone_depth = None, r_upstream_url = None, r_depth = None, r_url = None, r_patch = None, r_sparse = None\<rparr>"

definition linux_repo :: repo where
  "linux_repo = no_repo
     \<lparr>r_id := Some ''linux'', r_slug := Some ''torvalds/linux'', r_type := Some ''os'', r_tag := Some ''v6.8'',
      r_branch := Some ''v6.8_pcie_cosim'', r_clone_depth := Some 1,
      r_patch := Some ''third_party/os/v6.8_pcie_cosim_patch.patch''\<rparr>"

definition linux_scope :: scope where
  "linux_scope =
     \<lparr>scope_id = ''linux'', scope_name = ''Linux kernel source tree'',
      scope_packages = [''bc'', ''dwarves'', ''libssl-dev'', ''libelf-dev'', ''openssl'', ''guestfs-tools''],
      scope_repos = [linux_repo]\<rparr>"

definition networking_scope :: scope where
  "networking_scope =
     \<lparr>scope_id = ''networking'', scope_name = ''PCIe Co-Simulation Networking'',
      scope_packages = [''tshark'', ''lsof'', ''socat'', ''wireshark'', ''xterm'', ''x11-xserver-utils'', ''xfonts-base'',
        ''xfonts-utils'', ''python3-bpfcc'', ''bpfcc-tools''],
      scope_repos = []\<rparr>"

definition debug_scope :: scope where
  "debug_scope =
     \<lparr>scope_id = ''debug'', scope_name = ''Debug Tools'',
      scope_packages = [''gdb-multiarch'', ''xterm'', ''x11-xserver-utils'', ''xfonts-base'', ''xfonts-utils''],
      scope_repos = []\<rparr>"

definition shipped_blueprint :: blueprint where
  "shipped_blueprint =
     \<lparr>clone_tools_dir = Some ''~/tools'', clone_os_dir = Some ''~/kernel'', clone_soc_dir = Some ''~/soc'',
      base_packages =
        [''git'', ''wget'', ''build-essential'', ''cmake'', ''ccache'', ''numactl'', ''perl'', ''libfl-dev'', ''zlib1g-dev'',
         ''libgoogle-perftools-dev'', ''libglib2.0-dev'', ''libpixman-1-dev'', ''libslirp-dev'', ''meson'', ''ninja-build'',
         ''libjson-c-dev'', ''libcmocka-dev'', ''gcc-multilib'', ''g++-multilib'', ''help2man'', ''bison'', ''flex'',
         ''autoconf'', ''libjemalloc-dev'', ''liblz4-dev'', ''python3-venv'', ''python3-pip'', ''python3-pexpect''],
      base_repos =
        [no_repo\<lparr>r_slug := Some ''qemu/qemu'', r_id := Some ''qemu'', r_type := Some ''tools'', r_tag := Some ''v11.1.0'',
           r_clone_depth := Some 1\<rparr>,
         no_repo\<lparr>r_slug := Some ''verilator/verilator'', r_id := Some ''verilator'', r_type := Some ''tools'',
           r_tag := Some ''v5.050'', r_clone_depth := Some 1\<rparr>,
         no_repo\<lparr>r_slug := Some ''nutanix/libvfio-user'', r_id := Some ''libvfiouser'', r_type := Some ''tools''\<rparr>,
         no_repo\<lparr>r_slug := Some ''chili-chips-ba/openPCIE'', r_id := Some ''openpcie'', r_type := Some ''soc'',
           r_sparse := Some [''2.amd-rtl-with-Vivado-build'', ''2.rtl'']\<rparr>],
      scopes = [linux_scope, networking_scope, debug_scope]\<rparr>"

section \<open>Directories: a resolved one stays\<close>

definition clean_part :: "string \<Rightarrow> bool" where
  "clean_part c \<longleftrightarrow> c \<noteq> [] \<and> c \<noteq> ''.'' \<and> c \<noteq> ''..'' \<and> CHR ''/'' \<notin> set c"

lemma split_on_parts: "p \<in> set (split_on c s) \<Longrightarrow> c \<notin> set p"
proof (induction s arbitrary: p)
  case Nil
  then show ?case by simp
next
  case (Cons x xs)
  then show ?case by (cases "split_on c xs") (auto split: if_splits)
qed

lemma split_on_join: "ps \<noteq> [] \<Longrightarrow> (\<And>p. p \<in> set ps \<Longrightarrow> c \<notin> set p) \<Longrightarrow> split_on c (join [c] ps) = ps"
proof (induction "[c]" ps rule: join.induct)
  case (3 x y ys)
  then show ?case using split_on_app [of c x "join [c] (y # ys)"] by (simp add: split_on_whole)
qed (simp_all add: split_on_whole)

lemma norm_clean:
  "list_all clean_part acc \<Longrightarrow> (\<And>c. c \<in> set cs \<Longrightarrow> CHR ''/'' \<notin> set c) \<Longrightarrow> list_all clean_part (foldl norm_step acc cs)"
proof (induction cs arbitrary: acc)
  case (Cons c cs)
  have "list_all clean_part (norm_step acc c)"
    using Cons.prems by (auto simp: norm_step_def clean_part_def list_all_iff dest: in_set_butlastD)
  then show ?case using Cons by simp
qed simp

lemma path_parts_clean: "list_all clean_part (path_parts p)"
  unfolding path_parts_def by (intro norm_clean) (auto dest: split_on_parts)

lemma norm_id: "list_all clean_part cs \<Longrightarrow> foldl norm_step acc cs = acc @ cs"
  by (induction cs arbitrary: acc) (auto simp: norm_step_def clean_part_def)

lemma normpath_idem: "normpath (normpath p) = normpath p"
proof -
  let ?ps = "path_parts p"
  have "path_parts (''/'' @ join ''/'' ?ps) = ?ps"
  proof (cases "?ps = []")
    case True
    then show ?thesis by (simp add: path_parts_def norm_step_def)
  next
    case False
    have "split_on (CHR ''/'') (join ''/'' ?ps) = ?ps"
      using split_on_join [OF False, of "CHR ''/''"] path_parts_clean [of p] by (auto simp: list_all_iff clean_part_def)
    then show ?thesis
      using norm_id [OF path_parts_clean] by (simp add: path_parts_def [of "CHR ''/'' # _"] norm_step_def)
  qed
  then show ?thesis by (simp add: normpath_def)
qed

lemma resolve_dir_idem [simp]: "resolve_dir home dir (resolve_dir home dir p) = resolve_dir home dir p"
proof -
  have "expanduser home (normpath q) = normpath q" "path_join dir (normpath q) = normpath q" for q
    by (simp_all add: expanduser_def normpath_def path_join_def)
  then show ?thesis by (simp add: resolve_dir_def normpath_idem)
qed

section \<open>Selections: properties\<close>

lemma remove_ids_ok:
  "(\<exists>left. remove_ids rs ids = Inr left) \<longleftrightarrow> None \<notin> set rs \<and> mset (map the rs) \<subseteq># mset ids"
proof (induction rs arbitrary: ids)
  case (Cons r rs)
  show ?case
  proof (cases r)
    case (Some i)
    show ?thesis
    proof (cases "i \<in> set ids")
      case True
      then have "mset (map the (r # rs)) \<subseteq># mset ids \<longleftrightarrow> mset (map the rs) \<subseteq># mset (remove1 i ids)"
        using Some by (simp add: insert_subset_eq_iff)
      then show ?thesis using True Some Cons.IH [of "remove1 i ids"] by simp
    next
      case False
      then show ?thesis using Some by (auto dest: mset_subset_eqD)
    qed
  qed simp
qed simp

lemma remove_ids_error: "remove_ids rs ids = Inl e \<Longrightarrow> e = ValueError"
  by (induction rs arbitrary: ids) (auto split: option.splits if_splits)

lemma remove_ids_left: "remove_ids rs ids = Inr left \<Longrightarrow> mset left + mset (map the rs) = mset ids"
proof (induction rs arbitrary: ids)
  case (Cons r rs)
  then obtain i where i: "r = Some i" "i \<in> set ids" "remove_ids rs (remove1 i ids) = Inr left"
    by (auto split: option.splits if_splits)
  then show ?case using Cons.IH [OF i(3)] by simp
qed simp

text \<open>The ids of the repositories that are added.\<close>

lemma add_optional_ids:
  "set (map r_id (add_optional rs seen)) = {Some i |i. Some i \<in> set (map r_id rs) \<and> i \<noteq> [] \<and> i \<notin> set seen}"
proof (induction rs arbitrary: seen)
  case (Cons r rs)
  then show ?case by (cases "r_id r") auto
qed simp

lemma add_optional_distinct: "distinct (map r_id (add_optional rs seen))"
proof (induction rs arbitrary: seen)
  case (Cons r rs)
  then show ?case using add_optional_ids [of rs] by (cases "r_id r") auto
qed simp

lemma add_optional_drop:
  "(\<And>r i. r \<in> set qs \<Longrightarrow> r_id r = Some i \<Longrightarrow> i = [] \<or> i \<in> set seen \<or> Some i \<in> set (map r_id rs)) \<Longrightarrow>
     add_optional (rs @ qs) seen = add_optional rs seen"
proof (induction rs arbitrary: seen)
  case Nil
  then show ?case
  proof (induction qs)
    case (Cons q qs)
    then show ?case by (cases "r_id q") auto
  qed simp
next
  case (Cons r rs)
  show ?case
  proof (cases "r_id r")
    case None
    have "add_optional (rs @ qs) seen = add_optional rs seen"
      by (rule Cons.IH) (use Cons.prems None in auto)
    then show ?thesis using None by simp
  next
    case (Some i)
    have "add_optional (rs @ qs) (i # seen) = add_optional rs (i # seen)"
      by (rule Cons.IH) (use Cons.prems Some in auto)
    moreover have "add_optional (rs @ qs) seen = add_optional rs seen" if "i = [] \<or> i \<in> set seen"
      by (rule Cons.IH) (use Cons.prems Some that in auto)
    ultimately show ?thesis using Some by simp
  qed
qed

section \<open>Compiling: properties\<close>

lemma sorted_set_set [simp]: "set (sorted_set xs) = set xs" and sorted_set_sorted [simp]: "sorted (sorted_set xs)"
  and sorted_set_distinct [simp]: "distinct (sorted_set xs)"
  by (simp_all add: sorted_set_def)

lemma sorted_set_eq: "set xs = set ys \<Longrightarrow> sorted_set xs = sorted_set ys"
  by (simp add: sorted_set_def flip: sorted_list_of_set_sort_remdups)

lemma sorted_set_id: "sorted xs \<Longrightarrow> distinct xs \<Longrightarrow> sorted_set xs = xs"
  by (simp add: sorted_set_def distinct_remdups_id sorted_sort_id)

lemma compile_entries_from:
  "compile_entries ds rs = Inr es \<Longrightarrow> x \<in> set es \<Longrightarrow> \<exists>r \<in> set rs. compile_entry ds r = Inr x"
proof (induction rs arbitrary: es)
  case (Cons r rs)
  then show ?case by (cases es) (auto split: sum.splits)
qed simp

lemma compile_entries_ok:
  "list_all (\<lambda>r. r_id r \<noteq> None \<and> r_slug r \<noteq> None) rs \<Longrightarrow> \<exists>es. compile_entries ds rs = Inr es"
  by (induction rs) (auto simp: compile_entry_def)

lemma compile_entries_error: "compile_entries ds rs = Inl e \<Longrightarrow> e = KeyError ''id'' \<or> e = KeyError ''slug''"
  by (induction rs) (auto simp: compile_entry_def split: option.splits sum.splits)

lemma compile_entry_Inr:
  assumes "compile_entry ds r = Inr (s, x)"
  shows "r_id r = r_id x" "r_slug r = Some s" "r_slug x = Some s" "r_id x \<noteq> None" "r_type x = None"
    "r_clone_depth x = None" "r_upstream_url x = None" "r_depth x = r_clone_depth r" "r_url x = r_upstream_url r"
  using assms by (auto simp: compile_entry_def split: option.splits)

lemma by_slug_from:
  assumes "x \<in> set (by_slug es)"
  obtains s where "(s, x) \<in> set es"
proof -
  obtain s where s: "s \<in> set (map fst es)" "x = the (map_of (rev es) s)"
    using assms by (auto simp: by_slug_def)
  then have "map_of (rev es) s \<noteq> None" by (simp add: map_of_eq_None_iff)
  then obtain y where "map_of (rev es) s = Some y" by blast
  with s show ?thesis using map_of_SomeD [of "rev es" s y] by (auto intro: that)
qed

lemma by_slug_slugs:
  assumes "\<And>s x. (s, x) \<in> set es \<Longrightarrow> r_slug x = Some s"
  shows "map (the \<circ> r_slug) (by_slug es) = sorted_set (map fst es)"
proof -
  have "(the \<circ> r_slug) (the (map_of (rev es) s)) = s" if s: "s \<in> set (map fst es)" for s
  proof -
    have "map_of (rev es) s \<noteq> None" using s by (simp add: map_of_eq_None_iff)
    then obtain x where x: "map_of (rev es) s = Some x" by blast
    then have "(s, x) \<in> set es" by (auto dest!: map_of_SomeD)
    with x assms show ?thesis by simp
  qed
  then show ?thesis unfolding by_slug_def map_map by (intro map_idI) simp
qed

text \<open>A run of the compilation that returns, taken apart.\<close>

lemma compile_config_run:
  assumes "compile_config home dir bp st selections inp = Inr (c, ds, ids)"
  obtains scope_ids es chosen rs where
    "chosen = concat (map scope_repos selections)"
    "remove_ids (map r_id chosen) (map scope_id selections) = Inr scope_ids"
    "rs = base_repos bp @ add_optional (chosen @ previous_repos st) []"
    "ds = choose_dirs home dir bp st inp rs"
    "compile_entries ds rs = Inr es"
    "selected_repos c = sorted_set (map (the \<circ> r_id) chosen @ previous_repo_ids st)"
    "selected_scopes c = sorted_set (scope_ids @ previous_scope_ids st)"
    "ids = selected_repos c @ selected_scopes c"
    "meta_repos c = sort (base_ids ids rs)"
    "packages c = sorted_set (base_packages bp @ concat (map scope_packages selections))"
    "repos c = by_slug es"
    "clone_tools_directory c = tools_root ds" "clone_os_directory c = os_root ds" "clone_soc_directory c = soc_root ds"
  using assms by (auto simp: compile_config_def Let_def split: sum.splits intro!: that)

text \<open>
  C25. A selection is refused with ValueError exactly when the ids of its repositories are not, counted
  as often as they occur, among the ids of its scopes; the only other errors are the missing keys of entries.
  So a scope with two repositories, or with one whose id is not the scope's, cannot be selected.
\<close>

theorem compile_config_errors:
  "(compile_config home dir bp st selections inp = Inl ValueError \<longleftrightarrow>
     None \<in> r_id ` set (concat (map scope_repos selections)) \<or>
     \<not> mset (map (the \<circ> r_id) (concat (map scope_repos selections))) \<subseteq># mset (map scope_id selections)) \<and>
   (case compile_config home dir bp st selections inp of
      Inl e \<Rightarrow> e = ValueError \<or> e = KeyError ''id'' \<or> e = KeyError ''slug'' | Inr _ \<Rightarrow> True)"
proof -
  let ?chosen = "concat (map scope_repos selections)"
  show ?thesis
  proof (cases "remove_ids (map r_id ?chosen) (map scope_id selections)")
    case (Inl e)
    then have "\<not> (\<exists>left. remove_ids (map r_id ?chosen) (map scope_id selections) = Inr left)" by simp
    then show ?thesis
      using Inl remove_ids_error [OF Inl] unfolding remove_ids_ok by (auto simp: compile_config_def Let_def)
  next
    case (Inr left)
    then have "\<exists>left. remove_ids (map r_id ?chosen) (map scope_id selections) = Inr left" by blast
    then show ?thesis
      using Inr unfolding remove_ids_ok
      by (auto simp: compile_config_def Let_def split: sum.splits dest: compile_entries_error)
  qed
qed

theorem compile_config_errors_witness:
  "compile_config ''/h'' ''/w'' shipped_blueprint None
     [linux_scope\<lparr>scope_repos := [linux_repo, linux_repo\<lparr>r_id := Some ''buildroot''\<rparr>]\<rparr>]
     \<lparr>os_input = [], soc_input = [], tools_input = []\<rparr> = Inl ValueError"
  using compile_config_errors [of "''/h''" "''/w''" shipped_blueprint None
      "[linux_scope\<lparr>scope_repos := [linux_repo, linux_repo\<lparr>r_id := Some ''buildroot''\<rparr>]\<rparr>]"
      "\<lparr>os_input = [], soc_input = [], tools_input = []\<rparr>"]
  by (simp add: linux_scope_def linux_repo_def)

definition wf_config :: "config \<Rightarrow> bool" where
  "wf_config c \<longleftrightarrow>
     sorted_wrt (<) (selected_repos c) \<and> sorted_wrt (<) (selected_scopes c) \<and> sorted_wrt (<) (packages c) \<and>
     sorted (meta_repos c) \<and>
     set (meta_repos c) \<inter> (set (selected_repos c) \<union> set (selected_scopes c)) = {} \<and>
     list_all (\<lambda>r. r_id r \<noteq> None \<and> r_slug r \<noteq> None) (repos c) \<and>
     sorted_wrt (<) (map (the \<circ> r_slug) (repos c))"

lemma sorted_set_strict: "sorted_wrt (<) (sorted_set xs)"
  by (simp add: strict_sorted_iff)

lemma compile_config_wf_all:
  assumes "compile_config home dir bp st selections inp = Inr (c, ds, ids)"
  shows "wf_config c \<and> set (previous_repo_ids st) \<subseteq> set (selected_repos c) \<and>
    set (previous_scope_ids st) \<subseteq> set (selected_scopes c)"
proof (rule compile_config_run [OF assms], goal_cases)
  case (1 scope_ids es chosen rs)
  note run = this
  have entry: "r_slug x = Some s \<and> r_id x \<noteq> None" if "(s, x) \<in> set es" for s x
    using compile_entries_from [OF run(5) that] compile_entry_Inr by metis
  then have "list_all (\<lambda>r. r_id r \<noteq> None \<and> r_slug r \<noteq> None) (repos c)"
    unfolding run(11) using entry by (fastforce simp: list_all_iff elim!: by_slug_from)
  moreover have "sorted_wrt (<) (map (the \<circ> r_slug) (repos c))"
    using by_slug_slugs [of es] entry run(11) by (simp add: sorted_set_strict)
  moreover have "set (meta_repos c) \<inter> (set (selected_repos c) \<union> set (selected_scopes c)) = {}"
    unfolding run(9) base_ids_def run(8) by (auto split: option.splits if_splits)
  ultimately show ?thesis
    unfolding wf_config_def using run(6,7,9,10) by (simp add: sorted_set_strict)
qed

text \<open>
  C12. Whatever the menu and the earlier configuration: the new configuration is well-formed (its lists
  are sorted, and without duplicates where they come from sets; no repository is both mandatory and selected; the
  entries have ids, and are in the order of their distinct slugs), and every earlier selection is still in it.
\<close>

theorem compile_config_wf:
  assumes "compile_config home dir bp st selections inp = Inr (c, ds, ids)"
  shows "wf_config c \<and> set (previous_repo_ids st) \<subseteq> set (selected_repos c) \<and>
    set (previous_scope_ids st) \<subseteq> set (selected_scopes c)"
  using assms by (rule compile_config_wf_all)

definition demo_prompts :: prompts where
  "demo_prompts = \<lparr>os_input = [], soc_input = '' /soc '', tools_input = ''~/t/''\<rparr>"

theorem compile_config_wf_witness:
  "\<exists>c ds ids. compile_config ''/h'' ''/w'' shipped_blueprint None [linux_scope] demo_prompts = Inr (c, ds, ids) \<and> wf_config c"
proof -
  have "(case compile_config ''/h'' ''/w'' shipped_blueprint None [linux_scope] demo_prompts of Inr _ \<Rightarrow> True | _ \<Rightarrow> False)"
    by code_simp
  then obtain c ds ids where "compile_config ''/h'' ''/w'' shipped_blueprint None [linux_scope] demo_prompts = Inr (c, ds, ids)"
    by (auto split: sum.splits)
  with compile_config_wf [OF this] show ?thesis by blast
qed

lemma add_optional_sub: "set (add_optional rs seen) \<subseteq> set rs"
  by (induction rs arbitrary: seen) (auto split: option.splits)

text \<open>Every selection from the menu of the shipped blueprint compiles.\<close>

lemma shipped_selections_compile:
  assumes "set selections \<subseteq> set (scopes shipped_blueprint)"
  shows "\<exists>x. compile_config home dir shipped_blueprint None selections inp = Inr x"
proof -
  have ids: "map r_id (concat (map scope_repos ss)) = map Some (filter (\<lambda>i. i = ''linux'') (map scope_id ss))"
    if "set ss \<subseteq> set (scopes shipped_blueprint)" for ss
    using that
    by (induction ss) (auto simp: shipped_blueprint_def linux_scope_def networking_scope_def debug_scope_def linux_repo_def)
  let ?chosen = "concat (map scope_repos selections)"
  have "None \<notin> set (map r_id ?chosen)"
    unfolding ids [OF assms(1)] by simp
  moreover have "mset (map the (map r_id ?chosen)) \<subseteq># mset (map scope_id selections)"
    unfolding ids [OF assms(1)] by (simp add: comp_def mset_filter)
  ultimately obtain left where left: "remove_ids (map r_id ?chosen) (map scope_id selections) = Inr left"
    using remove_ids_ok [of "map r_id ?chosen" "map scope_id selections"] by blast
  have slugs: "r_id r \<noteq> None \<and> r_slug r \<noteq> None" if "r \<in> set ?chosen" for r
    using that assms(1)
    by (auto simp: shipped_blueprint_def linux_scope_def networking_scope_def debug_scope_def linux_repo_def)
  note sub = add_optional_sub
  have "list_all (\<lambda>r. r_id r \<noteq> None \<and> r_slug r \<noteq> None) (base_repos shipped_blueprint @ add_optional (?chosen @ previous_repos None) [])"
  proof -
    have "list_all (\<lambda>r. r_id r \<noteq> None \<and> r_slug r \<noteq> None) (base_repos shipped_blueprint)"
      by (simp add: shipped_blueprint_def)
    then show ?thesis
      using subsetD [OF sub [of ?chosen "[]"]] slugs unfolding previous_repos_def list_all_iff by fastforce
  qed
  from compile_entries_ok [OF this] obtain es where
    "compile_entries (choose_dirs home dir shipped_blueprint None inp
       (base_repos shipped_blueprint @ add_optional (?chosen @ previous_repos None) []))
     (base_repos shipped_blueprint @ add_optional (?chosen @ previous_repos None) []) = Inr es" by blast
  then show ?thesis
    using left by (simp add: compile_config_def Let_def)
qed

lemma rerun_compiles_all:
  assumes "compile_config home dir bp None selections inp = Inr (c, ds, ids)"
  shows "compile_config home dir bp (Some c) selections inp' = Inr (c, ds, ids)"
proof (rule compile_config_run [OF assms], goal_cases)
  case (1 scope_ids es chosen rs)
  note run = this
  have some: "r_id r \<noteq> None" if "r \<in> set chosen" for r
  proof -
    have "\<exists>left. remove_ids (map r_id chosen) (map scope_id selections) = Inr left" using run(2) by blast
    then have "None \<notin> set (map r_id chosen)" unfolding remove_ids_ok by blast
    with that show ?thesis by (metis image_eqI image_set)
  qed
  have sel: "set (selected_repos c) = set (map (the \<circ> r_id) chosen)"
    using run(6) by (simp add: previous_repo_ids_def)
  have "add_optional (chosen @ previous_repos (Some c)) [] = add_optional chosen []"
  proof (rule add_optional_drop)
    fix r i assume "r \<in> set (previous_repos (Some c))" "r_id r = Some i"
    then have "i \<in> set (map (the \<circ> r_id) chosen)" using sel by (simp add: previous_repos_def)
    then show "i = [] \<or> i \<in> set [] \<or> Some i \<in> set (map r_id chosen)"
      using some by force
  qed
  then have rs: "base_repos bp @ add_optional (chosen @ previous_repos (Some c)) [] = rs"
    using run(3) by (simp add: previous_repos_def)
  have dirs: "choose_dirs home dir bp (Some c) inp' rs = ds"
    using run(4,12-14) by (auto simp: choose_dirs_def Let_def)
  have repo_ids: "sorted_set (map (the \<circ> r_id) chosen @ previous_repo_ids (Some c)) = selected_repos c"
    unfolding run(6) by (intro sorted_set_eq) (use sel in \<open>auto simp: previous_repo_ids_def\<close>)
  have scopes: "set (selected_scopes c) = set scope_ids" using run(7) by (simp add: previous_scope_ids_def)
  have scope_ids: "sorted_set (scope_ids @ previous_scope_ids (Some c)) = selected_scopes c"
    unfolding run(7) by (intro sorted_set_eq) (use scopes in \<open>auto simp: previous_scope_ids_def\<close>)
  have "compile_config home dir bp (Some c) selections inp' = Inr (
      \<lparr>clone_tools_directory = tools_root ds, clone_os_directory = os_root ds, clone_soc_directory = soc_root ds,
       meta_repos = sort (base_ids (selected_repos c @ selected_scopes c) rs), selected_repos = selected_repos c,
       selected_scopes = selected_scopes c,
       packages = sorted_set (base_packages bp @ concat (map scope_packages selections)), repos = by_slug es\<rparr>,
      ds, selected_repos c @ selected_scopes c)"
    unfolding compile_config_def Let_def run(1) [symmetric] run(2) sum.case rs dirs repo_ids scope_ids run(5)
    by (rule refl)
  moreover have "c = \<lparr>clone_tools_directory = tools_root ds, clone_os_directory = os_root ds, clone_soc_directory = soc_root ds,
       meta_repos = sort (base_ids (selected_repos c @ selected_scopes c) rs), selected_repos = selected_repos c,
       selected_scopes = selected_scopes c,
       packages = sorted_set (base_packages bp @ concat (map scope_packages selections)), repos = by_slug es\<rparr>"
    unfolding run(8) [symmetric] run(9,10,11) [symmetric] run(12-14) [symmetric] by simp
  ultimately show ?thesis by (simp add: run(8))
qed

text \<open>
  Running the setup again with the same choices, right after the first setup, compiles the same
  configuration and goes on with the same directories; no prompt is needed.
\<close>

theorem rerun_compiles_same:
  assumes "compile_config home dir bp None selections inp = Inr (c, ds, ids)"
  shows "compile_config home dir bp (Some c) selections inp' = Inr (c, ds, ids)"
  using assms by (rule rerun_compiles_all)

theorem rerun_compiles_same_witness:
  "case compile_config ''/h'' ''/w'' shipped_blueprint None [linux_scope, debug_scope] demo_prompts of
     Inl _ \<Rightarrow> False
   | Inr (c, ds, ids) \<Rightarrow>
       compile_config ''/h'' ''/w'' shipped_blueprint (Some c) [linux_scope, debug_scope] demo_prompts = Inr (c, ds, ids)"
proof -
  have "(case compile_config ''/h'' ''/w'' shipped_blueprint None [linux_scope, debug_scope] demo_prompts of
      Inr _ \<Rightarrow> True | _ \<Rightarrow> False)"
    by code_simp
  then obtain c ds ids where
    "compile_config ''/h'' ''/w'' shipped_blueprint None [linux_scope, debug_scope] demo_prompts = Inr (c, ds, ids)"
    by (auto split: sum.splits)
  with rerun_compiles_same [OF this, of demo_prompts] show ?thesis by simp
qed

text \<open>
  A second run in which nothing is selected keeps the earlier selections, but forgets what they
  need: the packages are those of the base only, and the repositories that were selected lose the depth of their
  clones and their addresses, which a configuration stores under other keys than the compilation reads.
\<close>

theorem unselected_rerun_forgets:
  assumes "compile_config home dir bp None selections inp = Inr (c, ds, ids)"
    and "compile_config home dir bp (Some c) [] inp' = Inr (c', ds', ids')"
  shows "selected_repos c' = selected_repos c \<and> selected_scopes c' = selected_scopes c \<and>
    packages c' = sorted_set (base_packages bp) \<and>
    list_all (\<lambda>r. r_slug r \<in> set (map r_slug (base_repos bp)) \<or> r_depth r = None \<and> r_url r = None) (repos c')"
proof (rule compile_config_run [OF assms(2)], goal_cases)
  case (1 scope_ids es chosen rs)
  note run' = this
  show ?case
  proof (rule compile_config_run [OF assms(1)], goal_cases)
    case (1 scope_ids1 es1 chosen1 rs1)
    note run = this
    have "r_clone_depth r = None \<and> r_upstream_url r = None" if r: "r \<in> set (previous_repos (Some c))" for r
    proof -
      have "r \<in> set (by_slug es1)" using r run(11) by (simp add: previous_repos_def)
      then obtain s where "(s, r) \<in> set es1" by (rule by_slug_from)
      then obtain q where "compile_entry ds q = Inr (s, r)" using compile_entries_from [OF run(5)] by blast
      then show ?thesis by (simp add: compile_entry_Inr)
    qed
    moreover have "\<exists>q \<in> set rs. r_slug q = r_slug x \<and> r_depth x = r_clone_depth q \<and> r_url x = r_upstream_url q"
      if "x \<in> set (repos c')" for x
    proof -
      have "x \<in> set (by_slug es)" using that run'(11) by simp
      then obtain s where "(s, x) \<in> set es" by (rule by_slug_from)
      then obtain q where "q \<in> set rs" "compile_entry ds' q = Inr (s, x)" using compile_entries_from [OF run'(5)] by blast
      then show ?thesis using compile_entry_Inr [of ds' q s x] by auto
    qed
    moreover have "set rs \<subseteq> set (base_repos bp) \<union> set (previous_repos (Some c))"
      using add_optional_sub run'(1,3) by fastforce
    ultimately have "list_all (\<lambda>r. r_slug r \<in> set (map r_slug (base_repos bp)) \<or> r_depth r = None \<and> r_url r = None) (repos c')"
      unfolding list_all_iff by (metis (no_types, lifting) Un_iff image_eqI image_set subsetD)
    moreover have "scope_ids = []" using run'(2) by (simp add: run'(1))
    ultimately show ?thesis
      using run run'(1,6,7,10)
      by (simp add: previous_repo_ids_def previous_scope_ids_def sorted_set_id)
  qed
qed

theorem unselected_rerun_forgets_witness:
  "\<exists>c c' x x'. compile_config ''/h'' ''/w'' shipped_blueprint None [linux_scope, networking_scope] demo_prompts = Inr (c, x) \<and>
     compile_config ''/h'' ''/w'' shipped_blueprint (Some c) [] demo_prompts = Inr (c', x') \<and>
     selected_scopes c' = [''networking''] \<and> ''wireshark'' \<in> set (packages c) \<and> ''wireshark'' \<notin> set (packages c')"
proof -
  let ?run = "compile_config ''/h'' ''/w'' shipped_blueprint None [linux_scope, networking_scope] demo_prompts"
  have facts: "(case ?run of Inl _ \<Rightarrow> False
     | Inr (c, _) \<Rightarrow> selected_scopes c = [''networking''] \<and> ''wireshark'' \<in> set (packages c) \<and>
         (case compile_config ''/h'' ''/w'' shipped_blueprint (Some c) [] demo_prompts of Inr _ \<Rightarrow> True | _ \<Rightarrow> False))"
    by code_simp
  then obtain c ds ids where c: "?run = Inr (c, ds, ids)" by (auto split: sum.splits)
  with facts obtain c' ds' ids' where c': "compile_config ''/h'' ''/w'' shipped_blueprint (Some c) [] demo_prompts = Inr (c', ds', ids')"
    by (auto split: sum.splits)
  have "''wireshark'' \<notin> set (base_packages shipped_blueprint)" by code_simp
  then show ?thesis
    using unselected_rerun_forgets [OF c c'] c c' facts by fastforce
qed

end
