(* ===== verification/Setup_Remove.thy ===== *)
theory Setup_Remove
  imports Setup_Build Setup_Config
begin

text \<open>
  Removing components (\<open>remove_components\<close> of \<open>workspace_setup.py\<close>, lines 937 to 1028): from the host, and from
  the configuration in \<open>.configs.json\<close>. The configuration is one that the setup has written, in which every
  entry has all its keys. \<open>dumps\<close> is \<open>json.dumps\<close>.
\<close>

section \<open>What is to be removed\<close>

definition removal_plan :: "string \<Rightarrow> blueprint \<Rightarrow> config \<Rightarrow> repo list \<times> string list \<times> string list" where
  "removal_plan target bp c =
     (if target = ''all'' then
        (repos c,
         concat (map scope_packages (filter (\<lambda>s. scope_id s \<in> set (selected_scopes c)) (scopes bp))),
         selected_scopes c)
      else
        (let gone = filter (\<lambda>s. scope_id s = target \<and> scope_id s \<in> set (selected_scopes c)) (scopes bp)
         in (filter (\<lambda>r. r_id r = Some target \<and> target \<in> set (meta_repos c @ selected_repos c)) (repos c),
             concat (map scope_packages gone), map scope_id gone)))"

section \<open>The configuration without it\<close>

definition forget_repo :: "repo \<Rightarrow> config \<Rightarrow> config" where
  "forget_repo r c =
     (case r_id r of
        None \<Rightarrow> c\<lparr>repos := remove1 r (repos c)\<rparr>
      | Some i \<Rightarrow> c\<lparr>meta_repos := remove1 i (meta_repos c), selected_repos := remove1 i (selected_repos c),
                    repos := remove1 r (repos c)\<rparr>)"

text \<open>The packages are taken out without a test: one that is not listed raises ValueError.\<close>

definition forget :: "repo list \<times> string list \<times> string list \<Rightarrow> config \<Rightarrow> exn + config" where
  "forget = (\<lambda>(remove_repos, remove_packages, remove_scope_ids) c.
     (case remove_ids (map Some remove_packages) (packages c) of
        Inl e \<Rightarrow> Inl e
      | Inr ps \<Rightarrow> Inr (fold forget_repo remove_repos
          (c\<lparr>selected_scopes := fold remove1 remove_scope_ids (selected_scopes c), packages := ps\<rparr>))))"

section \<open>The host without it\<close>

text \<open>\<open>Path(None)\<close> raises TypeError.\<close>

definition root_of :: "repo \<Rightarrow> (world, path) prog" where
  "root_of r = (case r_rdir r of None \<Rightarrow> raise TypeError | Some p \<Rightarrow> ret p)"

definition uninstall_repo :: "glob \<Rightarrow> shell \<Rightarrow> repo \<Rightarrow> (world, unit) prog" where
  "uninstall_repo glob sh r =
     (if r_id r = Some ''qemu'' then
        bindE (root_of r) (\<lambda>rdir. uninstall_qemu_distro glob sh (path_join rdir ''qemu''))
      else if r_id r = Some ''verilator'' then
        bindE (root_of r) (\<lambda>rdir. uninstall_verilator_distro glob sh (path_join rdir ''verilator''))
      else ret ())"

definition purge_cmd :: "string list \<Rightarrow> string list" where
  "purge_cmd pkgs = [''sudo'', ''apt-get'', ''purge'', ''-y''] @ pkgs"

definition autoremove_cmd :: "string list" where
  "autoremove_cmd = [''sudo'', ''apt-get'', ''autoremove'', ''-y'']"

definition purge_packages :: "shell \<Rightarrow> string list \<Rightarrow> (world, unit) prog" where
  "purge_packages sh pkgs =
     whenE (pkgs \<noteq> [])
       (tryE (seqs [run_check sh (purge_cmd pkgs) None, run_check sh autoremove_cmd None])
         (\<lambda>e. e = CalledProcessError) (\<lambda>_. say ''Error: Package purging''))"

definition repo_name :: "repo \<Rightarrow> (world, string) prog" where
  "repo_name r =
     (if truthy (r_dir r) then ret (the (r_dir r))
      else (case r_slug r of None \<Rightarrow> raise (KeyError ''slug'') | Some s \<Rightarrow> ret (basename s)))"

definition remove_tree :: "repo \<Rightarrow> (world, unit) prog" where
  "remove_tree r =
     bindE (repo_name r) (\<lambda>d.
     bindE (root_of r) (\<lambda>rdir.
       let repo_path = path_join rdir d
       in bindE (getE (\<lambda>w. isdir w repo_path)) (\<lambda>there.
            whenE there (tryE (rmtree repo_path) is_Exception (\<lambda>_. say (''Failed to remove '' @ repo_path))))))"

definition config_file :: path where
  "config_file = ''.configs.json''"

definition remove_components ::
  "(config \<Rightarrow> string) \<Rightarrow> glob \<Rightarrow> shell \<Rightarrow> string \<Rightarrow> blueprint \<Rightarrow> config \<Rightarrow> (world, unit) prog" where
  "remove_components dumps glob sh target bp c =
     (let plan = removal_plan target bp c
      in seqs
        [forE (fst plan) (uninstall_repo glob sh),
         purge_packages sh (fst (snd plan)),
         forE (fst plan) remove_tree,
         (if target = ''all'' then
            bindE (getE (\<lambda>w. islink w config_file \<or> path_exists w config_file)) (\<lambda>there.
              whenE there (tryE (os_remove config_file) is_Exception (\<lambda>_. ret ())))
          else
            bindE (liftE (forget plan c)) (\<lambda>c'.
              tryE (write_text (dumps c') config_file) is_Exception (\<lambda>_. say ''Failed to update .configs.json''))),
         say ''removed from host system''])"

section \<open>The configuration: properties\<close>

lemma forget_result:
  "(case forget (rs, pkgs, ids) c of
      Inl e \<Rightarrow> e = ValueError \<and> \<not> mset pkgs \<subseteq># mset (packages c)
    | Inr c' \<Rightarrow> mset pkgs \<subseteq># mset (packages c) \<and> mset (packages c') = mset (packages c) - mset pkgs)"
proof -
  have fold_packages: "packages (fold forget_repo rs c) = packages c" for c
    by (induction rs arbitrary: c) (auto simp: forget_repo_def split: option.splits)
  have "map the (map Some pkgs) = pkgs" by (simp add: comp_def)
  then show ?thesis
    using remove_ids_ok [of "map Some pkgs" "packages c"] remove_ids_error [of "map Some pkgs" "packages c"]
      remove_ids_left [of "map Some pkgs" "packages c"]
    by (cases "remove_ids (map Some pkgs) (packages c)") (auto simp: forget_def fold_packages, metis add_diff_cancel_right')
qed

text \<open>
  The configuration without a component exists exactly when every package of its scopes is listed,
  as often as it is to be removed; otherwise ValueError is raised.
\<close>

theorem forget_outcome:
  "(case forget (rs, pkgs, ids) c of
      Inl e \<Rightarrow> e = ValueError \<and> \<not> mset pkgs \<subseteq># mset (packages c)
    | Inr c' \<Rightarrow> mset pkgs \<subseteq># mset (packages c) \<and> mset (packages c') = mset (packages c) - mset pkgs)"
  by (rule forget_result)

lemma strict_remove1: "sorted_wrt (<) xs \<Longrightarrow> sorted_wrt (<) (remove1 (x :: 'a :: linorder) xs)"
  by (simp add: strict_sorted_iff sorted_remove1)

lemma strict_map_remove1: "sorted_wrt P (map f xs) \<Longrightarrow> sorted_wrt P (map f (remove1 x xs))"
proof (induction xs)
  case (Cons y ys)
  then show ?case using set_remove1_subset [of x ys] by auto
qed simp

lemma strict_remove_ids: "remove_ids rs ids = Inr left \<Longrightarrow> sorted_wrt (<) ids \<Longrightarrow> sorted_wrt (<) left"
  by (induction rs arbitrary: ids) (auto split: option.splits if_splits simp: strict_remove1)

lemma wf_forget_repo:
  assumes "wf_config c"
  shows "wf_config (forget_repo r c)"
proof -
  have "set (remove1 r (repos c)) \<subseteq> set (repos c)" by (rule set_remove1_subset)
  moreover have "set (remove1 i (meta_repos c)) \<subseteq> set (meta_repos c)" "set (remove1 i (selected_repos c)) \<subseteq> set (selected_repos c)" for i
    by (rule set_remove1_subset)+
  ultimately show ?thesis
    using assms unfolding wf_config_def forget_repo_def list_all_iff
    by (cases "r_id r") (simp_all add: strict_remove1 strict_map_remove1 sorted_remove1, (blast | meson disjoint_iff subset_iff)+)
qed

text \<open>
  Forgetting a component keeps a configuration well-formed.
\<close>

theorem forget_wf:
  assumes "wf_config c" and "forget plan c = Inr c'"
  shows "wf_config c'"
proof -
  obtain rs pkgs ids where plan: "plan = (rs, pkgs, ids)" by (cases plan) auto
  obtain ps where ps: "remove_ids (map Some pkgs) (packages c) = Inr ps"
    and c': "c' = fold forget_repo rs (c\<lparr>selected_scopes := fold remove1 ids (selected_scopes c), packages := ps\<rparr>)"
    using assms(2) by (auto simp: forget_def plan split: sum.splits)
  have "sorted_wrt (<) (fold remove1 ids xs) \<and> set (fold remove1 ids xs) \<subseteq> set xs" if "sorted_wrt (<) xs" for xs :: "string list"
    using that
  proof (induction ids arbitrary: xs)
    case (Cons i ids)
    then show ?case using strict_remove1 [of xs i] set_remove1_subset [of i xs] by fastforce
  qed simp
  then have "wf_config (c\<lparr>selected_scopes := fold remove1 ids (selected_scopes c), packages := ps\<rparr>)"
    using assms(1) strict_remove_ids [OF ps] by (fastforce simp: wf_config_def)
  moreover have "wf_config d \<Longrightarrow> wf_config (fold forget_repo rs d)" for d
    by (induction rs arbitrary: d) (simp_all add: wf_forget_repo)
  ultimately show ?thesis by (simp add: c')
qed

text \<open>
  A scope whose repository has been selected with it is recorded as a repository only. Removing it
  purges none of its packages.
\<close>

theorem packages_of_repo_scopes_stay:
  assumes "compile_config home dir bp None selections inp = Inr (c, ds, ids)"
    and "distinct (map scope_id selections)"
    and "Some target \<in> r_id ` set (concat (map scope_repos selections))" and "target \<noteq> ''all''"
  shows "target \<in> set (selected_repos c) \<and> target \<notin> set (selected_scopes c) \<and> fst (snd (removal_plan target bp c)) = []"
proof (rule compile_config_run [OF assms(1)], goal_cases)
  case (1 scope_ids es chosen rs)
  note run = this
  have sel: "set (selected_repos c) = (the \<circ> r_id) ` set chosen"
    using run(6) by (simp add: previous_repo_ids_def)
  have chosen: "Some target \<in> set (map r_id chosen)" using assms(3) run(1) by simp
  then have "target \<in> set (map the (map r_id chosen))" by (metis image_eqI image_set option.sel)
  then have 1: "0 < count (mset (map the (map r_id chosen))) target" by (simp only: count_greater_zero_iff set_mset_mset)
  have 2: "count (mset (map scope_id selections)) target \<le> 1"
    using assms(2) unfolding distinct_count_atmost_1 by (metis le_refl zero_le)
  have 3: "count (mset scope_ids) target + count (mset (map the (map r_id chosen))) target = count (mset (map scope_id selections)) target"
    using remove_ids_left [OF run(2)] by (metis count_union)
  from 1 2 3 have "count (mset scope_ids) target = 0" by linarith
  then have "target \<notin> set scope_ids" by (metis count_mset_0_iff)
  then have "target \<notin> set (selected_scopes c)" using run(7) by (simp add: previous_scope_ids_def)
  then show ?case
    using \<open>target \<in> set (map the (map r_id chosen))\<close> assms(4) sel
    by (auto simp: removal_plan_def Let_def filter_empty_conv concat_eq_Nil_conv)
qed

text \<open>The configuration of a workspace set up with both scopes without repositories, after \<open>--remove debug\<close>.\<close>

definition both_scopes :: config where
  "both_scopes =
     (case compile_config ''/h'' ''/w'' shipped_blueprint None [networking_scope, debug_scope] demo_prompts of
        Inr (c, _) \<Rightarrow> c | Inl _ \<Rightarrow> undefined)"

definition without_debug :: config where
  "without_debug = (case forget (removal_plan ''debug'' shipped_blueprint both_scopes) both_scopes of Inr c \<Rightarrow> c | Inl _ \<Rightarrow> undefined)"

theorem forget_wf_witness: "wf_config without_debug \<and> ''xterm'' \<notin> set (packages without_debug)"
proof -
  have "(case compile_config ''/h'' ''/w'' shipped_blueprint None [networking_scope, debug_scope] demo_prompts of
      Inr _ \<Rightarrow> True | Inl _ \<Rightarrow> False)"
    by code_simp
  then have "wf_config both_scopes"
    unfolding both_scopes_def by (auto split: sum.splits dest: compile_config_wf_all)
  moreover have "(case forget (removal_plan ''debug'' shipped_blueprint both_scopes) both_scopes of Inr _ \<Rightarrow> True | Inl _ \<Rightarrow> False)"
    by code_simp
  then have "forget (removal_plan ''debug'' shipped_blueprint both_scopes) both_scopes = Inr without_debug"
    unfolding without_debug_def by (auto split: sum.splits)
  ultimately have "wf_config without_debug" by (rule forget_wf)
  moreover have "''xterm'' \<notin> set (packages without_debug)" by code_simp
  ultimately show ?thesis by blast
qed

theorem packages_of_repo_scopes_stay_witness:
  "case compile_config ''/h'' ''/w'' shipped_blueprint None [linux_scope] demo_prompts of
     Inl _ \<Rightarrow> False
   | Inr (c, _) \<Rightarrow> fst (snd (removal_plan ''linux'' shipped_blueprint c)) = [] \<and> ''dwarves'' \<in> set (packages c)"
proof -
  have facts: "(case compile_config ''/h'' ''/w'' shipped_blueprint None [linux_scope] demo_prompts of
      Inr (c, _) \<Rightarrow> ''dwarves'' \<in> set (packages c) | Inl _ \<Rightarrow> False)"
    by code_simp
  then obtain c ds ids where c: "compile_config ''/h'' ''/w'' shipped_blueprint None [linux_scope] demo_prompts = Inr (c, ds, ids)"
    by (auto split: sum.splits)
  have "distinct (map scope_id [linux_scope])" "Some ''linux'' \<in> r_id ` set (concat (map scope_repos [linux_scope]))"
    "''linux'' \<noteq> ''all''"
    by (simp_all add: linux_scope_def linux_repo_def)
  from packages_of_repo_scopes_stay [OF c this] facts c show ?thesis by simp
qed

section \<open>Removing: properties\<close>

definition available :: "shell \<Rightarrow> string list \<Rightarrow> bool" where
  "available sh argv \<longleftrightarrow> (\<forall>l dir f. sh l argv dir f \<noteq> None)"

lemma available_check:
  assumes "available sh argv"
  obtains r w' where "run_check sh argv dir w = (r, w')" "r = Inr () \<or> r = Inl CalledProcessError" "ran argv w'"
    "\<And>a. ran a w \<Longrightarrow> ran a w'"
proof -
  obtain rc out f' where "sh (log w) argv dir (fs w) = Some (rc, out, f')"
    using assms unfolding available_def by (metis option.exhaust prod_cases3)
  then show ?thesis
    by (intro that [of "if rc = 0 then Inr () else Inl CalledProcessError" "w\<lparr>fs := f', log := log w @ [Ran argv dir]\<rparr>"])
      (auto simp: run_check_def run_def prog_simps ran_def)
qed

lemma purge_runs:
  assumes "available sh (purge_cmd pkgs)" and "available sh autoremove_cmd" and "pkgs \<noteq> []"
  obtains w' where "purge_packages sh pkgs w = (Inr (), w')" "ran (purge_cmd pkgs) w'"
proof -
  have said: "ran a (w'\<lparr>log := log w' @ [Said s]\<rparr>) = ran a w'" for a w' s by (auto simp: ran_def)
  obtain r w1 where w1: "run_check sh (purge_cmd pkgs) None w = (r, w1)" "r = Inr () \<or> r = Inl CalledProcessError"
    "ran (purge_cmd pkgs) w1"
    using available_check [OF assms(1), of None w] by blast
  obtain q w2 where w2: "run_check sh autoremove_cmd None w1 = (q, w2)" "q = Inr () \<or> q = Inl CalledProcessError"
    "ran (purge_cmd pkgs) w2"
    using available_check [OF assms(2), of None w1] w1(3) by metis
  show ?thesis
    using that w1 w2 assms(3) by (auto simp: purge_packages_def prog_simps say_def said)
qed

text \<open>
  Removing a scope one of whose packages is not listed (any more) stops half way: the packages are
  purged from the host, then ValueError is raised, and the configuration is not written, so the scope stays in it. The
  shipped scopes for networking and debugging share packages: with both set up, removing one after the other ends so.
\<close>

theorem shared_package_removal_stops:
  assumes "target \<noteq> ''all''" and "removal_plan target bp c = ([], pkgs, ids)" and "pkgs \<noteq> []"
    and "\<not> mset pkgs \<subseteq># mset (packages c)"
    and "available sh (purge_cmd pkgs)" and "available sh autoremove_cmd"
  shows "\<exists>w'. purge_packages sh pkgs w = (Inr (), w') \<and> ran (purge_cmd pkgs) w' \<and>
    remove_components dumps glob sh target bp c w = (Inl ValueError, w')"
proof -
  obtain w' where w': "purge_packages sh pkgs w = (Inr (), w')" "ran (purge_cmd pkgs) w'"
    by (rule purge_runs [OF assms(5,6,3)])
  have "forget ([], pkgs, ids) c = Inl ValueError"
    using forget_result [where rs = "[]" and pkgs = pkgs and ids = ids and c = c] assms(4) by (auto split: sum.splits)
  then have "remove_components dumps glob sh target bp c w = (Inl ValueError, w')"
    using assms(1,2) w'(1) by (simp add: remove_components_def prog_simps)
  with w' show ?thesis by blast
qed

theorem shared_package_removal_stops_witness:
  "fst (remove_components (\<lambda>_. []) (\<lambda>_ _. []) (answering (\<lambda>_. Some (0, []))) ''networking'' shipped_blueprint without_debug bare_host) =
     Inl ValueError"
proof -
  have plan: "removal_plan ''networking'' shipped_blueprint without_debug = ([], scope_packages networking_scope, [''networking''])"
    by code_simp
  have "(case forget ([], scope_packages networking_scope, [''networking'']) without_debug of Inl _ \<Rightarrow> True | Inr _ \<Rightarrow> False)"
    by code_simp
  then have "\<not> mset (scope_packages networking_scope) \<subseteq># mset (packages without_debug)"
    using forget_result [where rs = "[]" and pkgs = "scope_packages networking_scope" and ids = "[''networking'']" and c = without_debug] by (auto split: sum.splits)
  moreover have "available (answering (\<lambda>_. Some (0, []))) argv" for argv
    by (simp add: available_def answering_def)
  moreover have "scope_packages networking_scope \<noteq> []" by (simp add: networking_scope_def)
  ultimately show ?thesis
    using shared_package_removal_stops [OF _ plan, of "answering (\<lambda>_. Some (0, []))" bare_host "\<lambda>_. []" "\<lambda>_ _. []"] by auto
qed

end
