(* ===== verification/Setup_Headers.thy ===== *)
theory Setup_Headers
  imports Host
begin

text \<open>
  The kernel headers the sniffer's probe is compiled against (\<open>workspace_setup.py\<close>, lines 352 to 421): found on
  the host, linked or built on Windows' Linux subsystem, or installed from packages. Text is ASCII.
\<close>

section \<open>The names\<close>

text \<open>\<open>s.lower()\<close> on ASCII text.\<close>

definition lower_char :: "char \<Rightarrow> char" where
  "lower_char c =
     (if (of_char c :: nat) \<in> {65..90} then char_of (of_char c + 32 :: nat) else c)"

definition lower :: "string \<Rightarrow> string" where
  "lower s = map lower_char s"

text \<open>\<open>re.findall(r'\d+', s)\<close>: the longest runs of digits, from left to right.\<close>

fun digit_runs_from :: "string \<Rightarrow> string \<Rightarrow> string list" where
  "digit_runs_from acc [] = (if acc = [] then [] else [rev acc])"
| "digit_runs_from acc (c # cs) =
     (if is_digit c then digit_runs_from (c # acc) cs
      else if acc = [] then digit_runs_from [] cs
      else rev acc # digit_runs_from [] cs)"

definition digit_runs :: "string \<Rightarrow> string list" where
  "digit_runs s = digit_runs_from [] s"

definition major_minor :: "string \<Rightarrow> string" where
  "major_minor kernel_release =
     (case digit_runs kernel_release of a # b # _ \<Rightarrow> a @ ''.'' @ b | _ \<Rightarrow> ''6.6'')"

definition modules_dir :: "string \<Rightarrow> path" where
  "modules_dir kernel_release = ''/lib/modules/'' @ kernel_release"

definition build_path :: "string \<Rightarrow> path" where
  "build_path kernel_release = modules_dir kernel_release @ ''/build''"

definition sibling_source :: "string \<Rightarrow> string \<Rightarrow> path" where
  "sibling_source distribution kernel_release = ''/wsl.localhost/'' @ distribution @ ''/lib/modules/'' @ kernel_release @ ''/build''"

definition has_include :: "world \<Rightarrow> path \<Rightarrow> bool" where
  "has_include w p = path_exists w (path_join p ''include'')"

section \<open>The steps\<close>

definition kernel_options :: string where
  "kernel_options =
     newline @ ''CONFIG_BPF=y'' @ newline @ ''CONFIG_BPF_SYSCALL=y'' @ newline @ ''CONFIG_BPF_JIT=y'' @ newline @
     ''CONFIG_BPF_EVENTS=y'' @ newline @ ''CONFIG_BPF_EVENTS=y'' @ newline @ ''CONFIG_KPROBES=y'' @ newline @
     ''CONFIG_HAVE_KPROBES=y'' @ newline @ ''CONFIG_NET_CLS_ACT=y'' @ newline @ ''CONFIG_NET_ACT_BPF=y'' @ newline"

definition link_cmd :: "path \<Rightarrow> string \<Rightarrow> string list" where
  "link_cmd source kernel_release = [''sudo'', ''ln'', ''-sfn'', source, build_path kernel_release]"

definition rebuild_headers :: "shell \<Rightarrow> string \<Rightarrow> (world, unit) prog" where
  "rebuild_headers sh kernel_release =
     (let branch = ''linux-msft-wsl-'' @ major_minor kernel_release @ ''.y'';
          scratch_dir = ''/var/tmp/wsl2_kernel_src_'' @ major_minor kernel_release;
          url = ''https://github.com/microsoft/WSL2-Linux-Kernel/'';
          make = (\<lambda>target. run_check sh [''make'', target] (Some scratch_dir))
      in seqs
        [run_check sh [''sudo'', ''apt-get'', ''update''] None,
         run_check sh [''sudo'', ''apt-get'', ''install'', ''-y'', ''flex'', ''bison'', ''libelf-dev'', ''libssl-dev'', ''bc''] None,
         bindE (getE (\<lambda>w. path_exists w scratch_dir)) (\<lambda>there.
           if \<not> there then run_check sh [''git'', ''clone'', ''--depth=1'', ''-b'', branch, url, scratch_dir] None
           else make ''mrproper''),
         make ''defconfig'',
         append_text kernel_options (path_join scratch_dir ''.config''),
         make ''olddefconfig'',
         make ''modules_prepare'',
         run_check sh (link_cmd scratch_dir kernel_release) None])"

text \<open>The headers of a sibling system: the first that has them is linked.\<close>

fun link_sibling :: "shell \<Rightarrow> string \<Rightarrow> string list \<Rightarrow> (world, bool) prog" where
  "link_sibling sh kernel_release [] = ret False"
| "link_sibling sh kernel_release (d # ds) =
     bindE (getE (\<lambda>w. has_include w (sibling_source d kernel_release))) (\<lambda>there.
       if there then seqE (run_check sh (link_cmd (sibling_source d kernel_release) kernel_release) None) (ret True)
       else link_sibling sh kernel_release ds)"

definition kheaders_archive :: path where
  "kheaders_archive = ''/sys/kernel/kheaders.tar.xz''"

definition provide_wsl_headers :: "shell \<Rightarrow> string \<Rightarrow> (world, bool) prog" where
  "provide_wsl_headers sh kernel_release =
     seqE (run_check sh [''sudo'', ''mkdir'', ''-p'', modules_dir kernel_release] None)
       (bindE (link_sibling sh kernel_release [''debian'', ''Ubuntu'', ''ubuntu'']) (\<lambda>linked.
          if linked then ret True
          else bindE (getE (\<lambda>w. path_exists w kheaders_archive)) (\<lambda>archived.
            if archived then
              seqE (run_check sh [''sudo'', ''tar'', ''-xf'', kheaders_archive, ''-C'', build_path kernel_release] None) (ret True)
            else seqE (rebuild_headers sh kernel_release) (ret True))))"

definition headers_cmd :: "string \<Rightarrow> string list" where
  "headers_cmd package = [''sudo'', ''apt-get'', ''install'', ''-y'', package]"

definition install_headers :: "shell \<Rightarrow> string \<Rightarrow> (world, bool) prog" where
  "install_headers sh kernel_release =
     tryE
       (seqE (seqs
         [run_check sh [''sudo'', ''apt-get'', ''update''] None,
          run_check sh (headers_cmd (''linux-headers-'' @ kernel_release)) None]) (ret True))
       (\<lambda>e. e = CalledProcessError)
       (\<lambda>_. seqE (run_check sh (headers_cmd ''linux-headers-generic'') None) (ret True))"

definition configure_kernel_headers_for_vfio_user_pkt_sniffer :: "shell \<Rightarrow> (world, bool) prog" where
  "configure_kernel_headers_for_vfio_user_pkt_sniffer sh =
     bindE (run sh True [''uname'', ''-r''] None) (\<lambda>(_, out).
       let kernel_release = strip out
       in bindE (getE (\<lambda>w. has_include w (build_path kernel_release))) (\<lambda>there.
            if there then ret True
            else if contains ''microsoft'' (lower kernel_release) then provide_wsl_headers sh kernel_release
            else install_headers sh kernel_release))"

section \<open>Properties\<close>

text \<open>The series of a kernel is made of the first two numbers of its release.\<close>

lemma digit_runs_number:
  "list_all is_digit ds \<Longrightarrow> rest = [] \<or> \<not> is_digit (hd rest) \<Longrightarrow>
     digit_runs_from acc (ds @ rest) = (if acc = [] \<and> ds = [] then digit_runs_from [] rest else (rev acc @ ds) # digit_runs_from [] (tl rest))"
proof (induction ds arbitrary: acc)
  case Nil
  then show ?case by (cases rest) auto
qed simp

lemma major_minor_release:
  assumes "rest = [] \<or> \<not> is_digit (hd rest)"
  shows "major_minor (show_nat a @ ''.'' @ show_nat b @ rest) = show_nat a @ ''.'' @ show_nat b"
proof -
  have some: "show_nat n \<noteq> []" for n by (subst show_nat.simps) simp
  have dot: "\<not> is_digit (CHR ''.'')" by code_simp
  have b: "digit_runs_from [] (show_nat b @ rest) = show_nat b # digit_runs_from [] (tl rest)"
    using digit_runs_number [OF show_nat_digits assms, of "[]" b] some [of b] by simp
  have "digit_runs_from [] (show_nat a @ ''.'' @ show_nat b @ rest) = show_nat a # show_nat b # digit_runs_from [] (tl rest)"
    using digit_runs_number [OF show_nat_digits, of "''.'' @ show_nat b @ rest" "[]" a] dot some [of a] b by simp
  then show ?thesis by (simp add: major_minor_def digit_runs_def)
qed

text \<open>What is relied on of \<open>uname\<close>, \<open>mkdir\<close> and \<open>ln\<close> on the subsystem.\<close>

definition wsl_tools :: "shell \<Rightarrow> string \<Rightarrow> bool" where
  "wsl_tools sh kernel_release \<longleftrightarrow>
     (\<forall>l f. \<exists>out. sh l [''uname'', ''-r''] None f = Some (0, out, f) \<and> strip out = kernel_release) \<and>
     (\<forall>l f. \<exists>out f'. sh l [''sudo'', ''mkdir'', ''-p'', modules_dir kernel_release] None f = Some (0, out, f') \<and>
        (\<forall>p. prefix ''/wsl.localhost'' p \<longrightarrow> fstat f' p = fstat f p)) \<and>
     (\<forall>l f source. \<exists>out. sh l (link_cmd source kernel_release) None f =
        Some (0, out, f(build_path kernel_release := Some (Symlink source))))"

lemma link_first_sibling:
  assumes "wsl_tools sh rel" and "find (\<lambda>d. has_include w (sibling_source d rel)) ds = Some d"
  shows "\<exists>w'. link_sibling sh rel ds w = (Inr True, w') \<and> fs w' (build_path rel) = Some (Symlink (sibling_source d rel))"
  using assms(2)
proof (induction ds)
  case (Cons x xs)
  show ?case
  proof (cases "has_include w (sibling_source x rel)")
    case True
    obtain out where "sh (log w) (link_cmd (sibling_source x rel) rel) None (fs w) =
        Some (0, out, (fs w)(build_path rel := Some (Symlink (sibling_source x rel))))"
      using assms(1) unfolding wsl_tools_def by blast
    then show ?thesis using True Cons.prems by (simp add: prog_simps run_check_def run_def)
  next
    case False
    then show ?thesis using Cons by (simp add: prog_simps)
  qed
qed simp


definition wsl_release :: string where
  "wsl_release = ''5.15.90.1-microsoft-standard-WSL2''"

definition wsl_shell :: shell where
  "wsl_shell l argv dir f =
     (case argv of
        [a, b] \<Rightarrow> Some (0, wsl_release @ newline, f)
      | [a, b, c, source, target] \<Rightarrow> Some (0, [], f(target := Some (Symlink source)))
      | _ \<Rightarrow> Some (0, [], f))"

definition wsl_host :: world where
  "wsl_host =
     \<lparr>fs = [sibling_source ''Ubuntu'' wsl_release @ ''/include'' \<mapsto> Dir, sibling_source ''ubuntu'' wsl_release @ ''/include'' \<mapsto> Dir],
      cwd = ''/p'', env = Map.empty, log = []\<rparr>"


end
