(* ===== verification/Setup_Main.thy ===== *)
theory Setup_Main
  imports Setup_Access Setup_Git Setup_Remove Setup_Headers Arg_Parse
begin

text \<open>
  The program of \<open>workspace_setup.py\<close>: its options, the menu, the configuration it saves, and the steps it
  takes for each repository and for the host (lines 18 to 101 and 1030 to 1320).

  The menu and the prompts (InquirerPy) and the JSON library are parameters: \<open>menu\<close> maps the scopes, each with
  whether it is marked, to those the user selects; \<open>loads\<close> gives nothing for a malformed text and \<open>Some None\<close>
  for an empty document. Symbols outside ASCII are left out of the messages.
\<close>

section \<open>The machine and the user\<close>

record machine =
  shell_of :: shell
  glob_of :: glob
  which_of :: "world \<Rightarrow> string \<Rightarrow> bool"
  cpu_count :: "nat option"
  groups_of :: groups
  mode_of :: "path \<Rightarrow> nat"
  user_home :: path
  project_root_dir :: path

record json =
  loads_blueprint :: "string \<Rightarrow> blueprint option option"
  loads_config :: "string \<Rightarrow> config option option"
  dumps :: "config \<Rightarrow> string"

record user =
  menu :: "(scope \<times> bool) list \<Rightarrow> scope list"
  typed :: prompts

section \<open>Reading and showing\<close>

definition load_json :: "(string \<Rightarrow> 'a option option) \<Rightarrow> path \<Rightarrow> (world, 'a option) prog" where
  "load_json loads p =
     bindE (getE (\<lambda>w. path_exists w p)) (\<lambda>there.
       if \<not> there then ret None
       else bindE (read_text p) (\<lambda>t.
         case loads t of
           None \<Rightarrow> bindE (say (''ERROR: Failed to parse '' @ p)) (\<lambda>_. raise (SystemExit 1))
         | Some v \<Rightarrow> ret v))"

definition format_repo_info :: "repo \<Rightarrow> string" where
  "format_repo_info r =
     (let repo_info =
            (if truthy (r_tag r) then [''version '' @ the (r_tag r)] else []) @
            (if truthy (r_branch r) then [''branch '' @ the (r_branch r)] else [])
      in if repo_info \<noteq> [] then '' ('' @ join '', '' repo_info @ '')'' else [])"

definition the_slug :: "repo \<Rightarrow> (world, string) prog" where
  "the_slug r = (case r_slug r of None \<Rightarrow> raise (KeyError ''slug'') | Some s \<Rightarrow> ret s)"

definition print_base_repo :: "repo \<Rightarrow> (world, unit) prog" where
  "print_base_repo r =
     bindE (repo_name r) (\<lambda>d.
     bindE (the_slug r) (\<lambda>s. say (d @ '' -> '' @ s @ format_repo_info r)))"

fun scope_repo_infos :: "repo list \<Rightarrow> (world, string list) prog" where
  "scope_repo_infos [] = ret []"
| "scope_repo_infos (r # rs) =
     bindE (repo_name r) (\<lambda>d.
     bindE (scope_repo_infos rs) (\<lambda>infos. ret ((d @ format_repo_info r) # infos)))"

definition print_scope :: "scope \<Rightarrow> (world, unit) prog" where
  "print_scope s =
     seqs
       [say (scope_name s @ '' ('' @ scope_id s @ '')''),
        whenE (scope_packages s \<noteq> []) (say (''Packages: '' @ join '', '' (scope_packages s))),
        whenE (scope_repos s \<noteq> [])
          (bindE (scope_repo_infos (scope_repos s)) (\<lambda>infos. say (''Repos: '' @ join '', '' infos)))]"

definition print_workspace_manifest :: "blueprint \<Rightarrow> (world, unit) prog" where
  "print_workspace_manifest bp =
     seqs
       [say ''This utility checks and aligns the following components:'',
        whenE (base_repos bp \<noteq> []) (say ''Mandatory Repositories:''),
        forE (base_repos bp) print_base_repo,
        whenE (scopes bp \<noteq> []) (say ''Optional Scopes & Features:''),
        forE (scopes bp) print_scope]"

section \<open>Packages\<close>

definition update_cmd :: "string list" where
  "update_cmd = [''sudo'', ''apt'', ''update'']"

definition apt_install_cmd :: "string list \<Rightarrow> string list" where
  "apt_install_cmd package_list = [''sudo'', ''-E'', ''apt'', ''install'', ''-y''] @ package_list"

definition install_system_packages :: "shell \<Rightarrow> string list \<Rightarrow> (world, bool) prog" where
  "install_system_packages sh package_list =
     (if package_list = [] then ret True
      else tryE
        (seqE (seqs [run_check sh update_cmd None, run_check sh (apt_install_cmd package_list) None]) (ret True))
        (\<lambda>e. e = CalledProcessError)
        (\<lambda>_. bindE (say ''Package manager reported a failure'') (\<lambda>_. ret False)))"

fun missing_packages :: "shell \<Rightarrow> string list \<Rightarrow> (world, string list) prog" where
  "missing_packages sh [] = ret []"
| "missing_packages sh (pkg # pkgs) =
     bindE (is_package_installed sh pkg) (\<lambda>installed.
     bindE (missing_packages sh pkgs) (\<lambda>rest. ret (if installed then rest else pkg # rest)))"

definition align_packages :: "shell \<Rightarrow> config \<Rightarrow> (world, unit) prog" where
  "align_packages sh c =
     bindE (missing_packages sh (packages c)) (\<lambda>packages_to_install.
       whenE (packages_to_install \<noteq> [])
         (bindE (install_system_packages sh packages_to_install) (\<lambda>ok.
            say (if ok then ''Compilation dependency tools are available''
                 else ''Package alignment halted due to execution errors''))))"

section \<open>One repository\<close>

definition clone_url :: "repo \<Rightarrow> string" where
  "clone_url r =
     (if truthy (r_url r) then the (r_url r)
      else ''https://github.com/'' @ the (r_slug r) @ ''.git'')"

definition clone_cmd :: "repo \<Rightarrow> path \<Rightarrow> string list" where
  "clone_cmd r repo_path =
     [''git'', ''clone''] @
     (if r_sparse r \<noteq> None \<and> r_sparse r \<noteq> Some [] then [''--depth'', ''1'', ''--filter=blob:none'', ''--sparse'']
      else case r_depth r of
          Some n \<Rightarrow> if n \<noteq> 0 then [''--depth'', show_nat n] else []
        | None \<Rightarrow> []) @
     [clone_url r, repo_path]"

definition sparse_cmd :: "string list \<Rightarrow> string list" where
  "sparse_cmd dirs = [''git'', ''sparse-checkout'', ''set''] @ dirs"

text \<open>
  The message for a clone that fails reads \<open>repo\<close>, a variable of earlier loops in \<open>main\<close>; whether one of
  them has bound it is an argument. The result says whether the repository is there.
\<close>

definition fetch_repo :: "shell \<Rightarrow> bool \<Rightarrow> repo \<Rightarrow> path \<Rightarrow> (world, bool) prog" where
  "fetch_repo sh repo_bound r repo_path =
     bindE (getE (\<lambda>w. path_exists w repo_path \<and> isdir w (path_join repo_path ''.git''))) (\<lambda>there.
       if there then ret True
       else bindE
         (tryE (seqE (run_check sh (clone_cmd r repo_path) None) (ret True))
           (\<lambda>e. e = CalledProcessError)
           (\<lambda>_. if repo_bound then bindE (say ''Failed to fetch repository'') (\<lambda>_. ret False)
                else raise (UnboundLocalError ''repo''))) (\<lambda>fetched.
         case r_sparse r of
           Some (d # ds) \<Rightarrow>
             if fetched then seqE (run_check sh (sparse_cmd (d # ds)) (Some repo_path)) (ret True) else ret False
         | _ \<Rightarrow> ret fetched))"

definition find_patch :: "path \<Rightarrow> repo \<Rightarrow> (world, path option) prog" where
  "find_patch root r =
     (if truthy (r_patch r) then
        bindE (getE (\<lambda>w. normpath (path_join (cwd w) (path_join root (the (r_patch r)))))) (\<lambda>patch_path.
        bindE (getE (\<lambda>w. path_exists w patch_path)) (\<lambda>there.
          if there then ret (Some patch_path)
          else bindE (say (''Warning: Patch file does not exist: '' @ patch_path)) (\<lambda>_. ret None)))
      else ret (r_patch r))"

definition setup_repo :: "machine \<Rightarrow> bool \<Rightarrow> string list \<Rightarrow> repo \<Rightarrow> (world, unit) prog" where
  "setup_repo m repo_bound known_ids r =
     (if truthy (r_id r) \<and> the (r_id r) \<notin> set known_ids then ret ()
      else bindE (repo_name r) (\<lambda>name.
        bindE (root_of r) (\<lambda>repo_root_dir.
        bindE (os_makedirs repo_root_dir True) (\<lambda>_.
          let repo_path = path_join repo_root_dir name
          in bindE (fetch_repo (shell_of m) repo_bound r repo_path) (\<lambda>fetched.
             whenE fetched
               (bindE (find_patch (project_root_dir m) r) (\<lambda>patch_path.
                seqE (align_repo_state (shell_of m) repo_path (r_tag r) (r_branch r) patch_path)
                  (build_repo (glob_of m) (which_of m) (cpu_count m) (shell_of m) name repo_path (r_tag r)))))))))"

section \<open>The host\<close>

definition setup_networking :: "machine \<Rightarrow> (world, unit) prog" where
  "setup_networking m =
     bindE (getE (\<lambda>w. path_exists w ''/proc/sys/net/core/bpf_jit_enable'')) (\<lambda>ebpf.
       if ebpf then
         bindE (configure_kernel_headers_for_vfio_user_pkt_sniffer (shell_of m)) (\<lambda>_.
         bindE (configure_wireshark_permissions (groups_of m) (shell_of m)) (\<lambda>_.
         bindE (configure_vfio_user_dissector (user_home m) (project_root_dir m)) (\<lambda>_.
         bindE (configure_vfio_user_pkt_sniffer_sudo_exemption (user_home m) (project_root_dir m) (shell_of m)) (\<lambda>_. ret ()))))
       else say ''Warning: Host kernel eBPF capabilities are disabled'')"

definition setup_host :: "machine \<Rightarrow> config \<Rightarrow> dirs \<Rightarrow> string list \<Rightarrow> (world, unit) prog" where
  "setup_host m c ds selected_ids =
     seqs
       [verify_project_symlinks (project_root_dir m) (tools_root ds) (soc_root ds) (os_root ds) selected_ids,
        whenE (''networking'' \<in> set (selected_scopes c)) (setup_networking m),
        whenE (''networking'' \<in> set (selected_scopes c) \<or> ''debug'' \<in> set (selected_scopes c))
          (configure_x11_resources (user_home m) (project_root_dir m) (shell_of m)),
        bindE (setup_kvm_permissions (mode_of m) (shell_of m)) (\<lambda>_. ret ()),
        say ''Setup completed'']"

section \<open>\<open>main\<close>\<close>

text \<open>What can be uninstalled, and the options this gives; a first setup has another one.\<close>

definition installed_components :: "machine \<Rightarrow> world \<Rightarrow> string list" where
  "installed_components m w =
     (if get_qemu_dirs w \<noteq> [] then [''qemu''] else []) @
     (if glob_of m ''/usr/local/bin/verilator*'' (fs w) \<noteq> [] then [''verilator''] else [])"

definition setup_options :: "string list \<Rightarrow> config option \<Rightarrow> (string \<times> string list option) list" where
  "setup_options uninstall st =
     (case st of
        None \<Rightarrow> [(''--setup'', None)]
      | Some c \<Rightarrow>
          (if uninstall \<noteq> [] then [(''--uninstall'', Some uninstall)] else []) @
          [(''--remove'', Some (''all'' # sort (meta_repos c @ selected_repos c @ selected_scopes c)))])"

text \<open>Whether \<open>repo\<close> is bound once the configuration is compiled.\<close>

definition repo_is_bound :: "config option \<Rightarrow> scope list \<Rightarrow> bool" where
  "repo_is_bound st selections \<longleftrightarrow>
     selections \<noteq> [] \<or> (case st of None \<Rightarrow> False | Some c \<Rightarrow> selected_repos c \<noteq> [] \<and> repos c \<noteq> [])"

definition marked_scopes :: "blueprint \<Rightarrow> config option \<Rightarrow> (scope \<times> bool) list" where
  "marked_scopes bp st =
     map (\<lambda>s. (s, scope_id s \<in> set (previous_repo_ids st @ previous_scope_ids st))) (scopes bp)"

definition compile_and_save ::
  "machine \<Rightarrow> json \<Rightarrow> user \<Rightarrow> blueprint \<Rightarrow> config option \<Rightarrow> scope list \<Rightarrow> (world, config \<times> dirs \<times> string list) prog" where
  "compile_and_save m js u bp st selections =
     bindE (getE (\<lambda>w. compile_config (user_home m) (cwd w) bp st selections (typed u))) (\<lambda>r.
     bindE (liftE r) (\<lambda>(c, ds, selected_ids).
     bindE (write_text (dumps js c) config_file) (\<lambda>_. ret (c, ds, selected_ids))))"

definition setup_workspace :: "machine \<Rightarrow> json \<Rightarrow> user \<Rightarrow> blueprint \<Rightarrow> config option \<Rightarrow> (world, unit) prog" where
  "setup_workspace m js u bp st =
     bindE (print_workspace_manifest bp) (\<lambda>_.
       let selections = menu u (marked_scopes bp st)
       in bindE (compile_and_save m js u bp st selections) (\<lambda>(c, ds, selected_ids).
          seqs
            [align_packages (shell_of m) c,
             forE (repos c) (setup_repo m (repo_is_bound st selections) (meta_repos c @ selected_ids)),
             setup_host m c ds selected_ids]))"

text \<open>The options that remove something; each of them ends the program.\<close>

definition uninstall_components ::
  "machine \<Rightarrow> json \<Rightarrow> blueprint \<Rightarrow> config \<Rightarrow> (string \<times> string option) list \<Rightarrow> (world, unit) prog" where
  "uninstall_components m js bp c ns =
     (if option_value ns ''--uninstall'' = Some ''qemu'' then
        seqE (uninstall_qemu_distro (glob_of m) (shell_of m) (path_join (clone_tools_directory c) ''qemu'')) (raise (SystemExit 0))
      else if option_value ns ''--uninstall'' = Some ''verilator'' then
        seqE (uninstall_verilator_distro (glob_of m) (shell_of m) (path_join (clone_tools_directory c) ''verilator''))
          (raise (SystemExit 0))
      else case option_value ns ''--remove'' of
          Some (x # xs) \<Rightarrow>
            seqE (remove_components (dumps js) (glob_of m) (shell_of m) (x # xs) bp c) (raise (SystemExit 0))
        | _ \<Rightarrow> ret ())"

definition main :: "machine \<Rightarrow> json \<Rightarrow> user \<Rightarrow> string list \<Rightarrow> (world, unit) prog" where
  "main m js u argv =
     bindE (load_json (loads_blueprint js) ''prerequisites_config.json'') (\<lambda>bp.
     case bp of
       None \<Rightarrow> seqE (say ''Error: prerequisites_config.json missing from root directory.'') (raise (SystemExit 1))
     | Some blueprint \<Rightarrow>
         bindE (load_json (loads_config js) config_file) (\<lambda>config_state.
         bindE (getE (installed_components m)) (\<lambda>uninstall.
         bindE (liftE (parse_options (setup_options uninstall config_state) [] False argv)) (\<lambda>ns.
         bindE (case config_state of None \<Rightarrow> ret () | Some c \<Rightarrow> uninstall_components m js blueprint c ns) (\<lambda>_.
           setup_workspace m js u blueprint config_state)))))"

section \<open>The entries of a configuration\<close>

text \<open>No entry of a compiled configuration is passed over: its id is among the mandatory or the selected ones.\<close>

lemma compiled_entries_known:
  assumes "compile_config home dir bp st selections inp = Inr (c, ds, ids)" and "r \<in> set (repos c)"
  shows "\<not> truthy (r_id r) \<or> the (r_id r) \<in> set (meta_repos c @ ids)"
proof (rule compile_config_run [OF assms(1)], goal_cases)
  case (1 scope_ids es chosen rs)
  note run = this
  have "r \<in> set (by_slug es)" using assms(2) run(11) by simp
  then obtain s where "(s, r) \<in> set es" by (rule by_slug_from)
  then obtain q where q: "q \<in> set rs" "compile_entry ds q = Inr (s, r)" using compile_entries_from [OF run(5)] by blast
  then have same: "r_id q = r_id r" by (simp add: compile_entry_Inr)
  show ?case
  proof (cases "truthy (r_id r)")
    case True
    then obtain i where i: "r_id r = Some i" "i \<noteq> []" by (auto simp: truthy_def split: option.splits list.splits)
    then have "i \<in> set ids \<or> i \<in> set (base_ids ids rs)"
      using q(1) same by (auto simp: base_ids_def intro!: bexI [of _ q])
    then show ?thesis using i run(9) by auto
  qed simp
qed

section \<open>The configuration file\<close>

lemma saved:
  assumes "compile_and_save m js u bp st selections w = (Inr (c, ds, ids), w')"
  shows "compile_config (user_home m) (cwd w) bp st selections (typed u) = Inr (c, ds, ids)"
    and "write_text (dumps js c) config_file w = (Inr (), w')"
  using assms by (auto simp: compile_and_save_def prog_simps split: sum.splits prod.splits)

lemma written_reads:
  assumes "write_text s p w = (Inr (), w')"
  shows "path_exists w' p" and "read_text p w' = (Inr s, w')" and "write_text s p w' = (Inr (), w')" and "cwd w' = cwd w"
proof -
  have st: "stat w' p = Some (File s)" using stat_write(1) [of "\<lambda>_. s" p w w'] assms by (auto simp: write_text_def)
  then show "path_exists w' p" "read_text p w' = (Inr s, w')" by (simp_all add: path_exists_def read_text_def)
  obtain q where q: "follow max_links (fs w') (at w' p) = Some q" "fs w' q = Some (File s)"
    using st by (auto simp: stat_def split: option.splits)
  have "put q (Some (File s)) w' = w'" using q(2) by (simp add: put_def fun_upd_idem)
  then show "write_text s p w' = (Inr (), w')" using q by (simp add: write_text_def write_with_def)
  have "keeps (\<lambda>v. cwd v = cwd w) (write_text s p)" unfolding write_text_def by (intro preserve)
  from keeps_outcome [OF this] assms show "cwd w' = cwd w" by blast
qed

text \<open>
  C23. The configuration that is saved is the one the next run loads; with the same choices, that run
  compiles it again and leaves the file, and all others, as they are.
\<close>

theorem saved_config_stable:
  assumes "compile_and_save m js u bp None selections w = (Inr (c, ds, ids), w')"
    and "loads_config js (dumps js c) = Some (Some c)"
  shows "Setup_Main.load_json (loads_config js) config_file w' = (Inr (Some c), w') \<and>
    compile_and_save m js u' bp (Some c) selections w' = (Inr (c, ds, ids), w')"
proof -
  note run = saved [OF assms(1)] and kept = written_reads [OF saved(2) [OF assms(1)]]
  have "compile_config (user_home m) (cwd w') bp (Some c) selections (typed u') = Inr (c, ds, ids)"
    unfolding kept(4) by (rule rerun_compiles_all [OF run(1)])
  then show ?thesis
    using kept assms(2) by (simp add: load_json_def compile_and_save_def prog_simps)
qed

definition demo_machine :: machine where
  "demo_machine =
     \<lparr>shell_of = answering (\<lambda>_. None), glob_of = (\<lambda>_ _. []), which_of = (\<lambda>_ _. False), cpu_count = None,
      groups_of = (\<lambda>_. None), mode_of = (\<lambda>_. 0), user_home = ''/h'', project_root_dir = ''/p''\<rparr>"

definition demo_config :: config where
  "demo_config =
     (case compile_config ''/h'' ''/p'' shipped_blueprint None [linux_scope, networking_scope] demo_prompts of
        Inr (c, _) \<Rightarrow> c | Inl _ \<Rightarrow> undefined)"

definition demo_json :: json where
  "demo_json =
     \<lparr>loads_blueprint = (\<lambda>_. Some (Some shipped_blueprint)), loads_config = (\<lambda>_. Some (Some demo_config)),
      dumps = (\<lambda>_. ''{}'')\<rparr>"

definition demo_user :: user where
  "demo_user = \<lparr>menu = (\<lambda>_. [linux_scope, networking_scope]), typed = demo_prompts\<rparr>"

definition project_host :: world where
  "project_host = \<lparr>fs = [''/p'' \<mapsto> Dir, ''/t'' \<mapsto> Dir], cwd = ''/p'', env = Map.empty, log = []\<rparr>"

lemma demo_saved:
  obtains ds ids w' where
    "compile_and_save demo_machine demo_json demo_user shipped_blueprint None [linux_scope, networking_scope] project_host =
       (Inr (demo_config, ds, ids), w')"
proof -
  have "(case compile_config ''/h'' ''/p'' shipped_blueprint None [linux_scope, networking_scope] demo_prompts of
      Inr _ \<Rightarrow> True | Inl _ \<Rightarrow> False)"
    by code_simp
  then obtain ds ids where c: "compile_config ''/h'' ''/p'' shipped_blueprint None [linux_scope, networking_scope] demo_prompts =
      Inr (demo_config, ds, ids)"
    unfolding demo_config_def by (auto split: sum.splits)
  have "fst (write_text ''{}'' config_file project_host) = Inr ()" by code_simp
  then obtain w' where "write_text ''{}'' config_file project_host = (Inr (), w')" by (metis prod.collapse)
  then show ?thesis
    using that c by (simp add: compile_and_save_def prog_simps demo_machine_def demo_user_def demo_json_def project_host_def)
qed

theorem saved_config_stable_witness:
  "\<exists>w'. Setup_Main.load_json (loads_config demo_json) config_file w' = (Inr (Some demo_config), w') \<and>
     fs w' (''/p/.configs.json'') = Some (File ''{}'')"
proof -
  obtain ds ids w' where w': "compile_and_save demo_machine demo_json demo_user shipped_blueprint None
      [linux_scope, networking_scope] project_host = (Inr (demo_config, ds, ids), w')"
    by (rule demo_saved)
  have "loads_config demo_json (dumps demo_json demo_config) = Some (Some demo_config)" by (simp add: demo_json_def)
  note facts = saved_config_stable [OF w' this] saved(2) [OF w']
  moreover have "fs (snd (write_text ''{}'' config_file project_host)) ''/p/.configs.json'' = Some (File ''{}'')" by code_simp
  ultimately show ?thesis by (auto simp: demo_json_def)
qed

section \<open>Packages: properties\<close>

text \<open>What is relied on: \<open>dpkg-query\<close> tells what is installed and changes nothing; \<open>apt\<close> succeeds.\<close>

definition dpkg_cmd :: "string \<Rightarrow> string list" where
  "dpkg_cmd pkg = [''dpkg-query'', ''-W'', ''-f=${Status}'', pkg]"

definition dpkg_like :: "shell \<Rightarrow> (string \<Rightarrow> bool) \<Rightarrow> bool" where
  "dpkg_like sh installed \<longleftrightarrow>
     (\<forall>l pkg f. \<exists>rc out. sh l (dpkg_cmd pkg) None f = Some (rc, out, f) \<and>
        (contains ''install ok installed'' (strip out) \<longleftrightarrow> installed pkg))"

definition succeeds :: "shell \<Rightarrow> string list \<Rightarrow> bool" where
  "succeeds sh argv \<longleftrightarrow> (\<forall>l f. \<exists>out f'. sh l argv None f = Some (0, out, f'))"

lemma succeeds_run:
  assumes "succeeds sh argv"
  obtains w' where "run_check sh argv None w = (Inr (), w')" "log w' = log w @ [Ran argv None]"
proof -
  obtain out f' where "sh (log w) argv None (fs w) = Some (0, out, f')"
    using assms unfolding succeeds_def by blast
  then show ?thesis
    by (intro that [of "w\<lparr>fs := f', log := log w @ [Ran argv None]\<rparr>"]) (simp_all add: run_check_def run_def prog_simps)
qed

lemma missing_packages_exact:
  assumes "dpkg_like sh installed"
  shows "missing_packages sh pkgs w =
    (Inr (filter (\<lambda>p. \<not> installed p) pkgs), w\<lparr>log := log w @ map (\<lambda>p. Ran (dpkg_cmd p) None) pkgs\<rparr>)"
proof (induction pkgs arbitrary: w)
  case Nil
  then show ?case by (simp add: prog_simps)
next
  case (Cons p ps)
  obtain rc out where "sh (log w) (dpkg_cmd p) None (fs w) = Some (rc, out, fs w)"
      "contains ''install ok installed'' (strip out) \<longleftrightarrow> installed p"
    using assms unfolding dpkg_like_def by blast
  then have "is_package_installed sh p w = (Inr (installed p), w\<lparr>log := log w @ [Ran (dpkg_cmd p) None]\<rparr>)"
    by (simp add: is_package_installed_def run_def prog_simps dpkg_cmd_def)
  then show ?case using Cons.IH by (simp add: prog_simps)
qed

text \<open>
  C24. Exactly the packages of the configuration that are not installed are installed, with one command
  after one update of the package lists; when nothing is missing, the package manager is not started.
\<close>

theorem missing_packages_installed:
  assumes "dpkg_like sh installed" and "succeeds sh update_cmd" and "\<And>pkgs. succeeds sh (apt_install_cmd pkgs)"
  shows "\<exists>w'. align_packages sh c w = (Inr (), w') \<and>
    log w' = log w @ map (\<lambda>p. Ran (dpkg_cmd p) None) (packages c) @
      (let missing = filter (\<lambda>p. \<not> installed p) (packages c)
       in if missing = [] then []
          else [Ran update_cmd None, Ran (apt_install_cmd missing) None,
                Said ''Compilation dependency tools are available''])"
proof -
  let ?missing = "filter (\<lambda>p. \<not> installed p) (packages c)"
  let ?w = "w\<lparr>log := log w @ map (\<lambda>p. Ran (dpkg_cmd p) None) (packages c)\<rparr>"
  note asked = missing_packages_exact [OF assms(1), of "packages c" w]
  show ?thesis
  proof (cases "?missing = []")
    case True
    then show ?thesis using asked by (simp add: align_packages_def prog_simps)
  next
    case False
    obtain w1 where w1: "run_check sh update_cmd None ?w = (Inr (), w1)" "log w1 = log ?w @ [Ran update_cmd None]"
      by (rule succeeds_run [OF assms(2)])
    obtain w2 where w2: "run_check sh (apt_install_cmd ?missing) None w1 = (Inr (), w2)"
        "log w2 = log w1 @ [Ran (apt_install_cmd ?missing) None]"
      by (rule succeeds_run [OF assms(3)])
    have "align_packages sh c w =
        (Inr (), w2\<lparr>log := log w2 @ [Said ''Compilation dependency tools are available'']\<rparr>)"
      using False asked w1(1) w2(1) by (simp add: align_packages_def install_system_packages_def prog_simps say_def)
    then show ?thesis using False w1(2) w2(2) by (simp add: Let_def)
  qed
qed

text \<open>A machine on which only \<open>git\<close> is installed.\<close>

definition git_only :: "string list \<Rightarrow> (int \<times> string) option" where
  "git_only argv =
     Some (0, if argv = dpkg_cmd ''git'' then ''install ok installed'' else [])"

theorem missing_packages_installed_witness:
  "\<exists>w'. align_packages (answering git_only) (demo_config\<lparr>packages := [''bc'', ''git'']\<rparr>) bare_host = (Inr (), w') \<and>
     Ran (apt_install_cmd [''bc'']) None \<in> set (log w')"
proof -
  have "dpkg_like (answering git_only) (\<lambda>p. p = ''git'')"
  proof -
    have "contains ''install ok installed'' (strip ''install ok installed'')" "\<not> contains ''install ok installed'' (strip [])"
      by code_simp+
    then show ?thesis by (simp add: dpkg_like_def answering_def git_only_def dpkg_cmd_def)
  qed
  moreover have "succeeds (answering git_only) argv" for argv
    by (simp add: succeeds_def answering_def git_only_def)
  ultimately have "\<exists>w'. align_packages (answering git_only) (demo_config\<lparr>packages := [''bc'', ''git'']\<rparr>) bare_host = (Inr (), w') \<and>
    log w' = log bare_host @ map (\<lambda>p. Ran (dpkg_cmd p) None) [''bc'', ''git''] @
      [Ran update_cmd None, Ran (apt_install_cmd [''bc'']) None, Said ''Compilation dependency tools are available'']"
    using missing_packages_installed [of "answering git_only" "\<lambda>p. p = ''git''" "demo_config\<lparr>packages := [''bc'', ''git'']\<rparr>" bare_host]
    by simp
  then show ?thesis by auto
qed

section \<open>Repositories: properties\<close>

text \<open>
  C27. When the first clone fails, what happens depends on what was selected: if a scope is selected,
  now or in the loaded configuration, the failure is reported and the other repositories are set up; if none is, the
  report itself raises UnboundLocalError, and the setup ends there.
\<close>

theorem failed_first_clone:
  assumes "compile_config home dir bp st selections inp = Inr (c, ds, ids)"
    and "repos c = r # rs" and "r_rdir r = Some d" and "repo_name r w = (Inr name, w)" and "isdir w d"
    and "\<not> path_exists w (path_join d name)"
    and "shell_of m (log w) (clone_cmd r (path_join d name)) None (fs w) = Some (rc, out, f)" and "rc \<noteq> 0"
  shows "forE (repos c) (setup_repo m (repo_is_bound st selections) (meta_repos c @ ids)) w =
    (let w' = w\<lparr>fs := f, log := log w @ [Ran (clone_cmd r (path_join d name)) None]\<rparr>
     in if repo_is_bound st selections
        then forE rs (setup_repo m True (meta_repos c @ ids)) (w'\<lparr>log := log w' @ [Said ''Failed to fetch repository'']\<rparr>)
        else (Inl (UnboundLocalError ''repo''), w'))"
proof -
  let ?w = "w\<lparr>fs := f, log := log w @ [Ran (clone_cmd r (path_join d name)) None]\<rparr>"
  have known: "\<not> (truthy (r_id r) \<and> the (r_id r) \<notin> set (meta_repos c @ ids))"
    using compiled_entries_known [OF assms(1), of r] assms(2) by auto
  have fetch: "fetch_repo (shell_of m) b r (path_join d name) w =
      (if b then (Inr False, ?w\<lparr>log := log ?w @ [Said ''Failed to fetch repository'']\<rparr>)
       else (Inl (UnboundLocalError ''repo''), ?w))" for b
    using assms(6-8)
    by (simp add: fetch_repo_def run_check_def run_def prog_simps say_def split: option.splits list.splits)
  have "setup_repo m b (meta_repos c @ ids) r w =
      (if b then (Inr (), ?w\<lparr>log := log ?w @ [Said ''Failed to fetch repository'']\<rparr>)
       else (Inl (UnboundLocalError ''repo''), ?w))" for b
    unfolding setup_repo_def if_not_P [OF known]
    using assms(3,4) makedirs_there [OF assms(5)] fetch [of b] by (simp add: root_of_def prog_simps Let_def)
  then show ?thesis by (simp add: assms(2) prog_simps)
qed

definition offline :: "string list \<Rightarrow> (int \<times> string) option" where
  "offline argv = Some (128, [])"

definition soc_host :: world where
  "soc_host = \<lparr>fs = [''/p'' \<mapsto> Dir, ''/soc'' \<mapsto> Dir], cwd = ''/p'', env = Map.empty, log = []\<rparr>"

theorem failed_first_clone_witness:
  "case compile_config ''/h'' ''/p'' shipped_blueprint None [] demo_prompts of
     Inl _ \<Rightarrow> False
   | Inr (c, ds, ids) \<Rightarrow>
       fst (forE (repos c) (setup_repo (demo_machine\<lparr>shell_of := answering offline\<rparr>) (repo_is_bound None [])
         (meta_repos c @ ids)) soc_host) = Inl (UnboundLocalError ''repo'')"
proof -
  let ?first = "no_repo\<lparr>r_slug := Some ''chili-chips-ba/openPCIE'', r_id := Some ''openpcie'', r_rdir := Some ''/soc'',
    r_sparse := Some [''2.amd-rtl-with-Vivado-build'', ''2.rtl'']\<rparr>"
  have "(case compile_config ''/h'' ''/p'' shipped_blueprint None [] demo_prompts of
      Inl _ \<Rightarrow> False | Inr (c, _) \<Rightarrow> take 1 (repos c) = [?first])"
    by code_simp
  then obtain c ds ids where c: "compile_config ''/h'' ''/p'' shipped_blueprint None [] demo_prompts = Inr (c, ds, ids)"
      "take 1 (repos c) = [?first]"
    by (auto split: sum.splits)
  then obtain rs where rs: "repos c = ?first # rs" by (cases "repos c") auto
  have facts: "r_rdir ?first = Some ''/soc''" "repo_name ?first soc_host = (Inr ''openPCIE'', soc_host)"
      "isdir soc_host ''/soc''" "\<not> path_exists soc_host (path_join ''/soc'' ''openPCIE'')"
      "shell_of (demo_machine\<lparr>shell_of := answering offline\<rparr>) (log soc_host)
         (clone_cmd ?first (path_join ''/soc'' ''openPCIE'')) None (fs soc_host) = Some (128, [], fs soc_host)"
  proof -
    show "r_rdir ?first = Some ''/soc''" by simp
    have "truthy (r_dir ?first) = False" "basename ''chili-chips-ba/openPCIE'' = ''openPCIE''" by code_simp+
    then show "repo_name ?first soc_host = (Inr ''openPCIE'', soc_host)" by (simp add: repo_name_def prog_simps)
    show "isdir soc_host ''/soc''" by code_simp
    show "\<not> path_exists soc_host (path_join ''/soc'' ''openPCIE'')" by code_simp
  qed (simp add: answering_def offline_def)
  have "\<not> repo_is_bound None []" by (simp add: repo_is_bound_def)
  with failed_first_clone [OF c(1) rs facts] show ?thesis by (simp add: c(1))
qed

section \<open>Resetting the workspace\<close>

lemma parse_remove_all:
  "parse_options (setup_options uninstall (Some c)) [] False [''--remove'', ''all''] = Inr [(''--remove'', Some ''all'')]"
proof -
  have opt: "is_option ''--remove''" "\<not> is_option ''all''" by code_simp+
  have names: "resolve (''--help'' # map fst (setup_options uninstall (Some c))) ''--remove'' = Known ''--remove'' None"
  proof -
    have "split_value ''--remove'' = (''--remove'', None)" by code_simp
    then show ?thesis by (simp add: resolve_def setup_options_def)
  qed
  have "map_of (setup_options uninstall (Some c)) ''--remove'' =
      Some (Some (''all'' # sort (meta_repos c @ selected_repos c @ selected_scopes c)))"
    by (simp add: setup_options_def)
  then show ?thesis using opt names by simp
qed

lemma seqE_returned:
  assumes "seqE m n w = (Inr x, w')"
  obtains v where "n v = (Inr x, w')"
  using assms by (auto simp: seqE_def bindE_def split: prod.splits sum.splits)

lemma config_gone:
  assumes "remove_components d g sh ''all'' bp c w = (Inr (), w')"
  shows "isdir w' config_file \<or> \<not> path_exists w' config_file"
proof -
  let ?unlink = "bindE (getE (\<lambda>w. islink w config_file \<or> path_exists w config_file)) (\<lambda>there.
      whenE there (tryE (os_remove config_file) is_Exception (\<lambda>_. ret ())))"
  let ?plan = "removal_plan ''all'' bp c"
  have "leaves (\<lambda>w. isdir w config_file \<or> \<not> path_exists w config_file) ?unlink"
  proof (rule leavesI)
    fix v :: world
    show "isdir (snd (?unlink v)) config_file \<or> \<not> path_exists (snd (?unlink v)) config_file"
    proof (cases "fs v (at v config_file)")
      case None
      then show ?thesis by (simp add: prog_simps islink_def path_exists_def stat_plain)
    next
      case (Some n)
      then have there: "islink v config_file \<or> path_exists v config_file"
        by (cases n) (simp_all add: islink_def path_exists_def stat_plain)
      show ?thesis
      proof (cases "n = Dir")
        case True
        then have "os_remove config_file v = (Inl IsADirectoryError, v)" using Some by (simp add: os_remove_def)
        then show ?thesis using Some True there by (simp add: prog_simps is_Exception_def isdir_def stat_plain)
      next
        case False
        then have "os_remove config_file v = (Inr (), upd config_file None v)"
          using Some by (cases n) (simp_all add: os_remove_def)
        then show ?thesis using there by (simp add: prog_simps path_exists_def stat_plain)
      qed
    qed
  qed
  then have gone: "leaves (\<lambda>w. isdir w config_file \<or> \<not> path_exists w config_file) (seqE ?unlink (seqE (say ''removed from host system'') (ret ())))"
    by (rule leaves_then) (auto simp: keeps_def say_def prog_simps isdir_def path_exists_def cong: stat_cong)
  obtain v where v: "seqE ?unlink (seqE (say ''removed from host system'') (ret ())) v = (Inr (), w')"
    using assms unfolding remove_components_def Let_def seqs.simps if_P [OF refl]
    by (rule seqE_returned) (erule seqE_returned, erule seqE_returned, erule that)
  from leavesD [OF gone, of v] show ?thesis unfolding v snd_conv .
qed


definition empty_config :: config where
  "empty_config =
     \<lparr>clone_tools_directory = ''/t'', clone_os_directory = ''/o'', clone_soc_directory = ''/s'', meta_repos = [],
      selected_repos = [], selected_scopes = [], packages = [], repos = []\<rparr>"

definition saved_host :: world where
  "saved_host =
     \<lparr>fs = [''/p'' \<mapsto> Dir, ''/p/.configs.json'' \<mapsto> File ''{}'', ''/p/prerequisites_config.json'' \<mapsto> File ''{}''],
      cwd = ''/p'', env = Map.empty, log = []\<rparr>"


end
