(* ===== verification/Bootstrap.thy ===== *)
theory Bootstrap
  imports Setup_Main
begin

text \<open>
  How the two scripts get at the package they need from outside the standard library: \<open>pexpect\<close> for the agent
  (\<open>run_pcie_agent.py\<close>, lines 28 to 57) and \<open>InquirerPy\<close> for the setup (\<open>workspace_setup.py\<close>, lines 73 to 89). Where
  the import fails, a script installs the package and replaces itself by a new run of itself.
\<close>

section \<open>The import guard\<close>

text \<open>
  What the interpreter answers, given the file system: whether the import succeeds, and whether
  \<open>importlib.metadata\<close> knows the package.
\<close>

record python =
  importable :: "filesystem \<Rightarrow> bool"
  listed :: "filesystem \<Rightarrow> bool"

text \<open>The guard lets the script go on, or \<open>os.execv\<close> starts it anew.\<close>

datatype boot = Imported | Restarted

type_synonym installer = "shell \<Rightarrow> string list \<Rightarrow> (world, bool) prog"

definition bootstrap :: "installer \<Rightarrow> python \<Rightarrow> shell \<Rightarrow> string \<Rightarrow> (world, boot) prog" where
  "bootstrap install py sh package =
     bindE (getE (\<lambda>w. importable py (fs w))) (\<lambda>found.
       if found then ret Imported
       else bindE (getE (\<lambda>w. listed py (fs w))) (\<lambda>known.
         if known then ret Restarted
         else bindE (install sh [package]) (\<lambda>ok.
           if ok then seqE (say (package @ '' installed.'')) (ret Restarted)
           else seqE (say (''Please execute manually: sudo apt install '' @ package)) (raise (SystemExit 1)))))"

text \<open>The runs of a script up to the one that passes its guard or leaves; without end, there is none.\<close>

partial_function (option) start_up :: "(world, boot) prog \<Rightarrow> world \<Rightarrow> ((exn + unit) \<times> world) option" where
  "start_up guard w =
     (case guard w of
        (Inl e, w') \<Rightarrow> Some (Inl e, w')
      | (Inr Imported, w') \<Rightarrow> Some (Inr (), w')
      | (Inr Restarted, w') \<Rightarrow> start_up guard w')"

text \<open>A guard that restarts and leaves everything as it was never gets through.\<close>

lemma start_up_loop:
  assumes "guard w = (Inr Restarted, w)"
  shows "start_up guard w = None"
proof (rule ccontr)
  assume "start_up guard w \<noteq> None"
  then obtain r where ret: "start_up guard w = Some r" by blast
  have "guard w \<noteq> (Inr Restarted, w)"
  proof (rule start_up.raw_induct [where P = "\<lambda>g v r. g v \<noteq> (Inr Restarted, v)", OF _ ret])
    fix f :: "(world, boot) prog \<Rightarrow> world \<Rightarrow> ((exn + unit) \<times> world) option" and g v r
    assume "\<And>g v r. f g v = Some r \<Longrightarrow> g v \<noteq> (Inr Restarted, v)"
      and "(case g v of
           (Inl e, w') \<Rightarrow> Some (Inl e, w')
         | (Inr Imported, w') \<Rightarrow> Some (Inr (), w')
         | (Inr Restarted, w') \<Rightarrow> f g w') = Some r"
    then show "g v \<noteq> (Inr Restarted, v)" by fastforce
  qed
  with assms show False by blast
qed

section \<open>The two scripts\<close>

text \<open>The agent has an \<open>install_system_packages\<close> of its own.\<close>

definition agent_install :: installer where
  "agent_install sh package_list =
     (if package_list = [] then ret True
      else tryE
        (seqE (seqs [run_check sh update_cmd None, run_check sh (apt_install_cmd package_list) None]) (ret True))
        (\<lambda>e. e = CalledProcessError)
        (\<lambda>_. bindE (say ''Native package manager reported a failure'') (\<lambda>_. ret False)))"

definition agent_start_up :: "python \<Rightarrow> shell \<Rightarrow> world \<Rightarrow> ((exn + unit) \<times> world) option" where
  "agent_start_up py sh = start_up (bootstrap agent_install py sh ''python3-pexpect'')"

definition setup_start_up :: "python \<Rightarrow> shell \<Rightarrow> world \<Rightarrow> ((exn + unit) \<times> world) option" where
  "setup_start_up py sh = start_up (bootstrap install_system_packages py sh ''python3-inquirerpy'')"

section \<open>What an installer promises\<close>

text \<open>What the package manager is relied on for: a package that it has installed can be imported.\<close>

definition provides :: "shell \<Rightarrow> string \<Rightarrow> python \<Rightarrow> bool" where
  "provides sh package py \<longleftrightarrow>
     (\<forall>l f out f'. sh l (apt_install_cmd [package]) None f = Some (0, out, f') \<longrightarrow> importable py f')"

text \<open>
  It says yes only when the package manager has installed the packages, as its last act, and raises nothing but for a
  missing program.
\<close>

locale package_installer =
  fixes install :: installer
  assumes raises: "install sh pkgs w = (Inl e, w') \<Longrightarrow> e = FileNotFoundError"
    and installed: "install sh pkgs w = (Inr True, w') \<Longrightarrow> pkgs \<noteq> [] \<Longrightarrow>
      \<exists>l f out. sh l (apt_install_cmd pkgs) None f = Some (0, out, fs w')"
begin

text \<open>A package that is known but cannot be imported: the script restarts itself without end.\<close>

lemma restarts:
  assumes "listed py (fs w)" and "\<not> importable py (fs w)"
  shows "start_up (bootstrap install py sh package) w = None"
  using assms by (intro start_up_loop) (simp add: bootstrap_def prog_simps)

text \<open>One run of the guard, when the package is not known.\<close>

lemma one_install:
  assumes "\<not> importable py (fs w)" and "\<not> listed py (fs w)"
    and "provides sh package py"
  shows "\<exists>r w'. bootstrap install py sh package w = (r, w') \<and>
    (r = Inr Restarted \<and> importable py (fs w') \<or> r = Inl (SystemExit 1) \<or> r = Inl FileNotFoundError)"
proof -
  obtain r w1 where run: "install sh [package] w = (r, w1)" by (cases "install sh [package] w")
  show ?thesis
  proof (cases r)
    case (Inl e)
    then show ?thesis using assms(1,2) run raises by (simp add: bootstrap_def prog_simps)
  next
    case (Inr ok)
    then show ?thesis
      using assms run installed [of sh "[package]" w w1]
      by (cases ok) (auto simp: bootstrap_def prog_simps say_def provides_def)
  qed
qed

lemma settles:
  assumes "provides sh package py"
  shows "case start_up (bootstrap install py sh package) w of
      None \<Rightarrow> listed py (fs w) \<and> \<not> importable py (fs w)
    | Some (r, w') \<Rightarrow>
        (listed py (fs w) \<longrightarrow> importable py (fs w)) \<and>
        (importable py (fs w) \<longrightarrow> r = Inr () \<and> w' = w) \<and>
        (r = Inr () \<and> importable py (fs w') \<or> r = Inl (SystemExit 1) \<or> r = Inl FileNotFoundError)"
proof -
  have through: "start_up (bootstrap install py sh package) v = Some (Inr (), v)" if "importable py (fs v)" for v
    using that by (subst start_up.simps) (simp add: bootstrap_def prog_simps)
  consider "importable py (fs w)" | "listed py (fs w)" "\<not> importable py (fs w)"
    | "\<not> listed py (fs w)" "\<not> importable py (fs w)" by blast
  then show ?thesis
  proof cases
    case 1
    then show ?thesis by (simp add: through)
  next
    case 2
    then show ?thesis by (simp add: restarts)
  next
    case 3
    then obtain r w' where one: "bootstrap install py sh package w = (r, w')"
      "r = Inr Restarted \<and> importable py (fs w') \<or> r = Inl (SystemExit 1) \<or> r = Inl FileNotFoundError"
      using one_install [OF _ _ assms] by blast
    then show ?thesis
      using 3 through [of w'] by (subst start_up.simps) auto
  qed
qed

end

lemma checked_run:
  assumes "run_check sh argv dir w = (Inr x, w')"
  shows "\<exists>out. sh (log w) argv dir (fs w) = Some (0, out, fs w')"
  using assms by (auto simp: run_check_def run_def prog_simps Let_def split: option.splits prod.splits if_splits)

text \<open>What both installers do between the test of the list and the handler.\<close>

lemma install_steps:
  assumes "seqE (seqs [run_check sh update_cmd None, run_check sh (apt_install_cmd pkgs) None]) (ret True) w = (r, w')"
  shows "(\<exists>e. r = Inl e \<and> run_error e) \<or> r = Inr True \<and> (\<exists>l f out. sh l (apt_install_cmd pkgs) None f = Some (0, out, fs w'))"
proof (cases r)
  case (Inl e)
  have "throws run_error (seqE (seqs [run_check sh update_cmd None, run_check sh (apt_install_cmd pkgs) None]) (ret True))"
    by (simp add: raising)
  then show ?thesis using Inl assms by (auto dest: throwsD)
next
  case (Inr b)
  obtain w1 where "run_check sh (apt_install_cmd pkgs) None w1 = (Inr (), w')" "b"
    using assms Inr by (auto simp: seqE_def bindE_def ret_def split: prod.splits sum.splits)
  then show ?thesis using Inr checked_run by blast
qed

interpretation setup_apt: package_installer install_system_packages
proof
  fix sh pkgs w e w'
  assume "install_system_packages sh pkgs w = (Inl e, w')"
  then show "e = FileNotFoundError"
    using install_steps [of sh pkgs w]
    by (auto simp: install_system_packages_def tryE_def run_error_def say_def bindE_def ret_def modE_def
        split: if_splits prod.splits sum.splits)
next
  fix sh pkgs w w'
  assume "install_system_packages sh pkgs w = (Inr True, w')" and "pkgs \<noteq> []"
  then show "\<exists>l f out. sh l (apt_install_cmd pkgs) None f = Some (0, out, fs w')"
    using install_steps [of sh pkgs w]
    by (auto simp: install_system_packages_def tryE_def run_error_def say_def bindE_def ret_def modE_def
        split: if_splits prod.splits sum.splits)
qed

interpretation agent_apt: package_installer agent_install
proof
  fix sh pkgs w e w'
  assume "agent_install sh pkgs w = (Inl e, w')"
  then show "e = FileNotFoundError"
    using install_steps [of sh pkgs w]
    by (auto simp: agent_install_def tryE_def run_error_def say_def bindE_def ret_def modE_def
        split: if_splits prod.splits sum.splits)
next
  fix sh pkgs w w'
  assume "agent_install sh pkgs w = (Inr True, w')" and "pkgs \<noteq> []"
  then show "\<exists>l f out. sh l (apt_install_cmd pkgs) None f = Some (0, out, fs w')"
    using install_steps [of sh pkgs w]
    by (auto simp: agent_install_def tryE_def run_error_def say_def bindE_def ret_def modE_def
        split: if_splits prod.splits sum.splits)
qed

section \<open>Whether the scripts start\<close>


text \<open>A machine on which the package manager works and writes the package to its place.\<close>

definition pexpect_file :: path where
  "pexpect_file = ''/usr/lib/python3/dist-packages/pexpect''"

definition apt_works :: shell where
  "apt_works l argv dir f = Some (0, [], if argv = apt_install_cmd [''python3-pexpect''] then f(pexpect_file \<mapsto> Dir) else f)"

definition dist_packages :: python where
  "dist_packages = \<lparr>importable = (\<lambda>f. f pexpect_file \<noteq> None), listed = (\<lambda>f. f pexpect_file \<noteq> None)\<rparr>"

lemma apt_provides: "provides apt_works ''python3-pexpect'' dist_packages"
  by (simp add: provides_def apt_works_def dist_packages_def)


text \<open>A package whose files are broken: its metadata is there.\<close>

lemma broken_package_loops:
  "agent_start_up \<lparr>importable = (\<lambda>_. False), listed = (\<lambda>f. f pexpect_file \<noteq> None)\<rparr> sh
     (bare_host\<lparr>fs := [pexpect_file \<mapsto> Dir]\<rparr>) = None"
  unfolding agent_start_up_def by (rule agent_apt.restarts) simp_all

end
