(* ===== verification/Spec2Isabelle.thy ===== *)
theory Spec2Isabelle
  imports Sniffer_Main Os_Images Agent_Threads Bootstrap
begin

text \<open>
  This development models the Python programs of a PCIe co-simulation framework and proves what makes them correct.
  The framework runs a virtual machine in QEMU against a simulated PCIe device; the two are joined by a bridge over a
  Unix socket. The Python programs prepare the workspace, fetch the guest images, run the guest and its tests, and
  record the traffic on the socket.

  \<^bold>\<open>The programs and how they interact.\<close>
  \<^item> \<open>workspace_setup.py\<close> reads a blueprint of packages, repositories and scopes, asks for a selection, compiles the
    configuration \<open>.configs.json\<close>, installs packages, clones, aligns and builds repositories, and gives the user the
    rights the sniffer needs.
  \<^item> \<open>download_os_images.py\<close> downloads the disks and kernels of a distribution and links them under generic names;
    \<open>update_links_only.py\<close> only sets the links.
  \<^item> \<open>run_pcie_agent.py\<close> reads the configuration, starts the bridge, the sniffer and QEMU with the images, logs into the
    guest, runs four tests and tears everything down. A second thread copies the output of the bridge to its log, in
    which the first one looks for the message that the bridge is ready.
  \<^item> \<open>tools/net/sockdump.py\<close>, started by the agent through sudo, loads a BPF program that captures what is sent over the
    socket, and writes it as a capture file or as text.

  \<^bold>\<open>Theories and sources.\<close> Definitions have the names of the functions they model.
  \<^item> Shared: \<^theory_text>\<open>Prelude\<close> (programs as functions from a state to an exception or a value and a new state, Python's
    strings and numbers), \<^theory_text>\<open>Host\<close> (files, links, working directory, environment, started commands),
    \<^theory_text>\<open>Byte_Codec\<close> (byte layouts), \<^theory_text>\<open>Arg_Parse\<close> (argparse).
  \<^item> \<open>tools/net/sockdump.py\<close>: \<^theory_text>\<open>Sock_Filter\<close> (\<open>build_filter\<close> and the address match of the probe),
    \<^theory_text>\<open>Sniffer_Text\<close> (the text of the BPF program and \<open>render_text\<close>), \<^theory_text>\<open>Packet_Capture\<close> (the probe, \<open>parse_event\<close>,
    the capture format), \<^theory_text>\<open>Pcap_File\<close> (a reader of capture files), \<^theory_text>\<open>Packet_Dump\<close> (hex formats),
    \<^theory_text>\<open>Sniffer_Main\<close> (options, page count, \<open>main\<close>, the signal handler).
  \<^item> \<open>download_os_images.py\<close> and \<open>update_links_only.py\<close>: \<^theory_text>\<open>Os_Images\<close>.
  \<^item> \<open>run_pcie_agent.py\<close>: \<^theory_text>\<open>Agent_Logs\<close> (paths, log rotation), \<^theory_text>\<open>Agent_World\<close> (processes, terminal, the
    operations whose answers are a parameter), \<^theory_text>\<open>Guest_Tests\<close> (login and tests), \<^theory_text>\<open>Agent_Sniffer\<close>,
    \<^theory_text>\<open>Agent_Main\<close>, \<^theory_text>\<open>Utf8\<close> and \<^theory_text>\<open>Agent_Drain\<close> (the line drainer),
    \<^theory_text>\<open>Agent_Threads\<close> (its interleaving with \<open>main\<close>).
  \<^item> \<open>workspace_setup.py\<close>: \<^theory_text>\<open>Setup_Config\<close>, \<^theory_text>\<open>Setup_Versions\<close>, \<^theory_text>\<open>Setup_Git\<close>, \<^theory_text>\<open>Setup_Build\<close>, \<^theory_text>\<open>Setup_Remove\<close>,
    \<^theory_text>\<open>Setup_Headers\<close>, \<^theory_text>\<open>Setup_Access\<close>, \<^theory_text>\<open>Setup_Main\<close>.
  \<^item> \<^theory_text>\<open>Bootstrap\<close>: the import guards at the top of the agent and the setup.
  \<^item> This theory: properties that join programs, namely the downloader with the agent, the setup with the agent, and the
    agent with the sniffer.

  \<^bold>\<open>State.\<close> A script's state is a record: \<open>world\<close> for the host, \<open>agent\<close> for the host with the processes that run,
  the logs that are open and the operations done so far, \<open>dump\<close> and \<open>sniffer_state\<close> for the sniffer, \<open>shared\<close> for what
  the agent's threads share. An exception is a value \<open>Inl e\<close> with the state in which it was raised, so effects made before
  it stay. What is not part of the repository is a parameter: \<open>shell\<close> answers commands, \<open>env\<close> answers the operations
  on processes and on the guest's terminal, given all that went before, \<open>bcc\<close> is the BPF library and the kernel, \<open>python\<close>
  says what can be imported. Where a property relies on one of them, the hypothesis has a name and a witness.

  \<^bold>\<open>Interfaces.\<close> \<^theory_text>\<open>codec\<close> (an encoding that can be read off the front of a stream), \<^theory_text>\<open>link_refresher\<close> (a step that
  refreshes one link), \<^theory_text>\<open>expect_script\<close> (a dialogue over pexpect), \<^theory_text>\<open>ensure\<close> (a step that is done once and then
  changes nothing) and \<^theory_text>\<open>package_installer\<close> (a function that installs packages) are locales, each interpreted on the
  definitions of the program.

  \<^bold>\<open>What is proved.\<close>
  \<^item> Sniffer: which sockets a path selects; the rendered program is the text with all names filled in at once; a capture
    file reads back as the payloads captured, from the probe to the file and from the agent's command to the file; the
    page count is the least power of two that is enough.
  \<^item> Downloader: when it returns, every selected asset is there and its generic link leads to it, and the agent finds
    the disk it asks for; the working directory is restored.
  \<^item> Agent: log rotation is that of the abstract history; each test passes exactly when its dialogue is answered; the
    login ends at the root prompt of the distribution; whatever happens, the guarded part ends with the guest and the
    bridge gone and the log closed; stopping the sniffer leaves nothing behind; in every interleaving the log holds the
    output of the bridge in order, and the drainer ends.
  \<^item> Setup: a compiled configuration is well-formed, keeps earlier selections, loads back and is stable; the sudo rules
    cover what the agent runs; rejected rules are not installed; repositories are aligned with local changes kept; missing
    packages are installed with one command; removal removes.

  \<^bold>\<open>Bounds.\<close> The handshake with the bridge is thirty looks of half a second, as in the code (15 seconds); the wait for
  the sniffer is forty looks of a tenth (4 seconds). Symbolic links are followed at most forty times, as Linux does. The
  restarts of the import guard are a partial function, whose value \<open>None\<close> is a start without end. Everything else
  terminates by its structure or by a measure.

  \<^bold>\<open>Not modelled.\<close> The C++ bridge and simulation, the hardware description and the Lua dissector (other languages); the
  contents of what is printed beyond the events the properties are about, and characters outside ASCII, but for the
  line drainer; time; file
  permissions; links in the middle of a path; \<open>--\<close> on the command line; the rounding of \<open>math.log\<close> in the page count;
  a signal that arrives while the sniffer handles an event; the kernel side of the perf buffer.
\<close>

section \<open>From the downloader to the agent\<close>

text \<open>A distribution on the command line, without a filter: all its assets are in the pool.\<close>

lemma parse_one: "d \<in> {''ubuntu'', ''fedora'', ''cirros''} \<Longrightarrow>
    Os_Images.parse_arguments [d] = Inr \<lparr>dist = d, assets = []\<rparr>"
  by (elim insertE emptyE) (simp_all, code_simp+)

lemma disk_in_pool:
  assumes "d \<in> {''ubuntu'', ''fedora'', ''cirros''}"
  shows "\<exists>a. (''disk'', a) \<in> set (selection_pool \<lparr>dist = d, assets = []\<rparr>) \<and> generic_link a = ''disk.'' @ d"
proof -
  have "list_ex (\<lambda>x. fst x = ''disk'' \<and> generic_link (snd x) = ''disk.'' @ d) (selection_pool \<lparr>dist = d, assets = []\<rparr>)"
    using assms by (elim insertE emptyE) (simp_all only:, code_simp+)
  then show ?thesis by (auto simp: list_ex_iff)
qed

lemma boot_setup_disk:
  assumes "d \<in> {''ubuntu'', ''fedora'', ''cirros''}"
  shows "\<exists>base app. boot_setup d dir k w = Some (path_join dir (''disk.'' @ d), base, app)"
  using assms by (elim insertE emptyE) (simp_all add: boot_setup_def Let_def)

text \<open>
  C2. What the downloader promises is what the agent asks for: after a run of the downloader for a whole
  distribution that returns, into the image directory, the agent composes the command of QEMU for that
  distribution, whichever kernel it uses; it does not leave for a missing disk.
\<close>

theorem downloaded_images_boot:
  assumes "d \<in> {''ubuntu'', ''fedora'', ''cirros''}"
    and "prefix ''/'' dir" and "\<not> suffix ''/'' dir" and "fs w dir = Some Dir"
    and "list_all (\<lambda>x. case fs w (path_join dir (unique_name (snd x))) of
        None \<Rightarrow> True | Some (File _) \<Rightarrow> True | _ \<Rightarrow> False) (dist_manifest d)"
    and "images_main net dir [d] w = (Inr (), w')"
  shows "\<exists>cmd. setup_qemu_args d dir k w' = Inr [cmd]"
proof -
  let ?args = "\<lparr>dist = d, assets = []\<rparr>"
  obtain a where a: "(''disk'', a) \<in> set (selection_pool ?args)" "generic_link a = ''disk.'' @ d"
    using disk_in_pool [OF assms(1)] by blast
  have "stat (snd (images_main net dir [d] w)) (path_join dir (generic_link a)) \<noteq> None"
    using images_main_resolves(2) [OF parse_one [OF assms(1)] assms(2-4) _ a(1), of net] assms(5,6) by simp
  then have "path_exists w' (path_join dir (''disk.'' @ d))"
    using assms(6) a(2) by (simp add: path_exists_def)
  then show ?thesis
    using boot_setup_disk [OF assms(1), of dir k w'] by (auto simp: setup_qemu_args_def)
qed

theorem downloaded_images_boot_witness:
  "\<exists>cmd. setup_qemu_args ''fedora'' ''/img'' ''/k''
     (snd (images_main (\<lambda>_. Complete ''x'') ''/img'' [''fedora''] (image_host []))) = Inr [cmd]"
proof -
  have run: "images_main (\<lambda>_. Complete ''x'') ''/img'' [''fedora''] (image_host []) =
      (Inr (), snd (images_main (\<lambda>_. Complete ''x'') ''/img'' [''fedora''] (image_host [])))"
  proof -
    have "fst (images_main (\<lambda>_. Complete ''x'') ''/img'' [''fedora''] (image_host [])) = Inr ()"
      by code_simp
    then show ?thesis by (simp add: prod_eq_iff)
  qed
  have facts: "prefix ''/'' ''/img''" "\<not> suffix ''/'' ''/img''" "fs (image_host []) ''/img'' = Some Dir"
      "list_all (\<lambda>x. case fs (image_host []) (path_join ''/img'' (unique_name (snd x))) of
        None \<Rightarrow> True | Some (File _) \<Rightarrow> True | _ \<Rightarrow> False) (dist_manifest ''fedora'')"
    by code_simp+
  have "''fedora'' \<in> {''ubuntu'', ''fedora'', ''cirros''}" by simp
  from downloaded_images_boot [OF this facts run] show ?thesis by simp
qed

section \<open>From the setup to the agent: the configuration\<close>

text \<open>
  C9. After a first setup has saved its configuration, the agent loads the scopes from it, and its
  options are those of the scopes selected in the menu: \<open>--sniffer\<close> exists exactly when networking is among them, and
  \<open>--debug\<close> when debugging is.
\<close>

theorem setup_configures_agent:
  assumes "compile_and_save m js u bp None selections w = (Inr (c, ds, ids), w')"
    and "decode (dumps js c) = Some (Some (selected_scopes c))"
    and "\<And>r. r \<in> set (concat (map scope_repos selections)) \<Longrightarrow> r_id r \<noteq> Some ''networking'' \<and> r_id r \<noteq> Some ''debug''"
  shows "\<exists>config_scopes. Agent_Main.load_json decode ''.configs.json'' w' = (Inr (Some config_scopes), w') \<and>
    (case Agent_Main.parse_arguments (''debug'' \<in> set config_scopes) (''networking'' \<in> set config_scopes) argv of
       Inr ns \<Rightarrow> (sniffer ns \<noteq> None \<longleftrightarrow> ''networking'' \<in> scope_id ` set selections) \<and>
                 (debug ns \<noteq> None \<longleftrightarrow> ''debug'' \<in> scope_id ` set selections)
     | Inl e \<Rightarrow> e = SystemExit 0 \<or> e = SystemExit 2)"
proof -
  have load: "Agent_Main.load_json decode ''.configs.json'' w' = (Inr (Some (selected_scopes c)), w')"
    using written_reads [OF saved(2) [OF assms(1)]] assms(2) by (simp add: Agent_Main.load_json_def prog_simps config_file_def)
  have kept: "i \<in> set (selected_scopes c) \<longleftrightarrow> i \<in> scope_id ` set selections"
    if i: "i = ''networking'' \<or> i = ''debug''" for i
  proof (rule compile_config_run [OF saved(1) [OF assms(1)]], goal_cases)
    case (1 scope_ids es chosen rs)
    note run = this
    have none: "None \<notin> set (map r_id chosen)"
    proof -
      have "\<exists>left. remove_ids (map r_id chosen) (map scope_id selections) = Inr left" using run(2) by blast
      then show ?thesis unfolding remove_ids_ok by blast
    qed
    have "i \<notin> set (map the (map r_id chosen))"
    proof
      assume "i \<in> set (map the (map r_id chosen))"
      then obtain r where r: "r \<in> set chosen" "i = the (r_id r)" by auto
      then have "r_id r = Some i" using none by (cases "r_id r") force+
      then show False using assms(3) r(1) run(1) i by auto
    qed
    then have "count (mset scope_ids) i = count (mset (map scope_id selections)) i"
      using remove_ids_left [OF run(2)] by (metis add.right_neutral count_mset_0_iff count_union)
    then have "i \<in> set scope_ids \<longleftrightarrow> i \<in> set (map scope_id selections)"
      by (metis count_mset_0_iff)
    then show ?case using run(7) by (simp add: previous_scope_ids_def)
  qed
  show ?thesis
    using load parse_arguments_attributes [of "''debug'' \<in> set (selected_scopes c)" "''networking'' \<in> set (selected_scopes c)" argv]
    unfolding kept [of "''networking''", simplified] kept [of "''debug''", simplified]
    by (intro exI [of _ "selected_scopes c"]) (auto simp: kept split: sum.splits)
qed

theorem setup_configures_agent_witness:
  "\<exists>w'. Agent_Main.load_json (\<lambda>_. Some (Some [''networking''])) ''.configs.json'' w' = (Inr (Some [''networking'']), w') \<and>
     (case Agent_Main.parse_arguments False True [''--sniffer''] of
        Inr ns \<Rightarrow> sniffer ns \<noteq> None \<and> debug ns = None | Inl e \<Rightarrow> False)"
proof -
  obtain ds ids w' where w': "compile_and_save demo_machine demo_json demo_user shipped_blueprint None
      [linux_scope, networking_scope] project_host = (Inr (demo_config, ds, ids), w')"
    by (rule demo_saved)
  have sc: "selected_scopes demo_config = [''networking'']" by code_simp
  have "r_id r \<noteq> Some ''networking'' \<and> r_id r \<noteq> Some ''debug''"
    if "r \<in> set (concat (map scope_repos [linux_scope, networking_scope]))" for r
    using that by (auto simp: linux_scope_def networking_scope_def linux_repo_def)
  moreover have "(\<lambda>_. Some (Some [''networking''])) (dumps demo_json demo_config) = Some (Some (selected_scopes demo_config))"
    by (simp add: sc)
  ultimately obtain cs where cs:
      "Agent_Main.load_json (\<lambda>_. Some (Some [''networking''])) ''.configs.json'' w' = (Inr (Some cs), w')"
      "case Agent_Main.parse_arguments (''debug'' \<in> set cs) (''networking'' \<in> set cs) [''--sniffer''] of
         Inr ns \<Rightarrow> (sniffer ns \<noteq> None \<longleftrightarrow> ''networking'' \<in> scope_id ` set [linux_scope, networking_scope]) \<and>
                 (debug ns \<noteq> None \<longleftrightarrow> ''debug'' \<in> scope_id ` set [linux_scope, networking_scope])
       | Inl e \<Rightarrow> e = SystemExit 0 \<or> e = SystemExit 2"
    using setup_configures_agent [OF w', of "\<lambda>_. Some (Some [''networking''])" "[''--sniffer'']"] by blast
  have "cs = [''networking'']"
    using cs(1) by (auto simp: Agent_Main.load_json_def prog_simps read_text_def split: if_splits option.splits node.splits)
  moreover have "(case Agent_Main.parse_arguments False True [''--sniffer''] of Inr _ \<Rightarrow> True | Inl _ \<Rightarrow> False)" by code_simp
  ultimately show ?thesis
    using cs by (auto simp: networking_scope_def linux_scope_def split: sum.splits intro!: exI [of _ w'])
qed

section \<open>From the setup to the agent: the sudo rules\<close>

text \<open>
  The patterns of the arguments in a rule: a backslash takes the next character literally, and a star stands for
  any text, as the manual of sudoers says. The other characters with a meaning there match nothing here.
\<close>

definition sudoers_special :: string where
  "sudoers_special = ''?[],:=#!''"

fun pattern_matches :: "string \<Rightarrow> string \<Rightarrow> bool" where
  "pattern_matches [] args = (args = [])"
| "pattern_matches (c # cs) args =
     (if c = CHR ''*'' then list_ex (\<lambda>k. pattern_matches cs (drop k args)) [0..<Suc (length args)]
      else if c = CHR 0x5C then
        (case (cs, args) of (d # ds, a # as) \<Rightarrow> a = d \<and> pattern_matches ds as | _ \<Rightarrow> False)
      else (case args of a # as \<Rightarrow> c \<notin> set sudoers_special \<and> a = c \<and> pattern_matches cs as | [] \<Rightarrow> False))"

text \<open>
  What is relied on of sudo: \<open>allowed text user cmd args\<close>, whether the rules in \<open>text\<close> let the user run a command
  without a password, holds when a line of the form the setup writes names the command and its pattern matches.
\<close>

definition sudo_like :: "(string \<Rightarrow> string \<Rightarrow> path \<Rightarrow> string \<Rightarrow> bool) \<Rightarrow> bool" where
  "sudo_like allowed \<longleftrightarrow>
     (\<forall>rules user cmd pat args.
        user @ '' ALL=(ALL) NOPASSWD: '' @ cmd @ '' '' @ pat \<in> set (split_on (CHR 0x0A) rules) \<and>
        pattern_matches pat args \<longrightarrow> allowed rules user cmd args)"

text \<open>
  The commands the agent runs through sudo, with the programs where they are found on the search path of sudo:
  program and arguments. Other operations need no rule.
\<close>

definition as_root :: "op \<Rightarrow> (string \<times> string) option" where
  "as_root c =
     (let program = (\<lambda>cmd.
            let rest = (if prefix ''sudo -n '' cmd then Some (drop 8 cmd)
                        else if prefix ''sudo '' cmd then Some (drop 5 cmd) else None)
            in map_option (\<lambda>r. (''/usr/bin/'' @ takeWhile (\<lambda>x. x \<noteq> CHR '' '') r, tl (dropWhile (\<lambda>x. x \<noteq> CHR '' '') r))) rest)
      in case c of Spawn _ cmd \<Rightarrow> program cmd | Run_Command cmd \<Rightarrow> program cmd | _ \<Rightarrow> None)"

definition granted :: "(string \<Rightarrow> string \<Rightarrow> path \<Rightarrow> string \<Rightarrow> bool) \<Rightarrow> string \<Rightarrow> string \<Rightarrow> op \<Rightarrow> bool" where
  "granted allowed rules user c = (case as_root c of None \<Rightarrow> True | Some (cmd, args) \<Rightarrow> allowed rules user cmd args)"

text \<open>A program that only performs operations with a property.\<close>

lemma keeps_ops_perform: "P c \<Longrightarrow> keeps (\<lambda>s. list_all P (ops s)) (perform ev c)"
  by (auto simp: keeps_def perform_def Let_def split: answer.splits)

lemma keeps_ops_basic:
  "keeps (\<lambda>s. list_all P (ops s)) (tell t)" "keeps (\<lambda>s. list_all P (ops s)) (gone p)"
  "keeps (\<lambda>s. list_all P (ops s)) (open_log f)" "keeps (\<lambda>s. list_all P (ops s)) (close_log f)"
  "keeps (\<lambda>s. list_all P (ops s)) (on_host m)" "keeps (\<lambda>s. list_all P (ops s)) (modE (\<lambda>s. s\<lparr>running := R s\<rparr>))"
  by (auto simp: keeps_def tell_def gone_def open_log_def close_log_def on_host_def prog_simps split: prod.splits)

definition plain :: "string \<Rightarrow> bool" where
  "plain s \<longleftrightarrow> list_all (\<lambda>c. c \<notin> set sudoers_special \<union> {CHR ''*'', CHR 0x5C, CHR 0x0A, CHR '' ''}) s"

lemma pattern_plain: "plain s \<Longrightarrow> pattern_matches pat args \<Longrightarrow> pattern_matches (s @ pat) (s @ args)"
  by (induction s) (simp_all add: plain_def)

lemma pattern_star: "pattern_matches ''*'' args"
  by (simp add: list_ex_iff)

text \<open>The three lines of the rules.\<close>

lemma split_three:
  "c \<notin> set x \<Longrightarrow> c \<notin> set y \<Longrightarrow> c \<notin> set z \<Longrightarrow> split_on c (x @ c # y @ c # z @ c # []) = [x, y, z, []]"
  by (simp add: split_on_app split_on_whole)

lemma rule_lines:
  assumes "plain u" and "plain project" and "u \<noteq> []"
  shows "set (split_on (CHR 0x0A) (exemption_rules (Some u) project)) \<supseteq>
    {u @ '' ALL=(ALL) NOPASSWD: '' @ ''/usr/bin/python3'' @ '' '' @ (project @ ''/tools/net/sockdump.py *''),
     u @ '' ALL=(ALL) NOPASSWD: '' @ ''/usr/bin/chown'' @ '' '' @ (u @ raw ''!:'' @ u @ '' '' @ project @ ''/logs/vfio-user.pcap''),
     u @ '' ALL=(ALL) NOPASSWD: '' @ ''/usr/bin/chmod'' @ '' '' @ (''664 '' @ project @ ''/logs/vfio-user.pcap'')}"
proof -
  have no: "CHR 0x0A \<notin> set u" "CHR 0x0A \<notin> set project" using assms by (auto simp: plain_def list_all_iff)
  let ?l1 = "u @ '' ALL=(ALL) NOPASSWD: /usr/bin/python3 '' @ project @ ''/tools/net/sockdump.py *''"
  let ?l2 = "u @ '' ALL=(ALL) NOPASSWD: /usr/bin/chown '' @ u @ raw ''!:'' @ u @ '' '' @ project @ ''/logs/vfio-user.pcap''"
  let ?l3 = "u @ '' ALL=(ALL) NOPASSWD: /usr/bin/chmod 664 '' @ project @ ''/logs/vfio-user.pcap''"
  have rules: "exemption_rules (Some u) project = ?l1 @ CHR 0x0A # ?l2 @ CHR 0x0A # ?l3 @ CHR 0x0A # []"
    by (simp add: exemption_rules_def show_str_def newline_def Let_def)
  have "CHR 0x0A \<notin> set ?l1" "CHR 0x0A \<notin> set ?l2" "CHR 0x0A \<notin> set ?l3"
    using no by (simp_all add: raw_def)
  from split_three [OF this] have "split_on (CHR 0x0A) (exemption_rules (Some u) project) = [?l1, ?l2, ?l3, []]"
    unfolding rules .
  then show ?thesis by simp
qed

lemma rules_grant:
  assumes "sudo_like allowed" and "plain u" and "plain project" and "u \<noteq> []"
  shows "allowed (exemption_rules (Some u) project) u ''/usr/bin/python3'' (project @ ''/tools/net/sockdump.py '' @ rest)"
    and "allowed (exemption_rules (Some u) project) u ''/usr/bin/chown'' (u @ '':'' @ u @ '' '' @ project @ ''/logs/vfio-user.pcap'')"
    and "allowed (exemption_rules (Some u) project) u ''/usr/bin/chmod'' (''664 '' @ project @ ''/logs/vfio-user.pcap'')"
proof -
  note law = assms(1) [unfolded sudo_like_def, rule_format, OF conjI] and lines = subsetD [OF rule_lines [OF assms(2-4)]]
  have 1: "pattern_matches (project @ ''/tools/net/sockdump.py *'') (project @ ''/tools/net/sockdump.py '' @ rest)"
    by (rule pattern_plain [OF assms(3)]) (simp add: sudoers_special_def list_ex_iff)
  have pcap: "pattern_matches ''/logs/vfio-user.pcap'' ''/logs/vfio-user.pcap''" by code_simp
  have 2: "pattern_matches (u @ raw ''!:'' @ u @ '' '' @ project @ ''/logs/vfio-user.pcap'')
      (u @ '':'' @ u @ '' '' @ project @ ''/logs/vfio-user.pcap'')"
    by (rule pattern_plain [OF assms(2)])
      (simp add: raw_def sudoers_special_def pattern_plain [OF assms(2)] pattern_plain [OF assms(3)] pcap del: pattern_matches.simps(2),
       simp add: sudoers_special_def pattern_plain [OF assms(2)] pattern_plain [OF assms(3)] pcap)
  have 3: "pattern_matches (''664 '' @ project @ ''/logs/vfio-user.pcap'') (''664 '' @ project @ ''/logs/vfio-user.pcap'')"
    using pattern_plain [OF assms(3) pcap] by (simp add: sudoers_special_def)
  show "allowed (exemption_rules (Some u) project) u ''/usr/bin/python3'' (project @ ''/tools/net/sockdump.py '' @ rest)"
    by (rule law [OF lines 1]) simp
  show "allowed (exemption_rules (Some u) project) u ''/usr/bin/chown'' (u @ '':'' @ u @ '' '' @ project @ ''/logs/vfio-user.pcap'')"
    by (rule law [OF lines 2]) simp
  show "allowed (exemption_rules (Some u) project) u ''/usr/bin/chmod'' (''664 '' @ project @ ''/logs/vfio-user.pcap'')"
    by (rule law [OF lines 3]) simp
qed

lemma project_paths:
  assumes "project \<noteq> []" and "\<not> suffix ''/'' project"
  shows "path_join (path_join (path_join project ''tools'') ''net'') ''sockdump.py'' = project @ ''/tools/net/sockdump.py''"
    and "path_join (path_join project ''logs'') ''vfio-user.pcap'' = project @ ''/logs/vfio-user.pcap''"
  using assms by (simp_all add: path_join_def suffix_def)

lemma granted_commands:
  assumes "sudo_like allowed" and "plain u" and "plain project" and "u \<noteq> []"
  shows "granted allowed (exemption_rules (Some u) project) u
      (Spawn p (sniffer_cmd (project @ ''/tools/net/sockdump.py'') out socket))"
    and "granted allowed (exemption_rules (Some u) project) u
      (Run_Command (''sudo chown '' @ u @ '':'' @ u @ '' '' @ project @ ''/logs/vfio-user.pcap''))"
    and "granted allowed (exemption_rules (Some u) project) u
      (Run_Command (''sudo chmod 664 '' @ project @ ''/logs/vfio-user.pcap''))"
  using rules_grant [OF assms]
  by (simp_all add: granted_def as_root_def sniffer_cmd_def sniffer_argv_def)

text \<open>The steps that need no rule.\<close>

lemma keeps_option: "keeps P m \<Longrightarrow> (\<And>y. keeps P (f y)) \<Longrightarrow> keeps P (case x of None \<Rightarrow> m | Some y \<Rightarrow> f y)"
  by (simp split: option.split)

lemma keeps_granted_free:
  "as_root c = None \<Longrightarrow> keeps (\<lambda>s. list_all (granted allowed rules u) (ops s)) (perform ev c)"
  by (rule keeps_ops_perform) (simp add: granted_def)

lemmas keeps_granted_parts = keeps_bindE keeps_seqE keeps_whenE keeps_if keeps_tryE keeps_finallyE keeps_seqs keeps_ret
  keeps_raise keeps_getE keeps_ops_basic keeps_ignoring keeps_option keeps_forE

lemma keeps_granted_act:
  "granted allowed rules u c \<Longrightarrow> keeps (\<lambda>s. list_all (granted allowed rules u) (ops s)) (act ev c)"
  unfolding act_def by (intro keeps_bindE keeps_ret keeps_ops_perform)

lemma keeps_granted_steps:
  "keeps (\<lambda>s. list_all (granted allowed rules u) (ops s)) (alive ev p)"
  "keeps (\<lambda>s. list_all (granted allowed rules u) (ops s)) (pause ev n)"
  "keeps (\<lambda>s. list_all (granted allowed rules u) (ops s)) (wait ev p)"
  "keeps (\<lambda>s. list_all (granted allowed rules u) (ops s)) (signal_group ev p n)"
  "keeps (\<lambda>s. list_all (granted allowed rules u) (ops s)) (send_signal ev p n)"
  "keeps (\<lambda>s. list_all (granted allowed rules u) (ops s)) (open_for_log lf q)"
  "granted allowed rules u (Spawn p cmd) \<Longrightarrow> keeps (\<lambda>s. list_all (granted allowed rules u) (ops s)) (spawn ev p cmd)"
  unfolding alive_def pause_def wait_def signal_group_def send_signal_def open_for_log_def spawn_def case_prod_unfold
  by (intro keeps_granted_parts keeps_granted_act keeps_granted_free | simp add: as_root_def granted_def | assumption)+

lemma keeps_granted_await: "keeps (\<lambda>s. list_all (granted allowed rules u) (ops s)) (await_exit n ev)"
  by (induction n) (simp_all only: await_exit.simps, (intro keeps_granted_parts keeps_granted_steps | assumption)+)

lemma keeps_granted_stop: "keeps (\<lambda>s. list_all (granted allowed rules u) (ops s)) (stop_sniffer ev)"
    "keeps (\<lambda>s. list_all (granted allowed rules u) (ops s)) (stop_wireshark ev)"
  unfolding stop_sniffer_def signal_sniffer_def stop_wireshark_def
  by (intro keeps_granted_parts keeps_granted_steps keeps_granted_await keeps_granted_act | simp add: as_root_def granted_def)+

text \<open>
  C5. The rules the setup installs cover the agent: for a user and a project directory without special
  characters, every command that the agent runs through sudo, from starting the sniffer to settling its capture file,
  is one that the rules allow without a password, in any environment in which the user is that user.
\<close>

theorem sudo_rules_cover_agent:
  assumes "sudo_like allowed" and "plain u" and "plain project" and "u \<noteq> []" and "project \<noteq> []" and "\<not> suffix ''/'' project"
    and "\<And>hist n t. ev hist Get_User = Answer n t \<Longrightarrow> t = u"
    and "paths = resolve_relative_paths project parent_dir grandparent_dir home_dir w"
    and "G = granted allowed (exemption_rules (Some u) project) u"
  shows "keeps (\<lambda>s. list_all G (ops s)) (start_sniffer ev project paths) \<and>
    (\<forall>h. pcap_path h = pcap_file_path paths \<longrightarrow> keeps (\<lambda>s. list_all G (ops s)) (stop_vfio_user_pkt_sniffer ev h))"
proof (intro conjI allI impI)
  note cmds = granted_commands [OF assms(1-4)]
  have pcap: "pcap_file_path paths = project @ ''/logs/vfio-user.pcap''"
    using project_paths(2) [OF assms(5,6)] assms(8) by (simp add: resolve_relative_paths_def Let_def)
  note parts = keeps_granted_parts keeps_granted_steps keeps_granted_stop keeps_granted_act keeps_granted_free
  show "keeps (\<lambda>s. list_all G (ops s)) (start_sniffer ev project paths)"
    unfolding start_sniffer_def start_vfio_user_pkt_sniffer_def launch_wireshark_def Let_def project_paths(1) [OF assms(5,6)] assms(9)
    by (intro parts cmds(1)) (simp_all add: granted_def as_root_def)
  have settle: "keeps (\<lambda>s. list_all G (ops s)) (settle_pcap ev (project @ ''/logs/vfio-user.pcap''))"
  proof -
    have "keeps (\<lambda>s. list_all G (ops s))
        (bindE (perform ev Get_User) (\<lambda>(_, user).
          seqE (act ev (Run_Command (''sudo chown '' @ user @ '':'' @ user @ '' '' @ project @ ''/logs/vfio-user.pcap'')))
            (act ev (Run_Command (''sudo chmod 664 '' @ project @ ''/logs/vfio-user.pcap'')))))"
      (is "keeps _ (bindE _ ?rest)")
    proof (rule keepsI)
      fix s :: agent assume s: "list_all G (ops s)"
      show "list_all G (ops (snd (bindE (perform ev Get_User) ?rest s)))"
      proof (cases "ev (ops s) Get_User")
        case (Fails e)
        then show ?thesis using s by (simp add: prog_simps perform_def Let_def assms(9) granted_def as_root_def)
      next
        case (Answer n t)
        then have "t = u" using assms(7) by blast
        have "keeps (\<lambda>s. list_all G (ops s)) (?rest (n, u))"
          unfolding prod.case assms(9) by (intro parts cmds)
        moreover have "list_all G (ops s @ [Get_User])" using s by (simp add: assms(9) granted_def as_root_def)
        ultimately show ?thesis
          using Answer \<open>t = u\<close> keepsD [of "\<lambda>s. list_all G (ops s)" "?rest (n, u)" "s\<lparr>ops := ops s @ [Get_User]\<rparr>"]
          by (simp add: bindE_def perform_def)
      qed
    qed
    then show ?thesis unfolding settle_pcap_def assms(9) by (intro keeps_bindE [OF keeps_getE] keeps_whenE)
  qed
  show "keeps (\<lambda>s. list_all G (ops s)) (stop_vfio_user_pkt_sniffer ev h)" if "pcap_path h = pcap_file_path paths" for h
    using settle unfolding stop_vfio_user_pkt_sniffer_def clean_swap_files_def remove_swap_file_def Let_def case_prod_unfold
      that pcap assms(9)
    by (intro parts) (auto simp: granted_def as_root_def intro!: parts)
qed

text \<open>A reading of the rules line by line, and an environment in which the user is \<open>dev\<close>.\<close>

definition line_by_line :: "string \<Rightarrow> string \<Rightarrow> path \<Rightarrow> string \<Rightarrow> bool" where
  "line_by_line rules user cmd args =
     list_ex (\<lambda>l. let front = user @ '' ALL=(ALL) NOPASSWD: '' @ cmd @ '' ''
                  in prefix front l \<and> pattern_matches (drop (length front) l) args)
       (split_on (CHR 0x0A) rules)"

lemma line_found:
  assumes "a @ b @ c @ d @ pat \<in> set ls" and "pattern_matches pat args"
  shows "list_ex (\<lambda>l. let front = a @ b @ c @ d in prefix front l \<and> pattern_matches (drop (length front) l) args) ls"
proof -
  have "prefix (a @ b @ c @ d) (a @ b @ c @ d @ pat)" "drop (length (a @ b @ c @ d)) (a @ b @ c @ d @ pat) = pat" by simp_all
  then show ?thesis using assms unfolding list_ex_iff Let_def by metis
qed

definition dev_env :: env where
  "dev_env hist c = Answer 0 (if c = Get_User then ''dev'' else [])"

theorem sudo_rules_cover_agent_witness:
  "let G = granted line_by_line (exemption_rules (Some ''dev'') ''/p'') ''dev'';
       paths = resolve_relative_paths ''/p'' ''/'' ''/'' ''/h'' bare_host
   in keeps (\<lambda>s. list_all G (ops s)) (start_sniffer dev_env ''/p'' paths) \<and>
      as_root (Run_Command ''sudo chmod 664 /p/logs/vfio-user.pcap'') = Some (''/usr/bin/chmod'', ''664 /p/logs/vfio-user.pcap'') \<and>
      \<not> G (Run_Command ''sudo chmod 666 /p/logs/vfio-user.pcap'')"
proof -
  have law: "sudo_like line_by_line"
    unfolding sudo_like_def
  proof (intro allI impI, elim conjE)
    fix rules user cmd pat args
    assume line: "user @ '' ALL=(ALL) NOPASSWD: '' @ cmd @ '' '' @ pat \<in> set (split_on (CHR 0x0A) rules)"
      and pat: "pattern_matches pat args"
    show "line_by_line rules user cmd args"
      unfolding line_by_line_def by (rule line_found [OF line pat])
  qed
  have "plain ''dev''" "plain ''/p''" by code_simp+
  moreover have "t = ''dev''" if "dev_env hist Get_User = Answer n t" for hist n t
    using that by (simp add: dev_env_def)
  moreover have "\<not> suffix ''/'' ''/p''" by code_simp
  ultimately have "keeps (\<lambda>s. list_all (granted line_by_line (exemption_rules (Some ''dev'') ''/p'') ''dev'') (ops s))
      (start_sniffer dev_env ''/p'' (resolve_relative_paths ''/p'' ''/'' ''/'' ''/h'' bare_host))"
    using sudo_rules_cover_agent [OF law, of "''dev''" "''/p''" dev_env
        "resolve_relative_paths ''/p'' ''/'' ''/'' ''/h'' bare_host" "''/''" "''/''" "''/h''" bare_host]
    by blast
  moreover have "as_root (Run_Command ''sudo chmod 664 /p/logs/vfio-user.pcap'') = Some (''/usr/bin/chmod'', ''664 /p/logs/vfio-user.pcap'')"
    by code_simp
  moreover have "\<not> granted line_by_line (exemption_rules (Some ''dev'') ''/p'') ''dev'' (Run_Command ''sudo chmod 666 /p/logs/vfio-user.pcap'')"
    by code_simp
  ultimately show ?thesis by (simp add: Let_def)
qed

section \<open>From the agent to the sniffer\<close>

lemma filter_made:
  assumes "p \<noteq> []" and "length p < UNIX_PATH_MAX"
  shows "\<exists>f. build_filter p = Inr f"
proof -
  obtain bs where bs: "sock_path_bytes p = Inr bs" using assms(1) by (cases "sock_path_bytes p") (auto simp: sock_path_bytes_def split: if_splits)
  then have "length bs \<le> UNIX_PATH_MAX" using assms by (auto simp: sock_path_bytes_def split: if_splits)
  then show ?thesis using bs by (auto simp: build_filter_def build_path_filter_def Let_def)
qed

lemma vfio_filter: "\<exists>f. build_filter vfio_socket = Inr f"
  by (rule filter_made) (simp_all add: vfio_socket_def UNIX_PATH_MAX_def)

lemma absolute_no_option: "prefix ''/'' s \<Longrightarrow> \<not> is_option s"
  by (auto simp: is_option_def prefix_def)

text \<open>
  C6. The command the agent starts the sniffer with is one the sniffer understands: run with these words, it captures
  until the signal the agent sends, ends with that signal's number and says how many packets it has seen; the capture
  file the agent asked for is then complete on disk and reads back as the payloads of all the events, in order.
\<close>

theorem agent_capture_reads_back:
  fixes r up upper h :: path and w :: world
  assumes "prefix ''/'' r" and "willing b" and "list_all wf_event events"
  defines "pcap \<equiv> pcap_file_path (resolve_relative_paths r up upper h w)"
  shows "\<exists>s. sockdump_script b (drop 4 (sniffer_argv tool pcap vfio_socket)) events signum = (Inl (SystemExit signum), s) \<and>
    stdout_path s = pcap \<and> \<not> unflushed (capture s) \<and>
    read_pcap (bin_out (capture s)) = Some (51200, 147, map event_record events) \<and>
    stderr_lines s = [''waiting for data'', newline @ show_nat (length events) @ '' packets captured'']"
proof -
  let ?args = "raw_capture_args pcap vfio_socket"
  have pcap: "pcap = path_join (path_join r ''logs'') ''vfio-user.pcap''"
    by (simp add: pcap_def resolve_relative_paths_def Let_def)
  have "\<not> is_option pcap" using assms(1) by (simp add: pcap absolute_join absolute_no_option)
  moreover have "\<not> is_option vfio_socket" by (simp add: vfio_socket_def is_option_def)
  ultimately have parsed: "parse_args (drop 4 (sniffer_argv tool pcap vfio_socket)) = Inr ?args"
    by (simp add: sniffer_argv_def parse_raw_capture)
  have "last pcap = CHR ''p''" by (simp add: pcap path_join_def prefix_def)
  then have "pcap \<noteq> ''/dev/stdout''" by auto
  moreover obtain f where "build_filter vfio_socket = Inr f" using vfio_filter by blast
  ultimately show ?thesis
    using raw_script [OF parsed assms(2) _ _ _ _ _ _ _ _ _ assms(3), of f signum]
    by (simp add: raw_capture_args_def SS_MAX_SEG_SIZE_def SS_MAX_SEGS_IN_BUFFER_def)
qed

definition helpful :: bcc where
  "helpful =
     \<lparr>cpus = 4, page_size = 4096, compiles = (\<lambda>_. None), attaches = (\<lambda>_. None), maps_buffer = (\<lambda>_. None), opens = (\<lambda>_. None)\<rparr>"

theorem agent_capture_reads_back_witness:
  "\<exists>s. sockdump_script helpful
      (drop 4 (sniffer_argv ''/p/tools/net/sockdump.py'' (pcap_file_path (resolve_relative_paths ''/p'' ''/'' ''/'' ''/h'' bare_host)) vfio_socket))
      [(5, 7, sample_event [1, 2, 3])] 2 = (Inl (SystemExit 2), s) \<and>
    read_pcap (bin_out (capture s)) = Some (51200, 147, [(5, 7, 3, [1, 2, 3])])"
proof -
  have ready: "prefix ''/'' ''/p''" "willing helpful" "list_all wf_event [(5, 7, sample_event [1, 2, 3])]"
    by (simp_all add: willing_def helpful_def wf_event_def wf_clock_def sample_payload)
  have "event_record (5, 7, sample_event [1, 2, 3]) = (5, 7, 3, [1, 2, 3])"
    by (simp add: event_record_def sample_payload)
  then show ?thesis
    using agent_capture_reads_back [OF ready, where up = "''/''" and upper = "''/''" and h = "''/h''" and w = bare_host
        and tool = "''/p/tools/net/sockdump.py''" and signum = 2]
    by auto
qed

end
